(* ===== verification/Rdb_Prelude.thy ===== *)
theory Rdb_Prelude
  imports Main "HOL-Library.Word"
begin

text \<open>
  Shared vocabulary of the development: the machine types of the Rust code, outcomes of
  fallible code (value, error, panic), checked indexing and slicing, a state monad for code
  that mutates a reader, little- and big-endian byte conversions, decimal printing and
  parsing of integers as the Rust standard library does them, and the lemma collections
  the component theories extend.

  Conventions.  An unsigned machine integer read from the wire is a word of its width;
  \<open>usize\<close> is \<open>nat\<close> with the 64-bit bound written out wherever the code checks it;
  \<open>i64\<close> is \<open>int\<close>, always produced from a word by \<open>sint\<close>; \<open>f64\<close> and \<open>f32\<close> are their
  IEEE 754 bit patterns.  A Rust \<open>String\<close> or \<open>Vec<u8>\<close> is its list of bytes.
\<close>

unbundle bit_operations_syntax

section \<open>Machine types\<close>

type_synonym u8 = "8 word"
type_synonym u16 = "16 word"
type_synonym u32 = "32 word"
type_synonym u64 = "64 word"
type_synonym i64 = int
type_synonym usize = nat
type_synonym f64 = "64 word"
type_synonym f32 = "32 word"
type_synonym bytes = "u8 list"

definition usize_max :: usize where
  "usize_max = 2 ^ 64 - 1"

abbreviation i64_range :: "int \<Rightarrow> bool" where
  "i64_range n \<equiv> - (2 ^ 63) \<le> n \<and> n < 2 ^ 63"

definition str_bytes :: "string \<Rightarrow> bytes" where
  "str_bytes s = map of_char s"

section \<open>Outcomes of fallible code\<close>

text \<open>
  A Rust function either returns a value, returns an error, or panics (index or slice out
  of range, \<open>unreachable!\<close>, \<open>expect\<close>, arithmetic that would overflow).  Panics are kept as
  a separate outcome so that their absence is a theorem and not a convention.
\<close>

datatype ('a, 'e) res = Ok 'a | Err 'e | Panic

definition and_then :: "('a, 'e) res \<Rightarrow> ('a \<Rightarrow> ('b, 'e) res) \<Rightarrow> ('b, 'e) res" where
  "and_then m f = (case m of Ok a \<Rightarrow> f a | Err e \<Rightarrow> Err e | Panic \<Rightarrow> Panic)"

definition map_err :: "('e \<Rightarrow> 'f) \<Rightarrow> ('a, 'e) res \<Rightarrow> ('a, 'f) res" where
  "map_err g m = (case m of Ok a \<Rightarrow> Ok a | Err e \<Rightarrow> Err (g e) | Panic \<Rightarrow> Panic)"

definition ok_or :: "'e \<Rightarrow> 'a option \<Rightarrow> ('a, 'e) res" where
  "ok_or e m = (case m of Some a \<Rightarrow> Ok a | None \<Rightarrow> Err e)"

named_theorems no_panic \<open>operations never panic\<close>
named_theorems rdb_eval \<open>definitions unfolded to evaluate on concrete input\<close>

lemma and_then_simps [simp]:
  "and_then (Ok a) f = f a" "and_then (Err e) f = Err e" "and_then Panic f = Panic"
  by (simp_all add: and_then_def)

lemma map_err_simps [simp]:
  "map_err g (Ok a) = Ok a" "map_err g (Err e) = Err (g e)" "map_err g Panic = Panic"
  by (simp_all add: map_err_def)

lemma ok_or_simps [simp]: "ok_or e (Some a) = Ok a" "ok_or e None = Err e"
  by (simp_all add: ok_or_def)

lemma and_then_cong [fundef_cong]:
  "m = m' \<Longrightarrow> (\<And>a. m' = Ok a \<Longrightarrow> f a = f' a) \<Longrightarrow> and_then m f = and_then m' f'"
  by (cases m') auto

lemma and_then_Ok_iff: "and_then m f = Ok b \<longleftrightarrow> (\<exists>a. m = Ok a \<and> f a = Ok b)"
  by (cases m) auto

lemma and_then_Err_iff:
  "and_then m f = Err e \<longleftrightarrow> m = Err e \<or> (\<exists>a. m = Ok a \<and> f a = Err e)"
  by (cases m) auto

lemma and_then_Panic_iff:
  "and_then m f = Panic \<longleftrightarrow> m = Panic \<or> (\<exists>a. m = Ok a \<and> f a = Panic)"
  by (cases m) auto

lemma ok_or_Ok_iff: "ok_or e m = Ok a \<longleftrightarrow> m = Some a"
  by (cases m) auto

lemma ok_or_Err_iff: "ok_or e m = Err e' \<longleftrightarrow> m = None \<and> e' = e"
  by (cases m) auto

lemma map_err_Ok_iff: "map_err g m = Ok a \<longleftrightarrow> m = Ok a"
  by (cases m) auto

lemma and_then_no_panic [no_panic]:
  "m \<noteq> Panic \<Longrightarrow> (\<And>a. m = Ok a \<Longrightarrow> f a \<noteq> Panic) \<Longrightarrow> and_then m f \<noteq> Panic"
  by (cases m) auto

lemma ok_or_no_panic [no_panic, simp]: "ok_or e m \<noteq> Panic"
  by (cases m) auto

lemma map_err_no_panic [no_panic]: "m \<noteq> Panic \<Longrightarrow> map_err g m \<noteq> Panic"
  by (cases m) auto

section \<open>Checked indexing and slicing\<close>

definition idx :: "'a list \<Rightarrow> nat \<Rightarrow> ('a, 'e) res" where
  "idx xs i = (if i < length xs then Ok (xs ! i) else Panic)"

definition slice :: "'a list \<Rightarrow> nat \<Rightarrow> nat \<Rightarrow> ('a list, 'e) res" where
  "slice xs a b = (if a \<le> b \<and> b \<le> length xs then Ok (take (b - a) (drop a xs)) else Panic)"

lemma idx_in_range [simp]: "i < length xs \<Longrightarrow> idx xs i = Ok (xs ! i)"
  by (simp add: idx_def)

lemma slice_in_range [simp]:
  "a \<le> b \<Longrightarrow> b \<le> length xs \<Longrightarrow> slice xs a b = Ok (take (b - a) (drop a xs))"
  by (simp add: slice_def)

lemma idx_Ok_iff: "idx xs i = Ok x \<longleftrightarrow> i < length xs \<and> x = xs ! i"
  by (auto simp: idx_def)

lemma slice_Ok_iff:
  "slice xs a b = Ok ys \<longleftrightarrow> a \<le> b \<and> b \<le> length xs \<and> ys = take (b - a) (drop a xs)"
  by (auto simp: slice_def)

lemma idx_not_Err [simp]: "idx xs i \<noteq> Err e"
  by (simp add: idx_def)

lemma slice_not_Err [simp]: "slice xs a b \<noteq> Err e"
  by (simp add: slice_def)

lemma idx_no_panic [no_panic]: "i < length xs \<Longrightarrow> idx xs i \<noteq> Panic"
  by simp

lemma slice_no_panic [no_panic]: "a \<le> b \<Longrightarrow> b \<le> length xs \<Longrightarrow> slice xs a b \<noteq> Panic"
  by simp

text \<open>An array literal of consecutive elements, \<open>[xs[i], xs[i + 1], ...]\<close>.\<close>

primrec idxs :: "'a list \<Rightarrow> nat \<Rightarrow> nat \<Rightarrow> ('a list, 'e) res" where
  "idxs xs i 0 = Ok []"
| "idxs xs i (Suc k) =
     and_then (idx xs i) (\<lambda>x. and_then (idxs xs (Suc i) k) (\<lambda>r. Ok (x # r)))"

lemma idxs_in_range [simp]: "i + k \<le> length xs \<Longrightarrow> idxs xs i k = Ok (take k (drop i xs))"
proof (induction k arbitrary: i)
  case (Suc k)
  then have "drop i xs = xs ! i # drop (Suc i) xs"
    by (simp add: Cons_nth_drop_Suc)
  with Suc show ?case by simp
qed simp

lemma idxs_not_Err [simp]: "idxs xs i k \<noteq> Err e"
  by (induction k arbitrary: i) (auto simp: and_then_Err_iff)

lemma map_res_Ok_iff: "and_then m (\<lambda>x. Ok (f x)) = Ok y \<longleftrightarrow> (\<exists>x. m = Ok x \<and> y = f x)"
  by (auto simp: and_then_Ok_iff)

section \<open>State-passing code\<close>

text \<open>
  A method on \<open>&mut self\<close>: the state is returned in every outcome, because a Rust method
  that returns an error keeps the mutations made before it.
\<close>

type_synonym ('s, 'a, 'e) st = "'s \<Rightarrow> ('a, 'e) res \<times> 's"

definition st_ret :: "'a \<Rightarrow> ('s, 'a, 'e) st" where
  "st_ret a s = (Ok a, s)"

definition st_err :: "'e \<Rightarrow> ('s, 'a, 'e) st" where
  "st_err e s = (Err e, s)"

definition st_lift :: "('a, 'e) res \<Rightarrow> ('s, 'a, 'e) st" where
  "st_lift m s = (m, s)"

definition st_bind :: "('s, 'a, 'e) st \<Rightarrow> ('a \<Rightarrow> ('s, 'b, 'e) st) \<Rightarrow> ('s, 'b, 'e) st" where
  "st_bind m f s = (case m s of
      (Ok a, s') \<Rightarrow> f a s'
    | (Err e, s') \<Rightarrow> (Err e, s')
    | (Panic, s') \<Rightarrow> (Panic, s'))"

text \<open>\<open>for _ in 0..n { v.push(m()?) }\<close>\<close>

primrec st_repeat :: "nat \<Rightarrow> ('s, 'a, 'e) st \<Rightarrow> ('s, 'a list, 'e) st" where
  "st_repeat 0 m = st_ret []"
| "st_repeat (Suc n) m = st_bind m (\<lambda>x. st_bind (st_repeat n m) (\<lambda>xs. st_ret (x # xs)))"

lemma st_simps [simp]:
  "st_ret a s = (Ok a, s)" "st_err e s = (Err e, s)" "st_lift m s = (m, s)"
  by (simp_all add: st_ret_def st_err_def st_lift_def)

lemma st_bind_Ok [simp]: "m s = (Ok a, s') \<Longrightarrow> st_bind m f s = f a s'"
  by (simp add: st_bind_def)

lemma st_bind_Err [simp]: "m s = (Err e, s') \<Longrightarrow> st_bind m f s = (Err e, s')"
  by (simp add: st_bind_def)

lemma st_bind_Panic [simp]: "m s = (Panic, s') \<Longrightarrow> st_bind m f s = (Panic, s')"
  by (simp add: st_bind_def)

lemma st_bind_ret [simp]: "st_bind (st_ret a) f = f a"
  by (simp add: fun_eq_iff st_bind_def)

lemma st_bind_err [simp]: "st_bind (st_err e) f = st_err e"
  by (simp add: fun_eq_iff st_bind_def)

lemma st_bind_assoc: "st_bind (st_bind m f) g = st_bind m (\<lambda>a. st_bind (f a) g)"
  by (auto simp: fun_eq_iff st_bind_def split: prod.splits res.splits)

lemma st_bind_cong [fundef_cong]:
  "m = m' \<Longrightarrow> s = s' \<Longrightarrow> (\<And>a t. m' s' = (Ok a, t) \<Longrightarrow> f a t = f' a t) \<Longrightarrow>
   st_bind m f s = st_bind m' f' s'"
  by (auto simp: st_bind_def split: prod.splits res.splits)

lemma st_bind_Ok_iff:
  "st_bind m f s = (Ok b, t) \<longleftrightarrow> (\<exists>a s'. m s = (Ok a, s') \<and> f a s' = (Ok b, t))"
  by (auto simp: st_bind_def split: prod.splits res.splits)

lemma st_bind_Err_iff:
  "st_bind m f s = (Err e, t) \<longleftrightarrow>
     m s = (Err e, t) \<or> (\<exists>a s'. m s = (Ok a, s') \<and> f a s' = (Err e, t))"
  by (auto simp: st_bind_def split: prod.splits res.splits)

lemma length_st_repeat: "st_repeat n m s = (Ok xs, t) \<Longrightarrow> length xs = n"
  by (induction n arbitrary: s xs) (auto simp: st_bind_Ok_iff)

end
