(* ===== verification/Crc64.thy ===== *)
theory Crc64
  imports Rdb_Prelude
begin

text \<open>
  \<open>crates/rdb-parser/src/crc64.rs\<close>: the table-driven CRC-64 of the RDB trailer.  The
  theorems: the checksum can be computed piecewise; the table algorithm equals the
  bit-by-bit definition of the reflected CRC; and it detects every change confined to a
  window of at most eight bytes.
\<close>

section \<open>The code\<close>

definition POLY :: u64 where
  "POLY = 0x95ac9329ac4bc9b5"

text \<open>The inner loop of \<open>make_table\<close>: \<open>j\<close> runs over \<open>0..8\<close>.\<close>

definition table_step :: "u32 \<Rightarrow> nat \<Rightarrow> u64 \<Rightarrow> u64" where
  "table_step i j crc =
     (if (drop_bit j i XOR ucast crc) AND 1 = 1 then drop_bit 1 crc XOR POLY
      else drop_bit 1 crc)"

definition table_entry :: "u32 \<Rightarrow> u64" where
  "table_entry i = fold (table_step i) [0..<8] 0"

definition make_table :: "u64 list" where
  "make_table = map (\<lambda>i. table_entry (word_of_nat i)) [0..<256]"

definition crc64_step :: "u64 \<Rightarrow> u8 \<Rightarrow> u64" where
  "crc64_step crc byte =
     (let i = unat ((crc XOR ucast byte) AND 0xFF)
      in make_table ! i XOR drop_bit 8 crc)"

definition crc64 :: "u64 \<Rightarrow> bytes \<Rightarrow> u64" where
  "crc64 crc data = foldl crc64_step crc data"

lemma crc64_Nil [simp]: "crc64 c [] = c"
  by (simp add: crc64_def)

lemma crc64_append: "crc64 c (xs @ ys) = crc64 (crc64 c xs) ys"
  by (simp add: crc64_def)

section \<open>The bit-by-bit register\<close>

text \<open>
  The specification: XOR the byte into the low end of the register, then shift right eight
  times, XORing the polynomial whenever a one falls out.
\<close>

definition lfsr :: "u64 \<Rightarrow> u64" where
  "lfsr c = (if bit c 0 then drop_bit 1 c XOR 0x95AC9329AC4BC9B5 else drop_bit 1 c)"

lemma lfsr_poly: "lfsr c = (if bit c 0 then drop_bit 1 c XOR POLY else drop_bit 1 c)"
  by (simp add: lfsr_def POLY_def)

definition lfsr8 :: "u64 \<Rightarrow> u64" where
  "lfsr8 c = lfsr (lfsr (lfsr (lfsr (lfsr (lfsr (lfsr (lfsr c)))))))"

definition crc64_spec :: "u64 \<Rightarrow> bytes \<Rightarrow> u64" where
  "crc64_spec c data = foldl (\<lambda>c b. lfsr8 (c XOR ucast b)) c data"

lemma bit_POLY_63 [simp]: "bit POLY 63"
  by (simp add: POLY_def)

lemma lfsr_linear: "lfsr (a XOR b) = lfsr a XOR lfsr b"
  by (rule bit_word_eqI) (auto simp: lfsr_poly bit_xor_iff bit_drop_bit_eq)

lemma lfsr8_linear: "lfsr8 (a XOR b) = lfsr8 a XOR lfsr8 b"
  by (simp add: lfsr8_def lfsr_linear)

lemma lfsr_drop_bit: "\<not> bit x k \<Longrightarrow> lfsr (drop_bit k x) = drop_bit (Suc k) x"
  by (simp add: lfsr_poly bit_drop_bit_eq)

text \<open>Eight zero bits fall out unchanged.\<close>

lemma lfsr8_low_zero:
  assumes "\<And>k. k < 8 \<Longrightarrow> \<not> bit x k"
  shows "lfsr8 x = drop_bit 8 x"
proof -
  have "lfsr x = drop_bit 1 x"
    using assms [of 0] by (simp add: lfsr_poly)
  then show ?thesis
    using assms by (simp add: lfsr8_def lfsr_drop_bit eval_nat_numeral(2,3))
qed

lemma bit_unat_less: "bit (w :: 'a::len word) k \<Longrightarrow> unat w < 2 ^ n \<Longrightarrow> k < n"
proof -
  assume "bit w k" "unat w < 2 ^ n"
  then have "bit (take_bit n (unat w)) k"
    by (simp add: take_bit_nat_eq_self bit_unsigned_iff)
  then show "k < n" by (simp add: bit_take_bit_iff)
qed

section \<open>The table holds the register's images of the bytes\<close>

lemma table_step_lfsr:
  "lfsr (crc XOR drop_bit j (ucast i)) = table_step i j crc XOR drop_bit (Suc j) (ucast i)"
proof -
  have j: "(j < 64 \<longrightarrow> \<not> bit i j) \<longleftrightarrow> \<not> bit i j"
    using bit_imp_le_length [of i j] by auto
  have "((drop_bit j i XOR ucast crc) AND 1 = 1) = bit (crc XOR drop_bit j (ucast i)) 0"
    using j by (auto simp: and_one_eq mod_2_eq_odd bit_xor_iff bit_drop_bit_eq bit_ucast_iff
        simp flip: bit_0)
  then show ?thesis
    by (auto intro!: bit_word_eqI
        simp: lfsr_poly table_step_def bit_xor_iff bit_drop_bit_eq bit_ucast_iff)
qed

lemma table_entry_lfsr8:
  assumes "unat (i :: u32) < 256"
  shows "table_entry i = lfsr8 (ucast i)"
proof -
  have "drop_bit 8 (ucast i :: u64) = 0"
  proof (rule bit_word_eqI)
    fix n
    show "bit (drop_bit 8 (ucast i :: u64)) n \<longleftrightarrow> bit (0 :: u64) n"
      using bit_unat_less [of i "8 + n" 8] assms by (auto simp: bit_drop_bit_eq bit_ucast_iff)
  qed
  moreover have "lfsr8 (ucast i) = table_entry i XOR drop_bit 8 (ucast i)"
    using table_step_lfsr [of _ _ i] table_step_lfsr [of 0 0 i]
    by (simp add: lfsr8_def table_entry_def upt_rec eval_nat_numeral(2,3))
  ultimately show ?thesis by simp
qed

section \<open>The table algorithm is the bit-by-bit CRC\<close>

lemma length_make_table [simp]: "length make_table = 256"
  by (simp add: make_table_def)

lemma make_table_nth:
  assumes "i < 256"
  shows "make_table ! i = lfsr8 (word_of_nat i)"
proof -
  have "unat (word_of_nat i :: u32) = i"
    using assms by (simp add: unat_of_nat)
  moreover from this have "ucast (word_of_nat i :: u32) = (word_of_nat i :: u64)"
    using assms
    by (simp add: word_unat_eq_iff unat_of_nat unsigned_ucast_eq take_bit_nat_eq_self)
  ultimately show ?thesis
    using table_entry_lfsr8 [of "word_of_nat i"] assms by (simp add: make_table_def)
qed

lemma and_0xFF: "x AND 0xFF = take_bit 8 x" for x :: u64
  by (simp add: take_bit_eq_mask mask_eq_exp_minus_1)

lemma low_byte_split: "x = take_bit 8 x XOR push_bit 8 (drop_bit 8 x)" for x :: u64
  by (rule bit_word_eqI)
    (auto simp: bit_xor_iff bit_take_bit_iff bit_push_bit_iff bit_drop_bit_eq)

lemma drop_push_drop: "drop_bit 8 (push_bit 8 (drop_bit 8 x)) = drop_bit 8 x" for x :: u64
  by (rule bit_word_eqI) (auto simp: bit_push_bit_iff bit_drop_bit_eq dest: bit_imp_le_length)

lemma lfsr8_push_bit: "lfsr8 (push_bit 8 w) = drop_bit 8 (push_bit 8 w)"
  by (rule lfsr8_low_zero) (simp add: bit_push_bit_iff)

lemma crc64_step_lfsr8: "crc64_step c b = lfsr8 (c XOR ucast b)"
proof -
  let ?x = "c XOR ucast b :: u64"
  have low: "unat (take_bit 8 ?x) < 256"
    using take_bit_nat_less_exp [of 8 "unat ?x"]
    by (simp add: unsigned_take_bit_eq del: take_bit_xor)
  have high: "drop_bit 8 ?x = drop_bit 8 c"
  proof (rule bit_word_eqI)
    fix n
    show "bit (drop_bit 8 ?x) n = bit (drop_bit 8 c) n"
      using bit_imp_le_length [of b "8 + n"]
      by (auto simp: bit_xor_iff bit_drop_bit_eq bit_ucast_iff)
  qed
  have "lfsr8 ?x = lfsr8 (take_bit 8 ?x) XOR lfsr8 (push_bit 8 (drop_bit 8 ?x))"
    by (subst low_byte_split) (rule lfsr8_linear)
  also have "lfsr8 (push_bit 8 (drop_bit 8 ?x)) = drop_bit 8 ?x"
    by (simp only: lfsr8_push_bit high drop_push_drop)
  also have "lfsr8 (take_bit 8 ?x) = make_table ! unat (take_bit 8 ?x)"
    using low by (simp add: make_table_nth)
  finally show ?thesis unfolding crc64_step_def and_0xFF Let_def high by (rule sym)
qed

text \<open>
  C16. The table-driven checksum is the reflected CRC-64 with polynomial
  \<open>0x95AC9329AC4BC9B5\<close> (bit-reversed): for every start value and every input, looking bytes up in \<open>make_table\<close> gives the same register as
  shifting the bits through one at a time.
\<close>

theorem crc64_is_bitwise: "crc64 c data = crc64_spec c data"
  by (simp add: crc64_def crc64_spec_def crc64_step_lfsr8 [abs_def])

lemma crc64_Cons: "crc64 c (b # bs) = crc64 (lfsr8 (c XOR ucast b)) bs"
  by (simp add: crc64_def crc64_step_lfsr8)

section \<open>Error detection\<close>

lemma xor_cancel [simp]:
  "a XOR b = a XOR c \<longleftrightarrow> b = c" "b XOR a = c XOR a \<longleftrightarrow> b = c" for a b c :: "'a::len word"
proof -
  have *: "a XOR (a XOR x) = x" for x
    by (simp flip: xor.assoc)
  show "a XOR b = a XOR c \<longleftrightarrow> b = c"
    using * [of b] * [of c] by (auto dest: arg_cong [where f = "\<lambda>x. a XOR x"])
  then show "b XOR a = c XOR a \<longleftrightarrow> b = c"
    by (simp add: xor.commute)
qed

lemma lfsr_inj: "lfsr x = lfsr y \<Longrightarrow> x = y"
proof -
  assume eq: "lfsr x = lfsr y"
  have top: "bit (lfsr z) 63 = bit z 0" for z
    by (auto simp: lfsr_poly bit_xor_iff bit_drop_bit_eq dest: bit_imp_le_length)
  have low: "bit x 0 = bit y 0"
    using eq top by metis
  with eq have shift: "drop_bit 1 x = drop_bit 1 y"
    by (auto simp: lfsr_poly split: if_splits)
  show "x = y"
  proof (rule bit_word_eqI)
    fix n
    show "bit x n = bit y n"
    proof (cases n)
      case 0
      with low show ?thesis by simp
    next
      case (Suc m)
      then show ?thesis
        using shift by (metis bit_drop_bit_eq comp_apply plus_1_eq_Suc)
    qed
  qed
qed

lemma lfsr8_inj: "lfsr8 x = lfsr8 y \<Longrightarrow> x = y"
  unfolding lfsr8_def by (blast dest: lfsr_inj)

lemma crc64_inj: "crc64 c data = crc64 d data \<Longrightarrow> c = d"
proof (induction data arbitrary: c d)
  case Nil
  then show ?case by simp
next
  case (Cons b bs)
  from Cons.prems have "crc64 (lfsr8 (c XOR ucast b)) bs = crc64 (lfsr8 (d XOR ucast b)) bs"
    by (simp add: crc64_Cons)
  then have "c XOR ucast b = d XOR ucast b"
    by (blast dest: Cons.IH lfsr8_inj)
  then show ?case by simp
qed

text \<open>The register after up to eight bytes is an injective image of those bytes.\<close>

fun le_word :: "bytes \<Rightarrow> u64" where
  "le_word [] = 0"
| "le_word (b # bs) = ucast b XOR push_bit 8 (le_word bs)"

lemma bit_le_word: "bit (le_word bs) n \<Longrightarrow> n < 8 * length bs"
proof (induction bs arbitrary: n)
  case Nil
  then show ?case by simp
next
  case (Cons b bs)
  from Cons.prems consider "bit b n" | "8 \<le> n" "bit (le_word bs) (n - 8)"
    by (auto simp: bit_xor_iff bit_push_bit_iff bit_ucast_iff)
  then show ?case
  proof cases
    case 1
    then show ?thesis by (auto dest: bit_imp_le_length)
  next
    case 2
    with Cons.IH [of "n - 8"] show ?thesis by auto
  qed
qed

lemma crc64_le_word:
  "length bs \<le> 8 \<Longrightarrow> crc64 c bs = ((lfsr8 ^^ length bs) (c XOR le_word bs))"
proof (induction bs arbitrary: c)
  case Nil
  then show ?case by simp
next
  case (Cons b bs)
  have "drop_bit 8 (push_bit 8 (le_word bs)) = le_word bs"
    using Cons.prems bit_le_word [of bs]
    by (auto intro!: bit_word_eqI simp: bit_drop_bit_eq bit_push_bit_iff) fastforce
  then have "lfsr8 (c XOR ucast b) XOR le_word bs = lfsr8 (c XOR le_word (b # bs))"
    by (simp add: lfsr8_linear lfsr8_push_bit xor.assoc)
  with Cons show ?case
    by (simp add: crc64_Cons funpow_swap1)
qed

lemma le_word_inj:
  "length xs = length ys \<Longrightarrow> length xs \<le> 8 \<Longrightarrow> le_word xs = le_word ys \<Longrightarrow> xs = ys"
proof (induction xs ys rule: list_induct2)
  case Nil
  then show ?case by simp
next
  case (Cons x xs y ys)
  have bits: "bit (ucast x XOR push_bit 8 (le_word xs)) n =
      bit (ucast y XOR push_bit 8 (le_word ys)) n" for n
    using Cons.prems by simp
  have "x = y"
  proof (rule bit_word_eqI)
    fix n assume "n < LENGTH(8)"
    with bits [of n] show "bit x n = bit y n"
      by (simp add: bit_xor_iff bit_push_bit_iff bit_ucast_iff)
  qed
  moreover have "le_word xs = le_word ys"
  proof (rule bit_word_eqI)
    fix n assume "n < LENGTH(64)"
    show "bit (le_word xs) n = bit (le_word ys) n"
    proof (cases "n < 56")
      case True
      with bits [of "n + 8"] show ?thesis
        by (auto simp: bit_xor_iff bit_push_bit_iff bit_ucast_iff dest: bit_imp_le_length)
    next
      case False
      with bit_le_word [of xs n] bit_le_word [of ys n] Cons.prems Cons.hyps show ?thesis
        by auto
    qed
  qed
  ultimately show ?case using Cons by simp
qed

lemma funpow_lfsr8_inj: "(lfsr8 ^^ n) x = (lfsr8 ^^ n) y \<Longrightarrow> x = y"
  by (induction n) (auto dest: lfsr8_inj)

text \<open>
  C17. Two files that differ only inside a window of at most eight bytes never have the same
  checksum, whatever precedes and follows the window; so the trailer check of the reader, where
  it is made, rejects every such corruption of a body.
\<close>

theorem crc64_detects_burst:
  assumes "length xs = length ys" "length xs \<le> 8" "xs \<noteq> ys"
  shows "crc64 c (pre @ xs @ post) \<noteq> crc64 c (pre @ ys @ post)"
proof
  let ?c = "crc64 c pre"
  assume "crc64 c (pre @ xs @ post) = crc64 c (pre @ ys @ post)"
  then have "crc64 ?c xs = crc64 ?c ys"
    by (auto simp: crc64_append dest: crc64_inj)
  then have "?c XOR le_word xs = ?c XOR le_word ys"
    using assms by (auto simp: crc64_le_word dest: funpow_lfsr8_inj)
  then have "le_word xs = le_word ys" by simp
  with assms le_word_inj show False by blast
qed

theorem crc64_detects_burst_witness:
  "crc64 0 ([1, 2] @ [3, 4] @ [5]) \<noteq> crc64 0 ([1, 2] @ [7, 4] @ [5])"
  by (rule crc64_detects_burst) simp_all

lemmas crc64_eval [rdb_eval] = crc64_Cons lfsr8_def lfsr_def

end
