(* ===== verification/Opcodes.thy ===== *)
theory Opcodes
  imports Rdb_Prelude
begin

text \<open>
  \<open>crates/rdb-parser/src/opcodes.rs\<close>: the wire constants of the RDB format and the
  functions that classify a type byte.  The constants are abbreviations, so they are
  numerals to the simplifier.
\<close>

section \<open>Opcodes\<close>

abbreviation (input) RDB_OPCODE_SLOT_IMPORT :: u8 where "RDB_OPCODE_SLOT_IMPORT \<equiv> 243"
abbreviation (input) RDB_OPCODE_SLOT_INFO :: u8 where "RDB_OPCODE_SLOT_INFO \<equiv> 244"
abbreviation (input) RDB_OPCODE_FUNCTION2 :: u8 where "RDB_OPCODE_FUNCTION2 \<equiv> 245"
abbreviation (input) RDB_OPCODE_FUNCTION_PRE_GA :: u8 where "RDB_OPCODE_FUNCTION_PRE_GA \<equiv> 246"
abbreviation (input) RDB_OPCODE_MODULE_AUX :: u8 where "RDB_OPCODE_MODULE_AUX \<equiv> 247"
abbreviation (input) RDB_OPCODE_IDLE :: u8 where "RDB_OPCODE_IDLE \<equiv> 248"
abbreviation (input) RDB_OPCODE_FREQ :: u8 where "RDB_OPCODE_FREQ \<equiv> 249"
abbreviation (input) RDB_OPCODE_AUX :: u8 where "RDB_OPCODE_AUX \<equiv> 250"
abbreviation (input) RDB_OPCODE_RESIZEDB :: u8 where "RDB_OPCODE_RESIZEDB \<equiv> 251"
abbreviation (input) RDB_OPCODE_EXPIRETIME_MS :: u8 where "RDB_OPCODE_EXPIRETIME_MS \<equiv> 252"
abbreviation (input) RDB_OPCODE_EXPIRETIME :: u8 where "RDB_OPCODE_EXPIRETIME \<equiv> 253"
abbreviation (input) RDB_OPCODE_SELECTDB :: u8 where "RDB_OPCODE_SELECTDB \<equiv> 254"
abbreviation (input) RDB_OPCODE_EOF :: u8 where "RDB_OPCODE_EOF \<equiv> 255"

section \<open>Value type codes\<close>

abbreviation (input) RDB_TYPE_STRING :: u8 where "RDB_TYPE_STRING \<equiv> 0"
abbreviation (input) RDB_TYPE_LIST :: u8 where "RDB_TYPE_LIST \<equiv> 1"
abbreviation (input) RDB_TYPE_SET :: u8 where "RDB_TYPE_SET \<equiv> 2"
abbreviation (input) RDB_TYPE_ZSET :: u8 where "RDB_TYPE_ZSET \<equiv> 3"
abbreviation (input) RDB_TYPE_HASH :: u8 where "RDB_TYPE_HASH \<equiv> 4"
abbreviation (input) RDB_TYPE_ZSET_2 :: u8 where "RDB_TYPE_ZSET_2 \<equiv> 5"
abbreviation (input) RDB_TYPE_MODULE_PRE_GA :: u8 where "RDB_TYPE_MODULE_PRE_GA \<equiv> 6"
abbreviation (input) RDB_TYPE_MODULE_2 :: u8 where "RDB_TYPE_MODULE_2 \<equiv> 7"
abbreviation (input) RDB_TYPE_HASH_ZIPMAP :: u8 where "RDB_TYPE_HASH_ZIPMAP \<equiv> 9"
abbreviation (input) RDB_TYPE_LIST_ZIPLIST :: u8 where "RDB_TYPE_LIST_ZIPLIST \<equiv> 10"
abbreviation (input) RDB_TYPE_SET_INTSET :: u8 where "RDB_TYPE_SET_INTSET \<equiv> 11"
abbreviation (input) RDB_TYPE_ZSET_ZIPLIST :: u8 where "RDB_TYPE_ZSET_ZIPLIST \<equiv> 12"
abbreviation (input) RDB_TYPE_HASH_ZIPLIST :: u8 where "RDB_TYPE_HASH_ZIPLIST \<equiv> 13"
abbreviation (input) RDB_TYPE_LIST_QUICKLIST :: u8 where "RDB_TYPE_LIST_QUICKLIST \<equiv> 14"
abbreviation (input) RDB_TYPE_STREAM_LISTPACKS :: u8 where "RDB_TYPE_STREAM_LISTPACKS \<equiv> 15"
abbreviation (input) RDB_TYPE_HASH_LISTPACK :: u8 where "RDB_TYPE_HASH_LISTPACK \<equiv> 16"
abbreviation (input) RDB_TYPE_ZSET_LISTPACK :: u8 where "RDB_TYPE_ZSET_LISTPACK \<equiv> 17"
abbreviation (input) RDB_TYPE_LIST_QUICKLIST_2 :: u8 where "RDB_TYPE_LIST_QUICKLIST_2 \<equiv> 18"
abbreviation (input) RDB_TYPE_STREAM_LISTPACKS_2 :: u8 where "RDB_TYPE_STREAM_LISTPACKS_2 \<equiv> 19"
abbreviation (input) RDB_TYPE_SET_LISTPACK :: u8 where "RDB_TYPE_SET_LISTPACK \<equiv> 20"
abbreviation (input) RDB_TYPE_STREAM_LISTPACKS_3 :: u8 where "RDB_TYPE_STREAM_LISTPACKS_3 \<equiv> 21"
abbreviation (input) RDB_TYPE_HASH_2 :: u8 where "RDB_TYPE_HASH_2 \<equiv> 22"

section \<open>Length encoding and string encoding sub-types\<close>

abbreviation (input) RDB_6BITLEN :: u8 where "RDB_6BITLEN \<equiv> 0"
abbreviation (input) RDB_14BITLEN :: u8 where "RDB_14BITLEN \<equiv> 1"
abbreviation (input) RDB_ENCVAL :: u8 where "RDB_ENCVAL \<equiv> 3"
abbreviation (input) RDB_32BITLEN :: u8 where "RDB_32BITLEN \<equiv> 0x80"
abbreviation (input) RDB_64BITLEN :: u8 where "RDB_64BITLEN \<equiv> 0x81"

abbreviation (input) RDB_ENC_INT8 :: u8 where "RDB_ENC_INT8 \<equiv> 0"
abbreviation (input) RDB_ENC_INT16 :: u8 where "RDB_ENC_INT16 \<equiv> 1"
abbreviation (input) RDB_ENC_INT32 :: u8 where "RDB_ENC_INT32 \<equiv> 2"
abbreviation (input) RDB_ENC_LZF :: u8 where "RDB_ENC_LZF \<equiv> 3"

section \<open>Classification of type bytes\<close>

definition is_object_type :: "u8 \<Rightarrow> bool" where
  "is_object_type t \<longleftrightarrow> t \<le> 7 \<or> (9 \<le> t \<and> t \<le> RDB_TYPE_HASH_2)"

definition type_name :: "u8 \<Rightarrow> string" where
  "type_name t =
     (if t = RDB_TYPE_STRING then ''string''
      else if t \<in> {RDB_TYPE_LIST, RDB_TYPE_LIST_ZIPLIST, RDB_TYPE_LIST_QUICKLIST,
                   RDB_TYPE_LIST_QUICKLIST_2} then ''list''
      else if t \<in> {RDB_TYPE_SET, RDB_TYPE_SET_INTSET, RDB_TYPE_SET_LISTPACK} then ''set''
      else if t \<in> {RDB_TYPE_ZSET, RDB_TYPE_ZSET_2, RDB_TYPE_ZSET_ZIPLIST,
                   RDB_TYPE_ZSET_LISTPACK} then ''zset''
      else if t \<in> {RDB_TYPE_HASH, RDB_TYPE_HASH_ZIPMAP, RDB_TYPE_HASH_ZIPLIST,
                   RDB_TYPE_HASH_LISTPACK, RDB_TYPE_HASH_2} then ''hash''
      else if t \<in> {RDB_TYPE_STREAM_LISTPACKS, RDB_TYPE_STREAM_LISTPACKS_2,
                   RDB_TYPE_STREAM_LISTPACKS_3} then ''stream''
      else if t \<in> {RDB_TYPE_MODULE_PRE_GA, RDB_TYPE_MODULE_2} then ''module''
      else ''unknown'')"

definition encoding_name :: "u8 \<Rightarrow> string" where
  "encoding_name t =
     (if t = RDB_TYPE_STRING then ''string''
      else if t = RDB_TYPE_LIST then ''linkedlist''
      else if t = RDB_TYPE_SET then ''hashtable''
      else if t = RDB_TYPE_ZSET then ''skiplist''
      else if t = RDB_TYPE_ZSET_2 then ''skiplist''
      else if t = RDB_TYPE_HASH then ''hashtable''
      else if t = RDB_TYPE_HASH_ZIPMAP then ''zipmap''
      else if t = RDB_TYPE_LIST_ZIPLIST then ''ziplist''
      else if t = RDB_TYPE_SET_INTSET then ''intset''
      else if t = RDB_TYPE_ZSET_ZIPLIST then ''ziplist''
      else if t = RDB_TYPE_HASH_ZIPLIST then ''ziplist''
      else if t = RDB_TYPE_LIST_QUICKLIST then ''quicklist''
      else if t = RDB_TYPE_LIST_QUICKLIST_2 then ''quicklist2''
      else if t = RDB_TYPE_HASH_LISTPACK then ''listpack''
      else if t = RDB_TYPE_ZSET_LISTPACK then ''listpack''
      else if t = RDB_TYPE_SET_LISTPACK then ''listpack''
      else if t = RDB_TYPE_STREAM_LISTPACKS then ''stream''
      else if t = RDB_TYPE_STREAM_LISTPACKS_2 then ''stream2''
      else if t = RDB_TYPE_STREAM_LISTPACKS_3 then ''stream3''
      else if t = RDB_TYPE_HASH_2 then ''hashtable''
      else if t = RDB_TYPE_MODULE_PRE_GA \<or> t = RDB_TYPE_MODULE_2 then ''module''
      else ''unknown'')"

text \<open>
  An object type is one of the 22 numbered codes.  The proof goes through the numeric value
  of the byte.
\<close>

lemma byte_cases_small: "(t :: u8) \<le> 22 \<Longrightarrow> t \<in> set (map word_of_nat [0..<23])"
proof -
  assume "t \<le> 22"
  then have "unat t < 23" by (simp add: word_le_nat_alt)
  then have "word_of_nat (unat t) \<in> (word_of_nat :: nat \<Rightarrow> u8) ` set [0..<23]"
    by (intro imageI) simp
  then show ?thesis by simp
qed

lemma is_object_type_cases:
  "is_object_type t \<longleftrightarrow> t \<in> {0, 1, 2, 3, 4, 5, 6, 7, 9, 10, 11, 12, 13, 14, 15, 16, 17, 18,
     19, 20, 21, 22}"
proof
  assume obj: "is_object_type t"
  then have le: "t \<le> 22"
    by (auto simp: is_object_type_def word_le_nat_alt)
  have "t \<noteq> 8"
    using obj by (auto simp: is_object_type_def)
  with byte_cases_small [OF le]
  show "t \<in> {0, 1, 2, 3, 4, 5, 6, 7, 9, 10, 11, 12, 13, 14, 15, 16, 17, 18, 19, 20, 21, 22}"
    by (simp add: upt_rec)
next
  assume "t \<in> {0, 1, 2, 3, 4, 5, 6, 7, 9, 10, 11, 12, 13, 14, 15, 16, 17, 18, 19, 20, 21, 22}"
  then show "is_object_type t"
    by (auto simp: is_object_type_def)
qed

text \<open>
  The three classifiers agree: a byte is an object type exactly when it has a logical
  type name, and exactly when it has an encoding name; so no type code recognised by the
  reader is exported as \<open>unknown\<close>, and no opcode byte is taken for an object.
\<close>

lemma object_types_are_named:
  "(is_object_type t \<longleftrightarrow> type_name t \<noteq> ''unknown'') \<and>
   (is_object_type t \<longleftrightarrow> encoding_name t \<noteq> ''unknown'')"
  unfolding is_object_type_cases by (auto simp: type_name_def encoding_name_def)

end
