(* ===== verification/Byte_Ints.thy ===== *)
theory Byte_Ints
  imports Rdb_Prelude
begin

text \<open>
  The integer conversions of the Rust standard library the parser uses: \<open>from_le_bytes\<close> and
  \<open>from_be_bytes\<close> at any width, their inverses (used to state round trips), \<open>to_string\<close> of
  integers, and \<open>str::parse\<close> for unsigned and signed integers.
\<close>

section \<open>Little- and big-endian\<close>

fun le_nat :: "bytes \<Rightarrow> nat" where
  "le_nat [] = 0"
| "le_nat (b # bs) = unat b + 256 * le_nat bs"

definition be_nat :: "bytes \<Rightarrow> nat" where
  "be_nat bs = le_nat (rev bs)"

definition from_le :: "bytes \<Rightarrow> 'a::len word" where
  "from_le bs = word_of_nat (le_nat bs)"

definition from_be :: "bytes \<Rightarrow> 'a::len word" where
  "from_be bs = word_of_nat (be_nat bs)"

fun to_le :: "nat \<Rightarrow> nat \<Rightarrow> bytes" where
  "to_le 0 n = []"
| "to_le (Suc k) n = word_of_nat n # to_le k (n div 256)"

definition to_be :: "nat \<Rightarrow> nat \<Rightarrow> bytes" where
  "to_be k n = rev (to_le k n)"

lemma length_to_le [simp]: "length (to_le k n) = k"
  by (induction k arbitrary: n) auto

lemma length_to_be [simp]: "length (to_be k n) = k"
  by (simp add: to_be_def)

lemma unat_byte_less [simp]: "unat (b :: u8) < 256"
  using unsigned_less [of b, where ?'a = nat] by simp

lemma le_nat_less: "le_nat bs < 256 ^ length bs"
proof (induction bs)
  case Nil
  then show ?case by simp
next
  case (Cons b bs)
  have "unat b + 256 * le_nat bs < 256 + 256 * le_nat bs"
    by simp
  also have "\<dots> = 256 * Suc (le_nat bs)"
    by simp
  also have "\<dots> \<le> 256 * 256 ^ length bs"
    using Cons.IH by (meson Suc_leI mult_le_mono2)
  finally show ?case by simp
qed

lemma be_nat_less: "be_nat bs < 256 ^ length bs"
  using le_nat_less [of "rev bs"] by (simp add: be_nat_def)

lemma le_nat_append: "le_nat (xs @ ys) = le_nat xs + 256 ^ length xs * le_nat ys"
  by (induction xs) (auto simp: algebra_simps)

lemma le_nat_to_le: "le_nat (to_le k n) = n mod 256 ^ k"
proof (induction k arbitrary: n)
  case 0
  then show ?case by simp
next
  case (Suc k)
  have "le_nat (to_le (Suc k) n) = n mod 256 + 256 * (n div 256 mod 256 ^ k)"
    by (simp add: Suc.IH unat_of_nat)
  also have "\<dots> = n mod (256 * 256 ^ k)"
    by (simp add: mod_mult2_eq)
  finally show ?case by simp
qed

lemma be_nat_to_be: "be_nat (to_be k n) = n mod 256 ^ k"
  by (simp add: be_nat_def to_be_def le_nat_to_le)

lemma to_le_le_nat: "to_le (length bs) (le_nat bs) = bs"
proof (induction bs)
  case Nil
  then show ?case by simp
next
  case (Cons b bs)
  have "(unat b + 256 * le_nat bs) div 256 = le_nat bs"
    by (simp add: div_add1_eq)
  moreover have "(word_of_nat (unat b + 256 * le_nat bs) :: u8) = b"
    by (subst word_unat_eq_iff) (simp add: unat_of_nat del: of_nat_add of_nat_mult)
  ultimately show ?case using Cons.IH by simp
qed

lemma from_le_to_le:
  "256 ^ k = (2 ^ LENGTH('a) :: nat) \<Longrightarrow> from_le (to_le k n) = (word_of_nat n :: 'a::len word)"
  by (subst word_unat_eq_iff) (simp add: from_le_def le_nat_to_le unat_of_nat)

lemma from_be_to_be:
  "256 ^ k = (2 ^ LENGTH('a) :: nat) \<Longrightarrow> from_be (to_be k n) = (word_of_nat n :: 'a::len word)"
  by (subst word_unat_eq_iff) (simp add: from_be_def be_nat_to_be unat_of_nat)

lemma unat_from_le:
  "256 ^ length bs \<le> (2 ^ LENGTH('a) :: nat) \<Longrightarrow> unat (from_le bs :: 'a::len word) = le_nat bs"
  using le_nat_less [of bs] by (simp add: from_le_def unat_of_nat)

lemma unat_from_be:
  "256 ^ length bs \<le> (2 ^ LENGTH('a) :: nat) \<Longrightarrow> unat (from_be bs :: 'a::len word) = be_nat bs"
  using be_nat_less [of bs] by (simp add: from_be_def unat_of_nat)

lemma from_le_inj:
  assumes "length xs = length ys" "256 ^ length xs \<le> (2 ^ LENGTH('a) :: nat)"
    "(from_le xs :: 'a::len word) = from_le ys"
  shows "xs = ys"
  using assms by (metis to_le_le_nat unat_from_le)

lemma sint_word_of_int_range:
  "- (2 ^ (LENGTH('a) - 1)) \<le> n \<Longrightarrow> n < 2 ^ (LENGTH('a) - 1) \<Longrightarrow>
   sint (word_of_int n :: 'a::len word) = n"
  by (simp add: signed_of_int signed_take_bit_int_eq_self)

text \<open>A signed integer in two's complement, little-endian, in \<open>w\<close> bytes.\<close>

definition int_le :: "nat \<Rightarrow> int \<Rightarrow> bytes" where
  "int_le w n = to_le w (nat (n mod 256 ^ w))"

lemma length_int_le [simp]: "length (int_le w n) = w"
  by (simp add: int_le_def)

lemma int_power_of_nat: "256 ^ w = (2 ^ k :: nat) \<Longrightarrow> 256 ^ w = (2 ^ k :: int)"
  by (metis of_nat_numeral of_nat_power)

lemma from_le_int_le:
  assumes "256 ^ w = (2 ^ LENGTH('a) :: nat)"
  shows "(from_le (int_le w n) :: 'a::len word) = word_of_int n"
proof -
  have "(from_le (int_le w n) :: 'a word) = word_of_int (n mod 2 ^ LENGTH('a))"
    by (simp only: int_le_def from_le_to_le [OF assms] int_power_of_nat [OF assms]) simp
  then show ?thesis
    by (simp add: word_uint_eq_iff uint_word_of_int)
qed

lemma sint_from_le:
  assumes "256 ^ w = (2 ^ LENGTH('a) :: nat)" "- (256 ^ w) \<le> 2 * n" "2 * n < 256 ^ w"
  shows "sint (from_le (int_le w n) :: 'a::len word) = n"
proof -
  have "(2 :: int) ^ LENGTH('a) = 2 * 2 ^ (LENGTH('a) - 1)"
    by (simp flip: power_Suc)
  with assms(2,3) have "- (2 ^ (LENGTH('a) - 1)) \<le> n" "n < 2 ^ (LENGTH('a) - 1)"
    unfolding int_power_of_nat [OF assms(1)] by linarith+
  then show ?thesis
    unfolding from_le_int_le [OF assms(1)] by (rule sint_word_of_int_range)
qed

lemma int_le_sint:
  assumes "256 ^ length bs = (2 ^ LENGTH('a) :: nat)"
  shows "int_le (length bs) (sint (from_le bs :: 'a::len word)) = bs"
proof -
  have "sint (from_le bs :: 'a word) mod 2 ^ LENGTH('a) = uint (from_le bs :: 'a word)"
    by (simp add: uint_sint take_bit_eq_mod)
  then have "nat (sint (from_le bs :: 'a word) mod 256 ^ length bs)
      = unat (from_le bs :: 'a word)"
    by (simp only: int_power_of_nat [OF assms] unat_eq_nat_uint)
  also have "\<dots> = le_nat bs"
    by (rule unat_from_le) (simp only: assms)
  finally have "nat (sint (from_le bs :: 'a word) mod 256 ^ length bs) = le_nat bs" .
  then show ?thesis
    by (simp add: int_le_def to_le_le_nat)
qed

lemma sint_from_le_range:
  assumes "256 ^ w = (2 ^ LENGTH('a) :: nat)"
  shows "- (256 ^ w) \<le> 2 * sint (from_le bs :: 'a::len word)"
    "2 * sint (from_le bs :: 'a::len word) < 256 ^ w"
proof -
  have "(2 :: int) ^ LENGTH('a) = 2 * 2 ^ (LENGTH('a) - 1)"
    by (simp flip: power_Suc)
  with sint_range_size [of "from_le bs :: 'a word"]
  show "- (256 ^ w) \<le> 2 * sint (from_le bs :: 'a::len word)"
    "2 * sint (from_le bs :: 'a::len word) < 256 ^ w"
    by (simp_all add: int_power_of_nat [OF assms] word_size)
qed

section \<open>Packing bit fields\<close>

lemma push_bit_or_nat: "lo < 2 ^ k \<Longrightarrow> push_bit k x OR lo = x * 2 ^ k + lo" for x lo :: nat
proof -
  assume "lo < 2 ^ k"
  then have lo: "take_bit k lo = lo" by (simp add: take_bit_nat_eq_self)
  have "push_bit k x AND take_bit k lo = 0"
    by (rule bit_eqI) (auto simp: bit_and_iff bit_push_bit_iff bit_take_bit_iff)
  then have "push_bit k x OR lo = push_bit k x + lo"
    by (simp add: lo disjunctive_add_eq_or)
  then show ?thesis by (simp add: push_bit_eq_mult)
qed

lemma and_mask_nat: "x AND (2 ^ k - 1) = x mod 2 ^ k" for x :: nat
  using take_bit_eq_mask [of k x] by (simp add: take_bit_eq_mod mask_eq_exp_minus_1)

text \<open>\<open>n as u8\<close>\<close>

definition as_u8 :: "nat \<Rightarrow> u8" where
  "as_u8 n = word_of_nat n"

lemma unat_as_u8 [simp]: "unat (as_u8 n) = n mod 256"
  by (simp add: as_u8_def unat_of_nat)

lemma as_u8_unat [simp]: "as_u8 (unat b) = b"
  by (simp add: word_unat_eq_iff)

lemma as_u8_eqI: "unat b = n \<Longrightarrow> as_u8 n = b"
  by (auto simp: word_unat_eq_iff)

text \<open>The high-bit patterns the wire formats test, as ranges of the byte.\<close>

lemma and_top_nat: "x < 2 ^ n \<Longrightarrow> k \<le> n \<Longrightarrow> x AND (2 ^ n - 2 ^ k) = 2 ^ k * (x div 2 ^ k)"
  for x :: nat
proof -
  assume x: "x < 2 ^ n" "k \<le> n"
  have "bit x i \<Longrightarrow> i < n" for i
    using x(1) by (metis bit_take_bit_iff take_bit_nat_eq_self)
  moreover have "(2 :: nat) ^ n - 2 ^ k = push_bit k (mask (n - k))"
    using x(2) by (simp add: push_bit_eq_mult mask_eq_exp_minus_1 algebra_simps
        flip: power_add)
  ultimately have "x AND (2 ^ n - 2 ^ k) = push_bit k (drop_bit k x)"
    using x(2) by (intro bit_eqI)
      (auto simp: bit_and_iff bit_push_bit_iff bit_mask_iff bit_drop_bit_eq less_diff_conv2)
  then show ?thesis
    by (simp add: push_bit_eq_mult drop_bit_eq_div)
qed

lemma byte_eq_iff: "b = c \<longleftrightarrow> unat b = unat (c :: u8)"
  by (simp add: word_unat_eq_iff)

lemma byte_tops:
  fixes b :: u8
  shows "b AND 0x80 = 0 \<longleftrightarrow> unat b < 128"
    "b AND 0xC0 = 0x80 \<longleftrightarrow> 128 \<le> unat b \<and> unat b < 192"
    "b AND 0xE0 = 0xC0 \<longleftrightarrow> 192 \<le> unat b \<and> unat b < 224"
    "b AND 0xF0 = 0xE0 \<longleftrightarrow> 224 \<le> unat b \<and> unat b < 240"
  using and_top_nat [of "unat b" 8 7] and_top_nat [of "unat b" 8 6]
    and_top_nat [of "unat b" 8 5] and_top_nat [of "unat b" 8 4]
  by (simp_all add: byte_eq_iff unsigned_and_eq) arith+

lemma byte_lows:
  fixes b :: u8
  shows "unat (b AND 0x7F) = unat b mod 128" "unat (b AND 0x3F) = unat b mod 64"
    "unat (b AND 0x1F) = unat b mod 32" "unat (b AND 0x0F) = unat b mod 16"
  using and_mask_nat [of "unat b" 7] and_mask_nat [of "unat b" 6] and_mask_nat [of "unat b" 5]
    and_mask_nat [of "unat b" 4]
  by (simp_all add: unsigned_and_eq)

section \<open>Decimal printing\<close>

text \<open>\<open>to_string().into_bytes()\<close> of an unsigned and of a signed integer.\<close>

fun dec_nat :: "nat \<Rightarrow> bytes" where
  "dec_nat n = (if n < 10 then [48 + word_of_nat n]
                else dec_nat (n div 10) @ [48 + word_of_nat (n mod 10)])"

declare dec_nat.simps [simp del]

definition dec_int :: "int \<Rightarrow> bytes" where
  "dec_int n = (if n < 0 then 45 # dec_nat (nat (- n)) else dec_nat (nat n))"

section \<open>Decimal parsing\<close>

text \<open>
  \<open>str::parse\<close> for integers: an optional sign (\<open>-\<close> for signed types only), at least one
  digit, digits only, and the value in the type's range.
\<close>

definition digit_val :: "u8 \<Rightarrow> nat option" where
  "digit_val b = (if 48 \<le> b \<and> b \<le> 57 then Some (unat b - 48) else None)"

fun digits_val :: "nat \<Rightarrow> bytes \<Rightarrow> nat option" where
  "digits_val acc [] = Some acc"
| "digits_val acc (b # bs) = (case digit_val b of
      None \<Rightarrow> None
    | Some d \<Rightarrow> digits_val (10 * acc + d) bs)"

definition parse_digits :: "bytes \<Rightarrow> nat option" where
  "parse_digits bs = (if bs = [] then None else digits_val 0 bs)"

definition parse_unsigned :: "nat \<Rightarrow> bytes \<Rightarrow> nat option" where
  "parse_unsigned bits bs =
     (case parse_digits (if bs \<noteq> [] \<and> hd bs = 43 then tl bs else bs) of
        None \<Rightarrow> None
      | Some n \<Rightarrow> if n < 2 ^ bits then Some n else None)"

definition parse_signed :: "nat \<Rightarrow> bytes \<Rightarrow> int option" where
  "parse_signed bits bs =
     (if bs \<noteq> [] \<and> hd bs = 45
      then (case parse_digits (tl bs) of
              None \<Rightarrow> None
            | Some n \<Rightarrow> if n \<le> 2 ^ (bits - 1) then Some (- int n) else None)
      else (case parse_digits (if bs \<noteq> [] \<and> hd bs = 43 then tl bs else bs) of
              None \<Rightarrow> None
            | Some n \<Rightarrow> if n < 2 ^ (bits - 1) then Some (int n) else None))"

lemma dec_nat_nonempty [simp]: "dec_nat n \<noteq> []"
  by (subst dec_nat.simps) simp

lemma digits_val_append:
  "digits_val acc (xs @ ys) =
     (case digits_val acc xs of None \<Rightarrow> None | Some a \<Rightarrow> digits_val a ys)"
  by (induction acc xs rule: digits_val.induct) (auto split: option.splits)

lemma unat_digit_char [simp]: "d < 10 \<Longrightarrow> unat (48 + word_of_nat d :: u8) = 48 + d"
  by (simp add: unat_word_ariths unat_of_nat)

lemma digit_val_char [simp]: "d < 10 \<Longrightarrow> digit_val (48 + word_of_nat d) = Some d"
  by (simp add: digit_val_def word_le_nat_alt)

lemma digits_val_dec_nat: "digits_val 0 (dec_nat n) = Some n"
proof (induction n rule: dec_nat.induct)
  case (1 n)
  show ?case
  proof (cases "n < 10")
    case True
    then show ?thesis by (simp add: dec_nat.simps [of n])
  next
    case False
    with 1 have "digits_val 0 (dec_nat (n div 10)) = Some (n div 10)" by simp
    with False show ?thesis
      by (simp add: dec_nat.simps [of n] digits_val_append)
  qed
qed

lemma parse_digits_dec_nat [simp]: "parse_digits (dec_nat n) = Some n"
  by (simp add: parse_digits_def digits_val_dec_nat)

lemma dec_nat_inj: "dec_nat m = dec_nat n \<Longrightarrow> m = n"
  by (metis option.inject parse_digits_dec_nat)

lemma hd_dec_nat: "48 \<le> unat (hd (dec_nat n)) \<and> unat (hd (dec_nat n)) \<le> 57"
proof (induction n rule: dec_nat.induct)
  case (1 n)
  show ?case
  proof (cases "n < 10")
    case True
    then show ?thesis by (subst (1 2) dec_nat.simps) simp
  next
    case False
    with 1 show ?thesis by (subst (1 2) dec_nat.simps) simp
  qed
qed

lemma hd_dec_nat_not_sign [simp]: "hd (dec_nat n) \<noteq> 45" "hd (dec_nat n) \<noteq> 43"
  using hd_dec_nat [of n] by (auto dest: arg_cong [of _ _ unat])

lemma parse_unsigned_dec_nat: "n < 2 ^ bits \<Longrightarrow> parse_unsigned bits (dec_nat n) = Some n"
  by (simp add: parse_unsigned_def)

lemma parse_signed_dec_int:
  assumes "- (2 ^ (bits - 1)) \<le> n" "n < 2 ^ (bits - 1)"
  shows "parse_signed bits (dec_int n) = Some n"
proof (cases "n < 0")
  case True
  have "nat (- n) \<le> 2 ^ (bits - 1)"
    using assms(1) by (simp add: nat_le_iff)
  with True show ?thesis by (simp add: parse_signed_def dec_int_def)
next
  case False
  have "nat n < 2 ^ (bits - 1)"
    using assms(2) False by (simp add: nat_less_iff)
  with False show ?thesis by (simp add: parse_signed_def dec_int_def)
qed

lemma dec_int_inj: "dec_int m = dec_int n \<Longrightarrow> m = n"
  by (cases "m < 0"; cases "n < 0")
    (auto simp: dec_int_def dest: dec_nat_inj arg_cong [where f = hd])

lemmas byte_eval [rdb_eval] =
  as_u8_def from_le_def from_be_def be_nat_def to_be_def dec_int_def str_bytes_def

end
