(* ===== verification/Rdb_Types.thy ===== *)
theory Rdb_Types
  imports Opcodes Byte_Ints
begin

text \<open>
  \<open>crates/rdb-parser/src/types.rs\<close>: the values the parser yields and its error type.

  The text of a \<open>CorruptData\<close> error is kept as the format string of the source, with the
  values it interpolates left as the placeholders the source writes.  An I/O error is
  either the end of the input or a failure of the underlying source.
  \<open>#[non_exhaustive]\<close> enums have exactly the variants the source declares.
\<close>

section \<open>Errors\<close>

datatype io_error = UnexpectedEof | SourceError string

datatype rdb_error =
    Io io_error
  | InvalidMagic
  | UnsupportedVersion u32
  | CorruptData string
  | UnknownType u8

type_synonym 'a parsed = "('a, rdb_error) res"

section \<open>Header and metadata\<close>

datatype rdb_magic = Redis | Valkey

definition magic_name :: "rdb_magic \<Rightarrow> string" where
  "magic_name m = (case m of Redis \<Rightarrow> ''REDIS'' | Valkey \<Rightarrow> ''VALKEY'')"

record rdb_header =
  magic :: rdb_magic
  version :: u32

record rdb_metadata =
  aux :: "bytes \<rightharpoonup> bytes"

definition server_version :: "rdb_metadata \<Rightarrow> bytes option" where
  "server_version m =
     (case aux m (str_bytes ''valkey-ver'') of
        Some v \<Rightarrow> Some v
      | None \<Rightarrow> aux m (str_bytes ''redis-ver''))"

definition ctime :: "rdb_metadata \<Rightarrow> u64 option" where
  "ctime m = Option.bind (aux m (str_bytes ''ctime''))
     (\<lambda>s. map_option word_of_nat (parse_unsigned 64 s))"

definition used_mem :: "rdb_metadata \<Rightarrow> u64 option" where
  "used_mem m = Option.bind (aux m (str_bytes ''used-mem''))
     (\<lambda>s. map_option word_of_nat (parse_unsigned 64 s))"

definition repl_id :: "rdb_metadata \<Rightarrow> bytes option" where
  "repl_id m = aux m (str_bytes ''repl-id'')"

definition repl_offset :: "rdb_metadata \<Rightarrow> i64 option" where
  "repl_offset m = Option.bind (aux m (str_bytes ''repl-offset'')) (parse_signed 64)"

section \<open>Values\<close>

record hash_field =
  hf_field :: bytes
  hf_value :: bytes
  hf_expiry_ms :: "i64 option"

datatype module_value =
    SignedInt i64
  | UnsignedInt u64
  | MFloat f32
  | MDouble f64
  | MString bytes

record module_data =
  m_name :: bytes
  m_version :: u32
  m_values :: "module_value list"

record stream_entry =
  se_id :: bytes
  se_fields :: "(bytes \<times> bytes) list"

record stream_data =
  sd_entries :: "stream_entry list"
  sd_length :: u64
  sd_last_id :: bytes

datatype rdb_value =
    VString bytes
  | VList "bytes list"
  | VSet "bytes list"
  | VSortedSet "(bytes \<times> f64) list"
  | VHash "hash_field list"
  | VModule module_data
  | VStream stream_data

section \<open>Entries\<close>

record rdb_entry =
  e_db :: u32
  e_key :: bytes
  e_value :: rdb_value
  e_type_code :: u8
  e_expiry_ms :: "i64 option"
  e_lru_idle_secs :: "u64 option"
  e_lfu_frequency :: "u8 option"
  e_total_elements :: "u64 option"
  e_element_offset :: "u64 option"

definition entry_new :: "bytes \<Rightarrow> rdb_value \<Rightarrow> u8 \<Rightarrow> rdb_entry" where
  "entry_new key value type_code =
     \<lparr>e_db = 0, e_key = key, e_value = value, e_type_code = type_code, e_expiry_ms = None,
      e_lru_idle_secs = None, e_lfu_frequency = None, e_total_elements = None,
      e_element_offset = None\<rparr>"

definition with_db :: "u32 \<Rightarrow> rdb_entry \<Rightarrow> rdb_entry" where
  "with_db db e = e\<lparr>e_db := db\<rparr>"

definition with_expiry_ms :: "i64 option \<Rightarrow> rdb_entry \<Rightarrow> rdb_entry" where
  "with_expiry_ms v e = e\<lparr>e_expiry_ms := v\<rparr>"

definition with_lru_idle_secs :: "u64 option \<Rightarrow> rdb_entry \<Rightarrow> rdb_entry" where
  "with_lru_idle_secs v e = e\<lparr>e_lru_idle_secs := v\<rparr>"

definition with_lfu_frequency :: "u8 option \<Rightarrow> rdb_entry \<Rightarrow> rdb_entry" where
  "with_lfu_frequency v e = e\<lparr>e_lfu_frequency := v\<rparr>"

definition with_chunking :: "u64 option \<Rightarrow> u64 option \<Rightarrow> rdb_entry \<Rightarrow> rdb_entry" where
  "with_chunking tot offset e = e\<lparr>e_total_elements := tot, e_element_offset := offset\<rparr>"

definition is_first_chunk :: "rdb_entry \<Rightarrow> bool" where
  "is_first_chunk e \<longleftrightarrow> e_element_offset e = None \<or> e_element_offset e = Some 0"

definition entry_type_name :: "rdb_entry \<Rightarrow> string" where
  "entry_type_name e = type_name (e_type_code e)"

definition entry_encoding_name :: "rdb_entry \<Rightarrow> string" where
  "entry_encoding_name e = encoding_name (e_type_code e)"

text \<open>A numeric AUX field written in decimal is read back as the number.\<close>

lemma ctime_dec_nat:
  "aux m (str_bytes ''ctime'') = Some (dec_nat n) \<Longrightarrow> n < 2 ^ 64 \<Longrightarrow>
   ctime m = Some (word_of_nat n)"
  by (simp add: ctime_def parse_unsigned_dec_nat)

lemma repl_offset_dec_int:
  "aux m (str_bytes ''repl-offset'') = Some (dec_int n) \<Longrightarrow> i64_range n \<Longrightarrow>
   repl_offset m = Some n"
  by (simp add: repl_offset_def parse_signed_dec_int)

end
