(* ===== verification/Lzf.thy ===== *)
theory Lzf
  imports Rdb_Types
begin

text \<open>
  \<open>crates/rdb-parser/src/lzf.rs\<close>: LZF decompression.  The loop works on an index into the
  compressed bytes and the output so far, as the source does.  The theorems: the decoder
  never panics, produces exactly the expected number of bytes, never holds more than that
  on the way, and agrees with a token semantics of the LZF format on every well-formed
  compressed stream.
\<close>

section \<open>The code\<close>

definition LZF_MAX_RATIO :: usize where
  "LZF_MAX_RATIO = 1024"

text \<open>\<open>for j in 0..len { let byte = output[start + j]; output.push(byte) }\<close>\<close>

fun copy_loop :: "nat \<Rightarrow> nat \<Rightarrow> nat \<Rightarrow> bytes \<Rightarrow> bytes parsed" where
  "copy_loop start j 0 out = Ok out"
| "copy_loop start j (Suc n) out =
     and_then (idx out (start + j)) (\<lambda>byte. copy_loop start (Suc j) n (out @ [byte]))"

text \<open>The back-reference copy: bulk when source and target do not overlap.\<close>

definition copy_backref :: "nat \<Rightarrow> nat \<Rightarrow> bytes \<Rightarrow> bytes parsed" where
  "copy_backref offset len out =
     (let start = length out - offset
      in if offset \<ge> len
         then and_then (slice out start (start + len)) (\<lambda>src. Ok (out @ src))
         else copy_loop start 0 len out)"

text \<open>
  One turn of the \<open>while\<close> loop at index \<open>i\<close> (which is in range): the new index and output.
\<close>

definition lzf_step :: "bytes \<Rightarrow> usize \<Rightarrow> usize \<Rightarrow> bytes \<Rightarrow> (usize \<times> bytes) parsed" where
  "lzf_step compressed expected_len i output =
     and_then (idx compressed i) (\<lambda>c.
     let ctrl = unat c; i = i + 1 in
     if ctrl < 32 then
       let len = ctrl + 1 in
       if i + len > length compressed then Err (CorruptData ''LZF literal overrun'')
       else if length output + len > expected_len then
         Err (CorruptData ''LZF output exceeds expected length'')
       else and_then (slice compressed i (i + len)) (\<lambda>lit. Ok (i + len, output @ lit))
     else
       and_then
         (if drop_bit 5 ctrl = 7 then
            if i \<ge> length compressed then Err (CorruptData ''LZF long match overrun'')
            else and_then (idx compressed i) (\<lambda>b. Ok (drop_bit 5 ctrl + unat b, i + 1))
          else Ok (drop_bit 5 ctrl, i))
         (\<lambda>(len, i).
          let len = len + 2 in
          if i \<ge> length compressed then Err (CorruptData ''LZF offset overrun'')
          else and_then (idx compressed i) (\<lambda>lo.
            let offset = (push_bit 8 (ctrl AND 0x1F) OR unat lo) + 1; i = i + 1 in
            if offset > length output then Err (CorruptData ''LZF offset beyond output'')
            else if length output + len > expected_len then
              Err (CorruptData ''LZF output exceeds expected length'')
            else and_then (copy_backref offset len output) (\<lambda>output. Ok (i, output)))))"

lemma lzf_step_progress: "lzf_step cs n i out = Ok (i', out') \<Longrightarrow> i < i' \<and> i' \<le> length cs"
  by (auto simp: lzf_step_def and_then_Ok_iff idx_Ok_iff Let_def split: if_splits)

function lzf_loop :: "bytes \<Rightarrow> usize \<Rightarrow> usize \<Rightarrow> bytes \<Rightarrow> bytes parsed" where
  "lzf_loop compressed expected_len i output =
     (if i < length compressed then
        and_then (lzf_step compressed expected_len i output)
          (\<lambda>(i', output'). lzf_loop compressed expected_len i' output')
      else Ok output)"
  by pat_completeness auto
termination
  by (relation "measure (\<lambda>(cs, n, i, out). length cs - i)") (auto dest: lzf_step_progress)

declare lzf_loop.simps [simp del]

definition decompress :: "bytes \<Rightarrow> usize \<Rightarrow> bytes parsed" where
  "decompress compressed expected_len =
     (if compressed \<noteq> [] \<and> expected_len div length compressed > LZF_MAX_RATIO then
        Err (CorruptData ''LZF decompression ratio too high: {} -> {} (max {}x)'')
      else and_then (lzf_loop compressed expected_len 0 []) (\<lambda>output.
        if length output \<noteq> expected_len then
          Err (CorruptData ''LZF decompressed size mismatch: got {}, expected {}'')
        else Ok output))"

section \<open>The two copies agree\<close>

text \<open>
  What a back-reference means: \<open>len\<close> times, append the byte \<open>offset\<close> positions back.
\<close>

fun ref_bytes :: "nat \<Rightarrow> nat \<Rightarrow> bytes \<Rightarrow> bytes" where
  "ref_bytes offset 0 out = out"
| "ref_bytes offset (Suc n) out = ref_bytes offset n (out @ [out ! (length out - offset)])"

lemma length_ref_bytes [simp]: "length (ref_bytes offset n out) = length out + n"
  by (induction n arbitrary: out) auto

lemma copy_loop_ref_bytes:
  "start + j < length out \<Longrightarrow> n = 0 \<or> offset = length out - (start + j) \<Longrightarrow>
   copy_loop start j n out = Ok (ref_bytes offset n out)"
proof (induction n arbitrary: j out)
  case 0
  then show ?case by simp
next
  case (Suc n)
  then have "copy_loop start (Suc j) n (out @ [out ! (start + j)])
      = Ok (ref_bytes offset n (out @ [out ! (start + j)]))"
    by (intro Suc.IH) auto
  with Suc.prems show ?case by auto
qed

lemma slice_ref_bytes:
  "0 < offset \<Longrightarrow> n \<le> offset \<Longrightarrow> offset \<le> length out \<Longrightarrow>
   out @ take n (drop (length out - offset) out) = ref_bytes offset n out"
proof (induction n arbitrary: out)
  case 0
  then show ?case by simp
next
  case (Suc n)
  let ?s = "length out - offset" let ?b = "out ! ?s"
  have "drop ?s out = ?b # drop (Suc ?s) out"
    using Suc.prems by (intro Cons_nth_drop_Suc [symmetric]) auto
  then have "out @ take (Suc n) (drop ?s out) = (out @ [?b]) @ take n (drop (Suc ?s) out)"
    by simp
  also have "take n (drop (Suc ?s) out) = take n (drop (Suc ?s) (out @ [?b]))"
    using Suc.prems by simp
  also have "(out @ [?b]) @ \<dots> = ref_bytes offset n (out @ [?b])"
    using Suc.IH [of "out @ [?b]"] Suc.prems by (simp add: Suc_diff_le)
  finally show ?case by simp
qed

lemma copy_backref_eq:
  "0 < offset \<Longrightarrow> offset \<le> length out \<Longrightarrow>
   copy_backref offset len out = Ok (ref_bytes offset len out)"
  by (auto simp: copy_backref_def Let_def slice_ref_bytes intro!: copy_loop_ref_bytes)

section \<open>The format as tokens\<close>

text \<open>
  A compressed stream is a sequence of literal runs of 1 to 32 bytes and back-references
  with offset 1 to 8192 and length 3 to 264.
\<close>

datatype lzf_token = Lit bytes | Ref nat nat

fun token_ok :: "bytes \<Rightarrow> lzf_token \<Rightarrow> bool" where
  "token_ok out (Lit xs) \<longleftrightarrow> 1 \<le> length xs \<and> length xs \<le> 32"
| "token_ok out (Ref offset len) \<longleftrightarrow>
     1 \<le> offset \<and> offset \<le> 8192 \<and> offset \<le> length out \<and> 3 \<le> len \<and> len \<le> 264"

fun token_eval :: "bytes \<Rightarrow> lzf_token \<Rightarrow> bytes" where
  "token_eval out (Lit xs) = out @ xs"
| "token_eval out (Ref offset len) = ref_bytes offset len out"

fun token_encode :: "lzf_token \<Rightarrow> bytes" where
  "token_encode (Lit xs) = as_u8 (length xs - 1) # xs"
| "token_encode (Ref offset len) =
     (let hi = (offset - 1) div 256; lo = as_u8 ((offset - 1) mod 256) in
      if len \<le> 8 then [as_u8 ((len - 2) * 32 + hi), lo]
      else [as_u8 (7 * 32 + hi), as_u8 (len - 9), lo])"

fun tokens_ok :: "bytes \<Rightarrow> lzf_token list \<Rightarrow> bool" where
  "tokens_ok out [] \<longleftrightarrow> True"
| "tokens_ok out (t # ts) \<longleftrightarrow> token_ok out t \<and> tokens_ok (token_eval out t) ts"

definition tokens_eval :: "bytes \<Rightarrow> lzf_token list \<Rightarrow> bytes" where
  "tokens_eval out ts = foldl token_eval out ts"

definition tokens_encode :: "lzf_token list \<Rightarrow> bytes" where
  "tokens_encode ts = concat (map token_encode ts)"

lemma token_encode_nonempty [simp]: "token_encode t \<noteq> []"
  by (cases t) (auto simp: Let_def)

lemma length_token_eval: "token_ok out t \<Longrightarrow>
  length out < length (token_eval out t) \<and>
  length (token_eval out t) \<le> length out + 88 * length (token_encode t)"
  by (cases t) (auto simp: Let_def)

lemma length_tokens_eval_le:
  "tokens_ok out ts \<Longrightarrow>
   length (tokens_eval out ts) \<le> length out + 88 * length (tokens_encode ts)"
proof (induction ts arbitrary: out)
  case Nil
  then show ?case by (simp add: tokens_eval_def tokens_encode_def)
next
  case (Cons t ts)
  have "length (tokens_eval (token_eval out t) ts)
      \<le> length (token_eval out t) + 88 * length (tokens_encode ts)"
    using Cons by simp
  moreover have "length (token_eval out t) \<le> length out + 88 * length (token_encode t)"
    using Cons.prems length_token_eval by simp
  ultimately show ?case
    by (simp add: tokens_eval_def tokens_encode_def)
qed

lemma length_tokens_eval_ge: "tokens_ok out ts \<Longrightarrow> length out \<le> length (tokens_eval out ts)"
proof (induction ts arbitrary: out)
  case Nil
  then show ?case by (simp add: tokens_eval_def)
next
  case (Cons t ts)
  then have "length (token_eval out t) \<le> length (tokens_eval (token_eval out t) ts)"
    by simp
  then show ?case
    using Cons.prems length_token_eval [of out t] by (simp add: tokens_eval_def)
qed

section \<open>One step decodes one token\<close>

lemma ctrl_fields:
  "drop_bit 5 (n :: nat) = n div 32" "n AND 31 = n mod 32"
  "lo < 256 \<Longrightarrow> push_bit 8 (n :: nat) OR lo = 256 * n + lo"
  using and_mask_nat [of n 5] push_bit_or_nat [of lo 8 n] by (simp_all add: drop_bit_eq_div)

lemma long_ctrl:
  "h < 32 \<Longrightarrow> (224 + h) mod 256 = 224 + h \<and> (224 + h) div 32 = 7 \<and>
     (224 + h) mod 32 = h \<and> \<not> 224 + h < (32 :: nat)"
  using div_mult_self1 [of 32 h 7] mod_mult_self1 [of h 7 32] by (simp add: add.commute)

lemma lzf_step_token:
  assumes "token_ok out t" "length (token_eval out t) \<le> n"
    and cs: "cs = pre @ token_encode t @ rest"
  shows "lzf_step cs n (length pre) out =
    Ok (length pre + length (token_encode t), token_eval out t)"
proof (cases t)
  case (Lit xs)
  let ?i = "length pre"
  from assms(1) Lit obtain k where k: "length xs = Suc k" "k < 32"
    by (cases xs) auto
  with cs Lit have "?i + k + 2 \<le> length cs" "cs ! ?i = as_u8 k"
    "take (Suc k) (drop (Suc ?i) cs) = xs"
    by (simp_all add: nth_append)
  then show ?thesis
    using k assms(2) by (simp add: lzf_step_def Let_def Lit)
next
  case (Ref offset len)
  let ?o = "offset - 1" and ?i = "length pre"
  have ok: "1 \<le> offset" "offset \<le> 8192" "offset \<le> length out" "3 \<le> len" "len \<le> 264"
    "length out + len \<le> n"
    using assms(1,2) Ref by auto
  then have o: "256 * (?o div 256) + ?o mod 256 + 1 = offset" "?o div 256 < 32"
    by auto
  have copy: "copy_backref offset len out = Ok (ref_bytes offset len out)"
    using ok by (intro copy_backref_eq) auto
  show ?thesis
  proof (cases "len \<le> 8")
    case True
    let ?c = "(len - 2) * 32 + ?o div 256"
    from cs Ref True have "?i + 2 \<le> length cs" "unat (cs ! ?i) = ?c mod 256"
      "unat (cs ! (Suc ?i)) = ?o mod 256"
      by (simp_all add: nth_append Let_def)
    moreover have "?c mod 256 = ?c" "\<not> ?c < 32" "?c div 32 = len - 2" "?c mod 32 = ?o div 256"
      using ok o(2) True by auto
    moreover have "len - 2 \<noteq> 7" "Suc (Suc (len - 2)) = len"
      using ok True by auto
    ultimately show ?thesis
      using ok o copy True by (simp add: lzf_step_def Let_def Ref ctrl_fields)
  next
    case False
    let ?c = "224 + ?o div 256"
    from cs Ref False have "?i + 3 \<le> length cs" "unat (cs ! ?i) = ?c mod 256"
      "unat (cs ! (Suc ?i)) = (len - 9) mod 256" "unat (cs ! (Suc (Suc ?i))) = ?o mod 256"
      by (simp_all add: nth_append Let_def)
    moreover note long_ctrl [OF o(2)]
    moreover have "(len - 9) mod 256 = len - 9" "Suc (Suc (7 + (len - 9))) = len"
      "Suc (Suc (len - 2)) = len"
      using ok False by auto
    ultimately show ?thesis
      using ok o copy by (simp add: lzf_step_def Let_def Ref ctrl_fields)
  qed
qed


text \<open>Conversely every successful turn of the loop decodes one token.\<close>

lemma drop_eq_nths: "i + k \<le> length xs \<Longrightarrow> drop i xs = take k (drop i xs) @ drop (i + k) xs"
  by (metis add.commute append_take_drop_id drop_drop)

lemma lzf_step_inv:
  assumes "lzf_step cs n i out = Ok (i', out')"
  obtains t where "token_ok out t" "out' = token_eval out t"
    "drop i cs = token_encode t @ drop i' cs" "length out' \<le> n"
proof -
  let ?c = "unat (cs ! i)"
  have i: "i < length cs"
    using assms by (auto simp: lzf_step_def and_then_Ok_iff idx_Ok_iff)
  show ?thesis
  proof (cases "?c < 32")
    case True
    let ?xs = "take (Suc ?c) (drop (Suc i) cs)"
    have r: "Suc i + Suc ?c \<le> length cs" "i' = Suc i + Suc ?c" "out' = out @ ?xs"
      "length out + Suc ?c \<le> n"
      using assms True i
      by (auto simp: lzf_step_def Let_def and_then_Ok_iff slice_Ok_iff split: if_splits)
    have "drop i cs = token_encode (Lit ?xs) @ drop i' cs"
      using r i drop_eq_nths [of "Suc i" "Suc ?c" cs] by (simp flip: Cons_nth_drop_Suc)
    with r True show ?thesis by (intro that [of "Lit ?xs"]) auto
  next
    case False
    show ?thesis
    proof (cases "drop_bit 5 ?c = 7")
      case True
      let ?len = "9 + unat (cs ! Suc i)"
      let ?off = "256 * (?c mod 32) + unat (cs ! Suc (Suc i)) + 1"
      have r: "Suc (Suc i) < length cs" "i' = i + 3" "?off \<le> length out" "length out + ?len \<le> n"
        "out' = ref_bytes ?off ?len out"
        using assms False True i
        by (auto simp: lzf_step_def Let_def and_then_Ok_iff idx_Ok_iff ctrl_fields
            copy_backref_eq split: if_splits)
      have "?c = 7 * 32 + ?c mod 32"
        using True div_mult_mod_eq [of ?c 32] by (simp add: ctrl_fields)
      then have "as_u8 (224 + ?c mod 32) = cs ! i"
        by (intro as_u8_eqI) simp
      then have enc: "drop i cs = token_encode (Ref ?off ?len) @ drop i' cs"
        using r by (simp add: Let_def numeral_3_eq_3 flip: Cons_nth_drop_Suc)
      have tok: "token_ok out (Ref ?off ?len)"
        using r(3) unat_byte_less [of "cs ! Suc i"] unat_byte_less [of "cs ! Suc (Suc i)"]
          mod_less_divisor [of 32 ?c]
        unfolding token_ok.simps by linarith
      show ?thesis
        by (rule that [OF tok _ enc]) (simp_all only: r(4,5) token_eval.simps length_ref_bytes)
    next
      case short: False
      let ?len = "?c div 32 + 2"
      let ?off = "256 * (?c mod 32) + unat (cs ! Suc i) + 1"
      have r: "Suc i < length cs" "i' = i + 2" "?off \<le> length out" "length out + ?len \<le> n"
        "out' = ref_bytes ?off ?len out"
        using assms False short i
        by (auto simp: lzf_step_def Let_def and_then_Ok_iff idx_Ok_iff ctrl_fields
            copy_backref_eq split: if_splits)
      have c: "1 \<le> ?c div 32" "?c div 32 \<le> 6"
        using False short unat_byte_less [of "cs ! i"] by (simp_all only: ctrl_fields)
      have "as_u8 (?c div 32 * 32 + ?c mod 32) = cs ! i"
        by (intro as_u8_eqI) simp
      then have enc: "drop i cs = token_encode (Ref ?off ?len) @ drop i' cs"
        using r c by (simp add: Let_def numeral_2_eq_2 flip: Cons_nth_drop_Suc)
      have tok: "token_ok out (Ref ?off ?len)"
        using r(3) c unat_byte_less [of "cs ! Suc i"]
          mod_less_divisor [of 32 ?c]
        unfolding token_ok.simps by linarith
      show ?thesis
        by (rule that [OF tok _ enc]) (simp_all only: r(4,5) token_eval.simps length_ref_bytes)
    qed
  qed
qed

section \<open>The whole stream\<close>

lemma lzf_loop_tokens:
  "tokens_ok out ts \<Longrightarrow> length (tokens_eval out ts) \<le> n \<Longrightarrow> cs = pre @ tokens_encode ts \<Longrightarrow>
   lzf_loop cs n (length pre) out = Ok (tokens_eval out ts)"
proof (induction ts arbitrary: out pre)
  case Nil
  then show ?case
    by (simp add: lzf_loop.simps tokens_eval_def tokens_encode_def)
next
  case (Cons t ts)
  let ?out = "token_eval out t"
  have "length ?out \<le> n"
    using Cons.prems length_tokens_eval_ge [of ?out ts] by (simp add: tokens_eval_def)
  then have "lzf_step cs n (length pre) out = Ok (length (pre @ token_encode t), ?out)"
    using Cons.prems lzf_step_token [of out t n cs pre "tokens_encode ts"]
    by (simp add: tokens_encode_def)
  moreover have "lzf_loop cs n (length (pre @ token_encode t)) ?out = Ok (tokens_eval ?out ts)"
    using Cons.prems by (intro Cons.IH) (simp_all add: tokens_eval_def tokens_encode_def)
  moreover have "length pre < length cs"
    using Cons.prems by (cases "token_encode t") (simp_all add: tokens_encode_def)
  ultimately show ?case
    by (subst lzf_loop.simps) (simp add: tokens_eval_def)
qed

lemma lzf_loop_inv:
  "lzf_loop cs n i out = Ok out' \<Longrightarrow> i \<le> length cs \<Longrightarrow>
   \<exists>ts. tokens_ok out ts \<and> out' = tokens_eval out ts \<and> drop i cs = tokens_encode ts"
proof (induction cs n i out rule: lzf_loop.induct)
  case (1 cs n i out)
  show ?case
  proof (cases "i < length cs")
    case False
    with "1.prems" show ?thesis
      by (intro exI [of _ "[]"]) (simp add: lzf_loop.simps tokens_eval_def tokens_encode_def)
  next
    case True
    with "1.prems" obtain i' out1 where step: "lzf_step cs n i out = Ok (i', out1)"
      and rest: "lzf_loop cs n i' out1 = Ok out'"
      by (auto simp: lzf_loop.simps [of cs n i] and_then_Ok_iff)
    from step obtain t where t: "token_ok out t" "out1 = token_eval out t"
      "drop i cs = token_encode t @ drop i' cs"
      by (rule lzf_step_inv)
    have "i' \<le> length cs"
      using lzf_step_progress [OF step] by simp
    with "1.IH" [OF True step refl rest] obtain ts where
      "tokens_ok out1 ts" "out' = tokens_eval out1 ts" "drop i' cs = tokens_encode ts"
      by blast
    with t show ?thesis
      by (intro exI [of _ "t # ts"]) (simp add: tokens_eval_def tokens_encode_def)
  qed
qed

lemma ratio_ok: "tokens_ok [] ts \<Longrightarrow>
  length (tokens_eval [] ts) div length (tokens_encode ts) \<le> LZF_MAX_RATIO"
proof -
  assume "tokens_ok [] ts"
  then have "length (tokens_eval [] ts) \<le> 88 * length (tokens_encode ts)"
    using length_tokens_eval_le [of "[]" ts] by simp
  then have "length (tokens_eval [] ts) div length (tokens_encode ts)
      \<le> 88 * length (tokens_encode ts) div length (tokens_encode ts)"
    by (rule div_le_mono)
  also have "\<dots> \<le> 88" by simp
  finally show ?thesis by (simp add: LZF_MAX_RATIO_def)
qed

text \<open>
  C14. Decompression is exactly the LZF format: \<open>decompress\<close> returns \<open>out\<close> for a compressed
  string and a declared length if and only if the string is the encoding of a well-formed
  token sequence (literal runs and back-references into the output so far) that evaluates
  to \<open>out\<close>, and \<open>out\<close> has the declared length.  In particular the ratio guard never
  rejects a valid stream, and every malformed stream is an error.
\<close>

theorem decompress_iff:
  "decompress cs n = Ok out \<longleftrightarrow>
     length out = n \<and>
     (\<exists>ts. tokens_ok [] ts \<and> tokens_encode ts = cs \<and> tokens_eval [] ts = out)"
proof
  assume ok: "decompress cs n = Ok out"
  then have "lzf_loop cs n 0 [] = Ok out" "length out = n"
    by (auto simp: decompress_def and_then_Ok_iff split: if_splits)
  with lzf_loop_inv [of cs n 0 "[]" out] show "length out = n \<and>
      (\<exists>ts. tokens_ok [] ts \<and> tokens_encode ts = cs \<and> tokens_eval [] ts = out)"
    by auto
next
  assume "length out = n \<and>
      (\<exists>ts. tokens_ok [] ts \<and> tokens_encode ts = cs \<and> tokens_eval [] ts = out)"
  then obtain ts where ts: "tokens_ok [] ts" "tokens_encode ts = cs" "tokens_eval [] ts = out"
    and n: "length out = n" by blast
  have "lzf_loop cs n 0 [] = Ok out"
    using lzf_loop_tokens [of "[]" ts n cs "[]"] ts n by simp
  then show "decompress cs n = Ok out"
    using ratio_ok [OF ts(1)] ts n by (simp add: decompress_def)
qed

lemma lzf_step_no_panic: "i < length cs \<Longrightarrow> lzf_step cs n i out \<noteq> Panic"
  by (auto simp: lzf_step_def Let_def copy_backref_eq and_then_Panic_iff split: if_splits)

lemma lzf_loop_no_panic: "lzf_loop cs n i out \<noteq> Panic"
  by (induction cs n i out rule: lzf_loop.induct)
    (subst lzf_loop.simps, auto simp: and_then_Panic_iff lzf_step_no_panic)

lemma decompress_no_panic [no_panic, simp]: "decompress cs n \<noteq> Panic"
  by (simp add: decompress_def lzf_loop_no_panic and_then_Panic_iff)

lemma length_decompress: "decompress cs n = Ok out \<Longrightarrow> length out = n"
  by (auto simp: decompress_def and_then_Ok_iff split: if_splits)

end
