(* ===== verification/Utf8.thy ===== *)
theory Utf8
  imports Byte_Ints
begin

text \<open>
  The UTF-8 validation and the lossy conversion of the Rust standard library
  (\<open>str::from_utf8\<close>, \<open>String::from_utf8_lossy\<close>), which the reader applies to AUX fields,
  module names and textual scores.  The theorems: a lossy conversion is always valid UTF-8
  and leaves valid input alone.
\<close>

section \<open>Scanning one character\<close>

definition safe_get :: "bytes \<Rightarrow> nat \<Rightarrow> u8" where
  "safe_get bs i = (if i < length bs then bs ! i else 0)"

definition is_cont :: "u8 \<Rightarrow> bool" where
  "is_cont b \<longleftrightarrow> b AND 192 = 128"

definition utf8_char_width :: "u8 \<Rightarrow> nat" where
  "utf8_char_width b =
     (if b < 0x80 then 1
      else if 0xC2 \<le> b \<and> b \<le> 0xDF then 2
      else if 0xE0 \<le> b \<and> b \<le> 0xEF then 3
      else if 0xF0 \<le> b \<and> b \<le> 0xF4 then 4
      else 0)"

definition second_of_3 :: "u8 \<Rightarrow> u8 \<Rightarrow> bool" where
  "second_of_3 b c \<longleftrightarrow>
     (if b = 0xE0 then 0xA0 \<le> c \<and> c \<le> 0xBF
      else if b = 0xED then 0x80 \<le> c \<and> c \<le> 0x9F
      else 0x80 \<le> c \<and> c \<le> 0xBF)"

definition second_of_4 :: "u8 \<Rightarrow> u8 \<Rightarrow> bool" where
  "second_of_4 b c \<longleftrightarrow>
     (if b = 0xF0 then 0x90 \<le> c \<and> c \<le> 0xBF
      else if b = 0xF4 then 0x80 \<le> c \<and> c \<le> 0x8F
      else 0x80 \<le> c \<and> c \<le> 0xBF)"

text \<open>
  The scan of one character at the front of a non-empty byte string: whether it is well
  formed, and how many bytes it takes (for an ill-formed one, the bytes replaced together).
\<close>

definition utf8_step :: "bytes \<Rightarrow> bool \<times> nat" where
  "utf8_step bs =
     (let b = safe_get bs 0; w = utf8_char_width b in
      if w = 1 then (True, 1)
      else if w = 2 then
        (if is_cont (safe_get bs 1) then (True, 2) else (False, 1))
      else if w = 3 then
        (if \<not> second_of_3 b (safe_get bs 1) then (False, 1)
         else if \<not> is_cont (safe_get bs 2) then (False, 2)
         else (True, 3))
      else if w = 4 then
        (if \<not> second_of_4 b (safe_get bs 1) then (False, 1)
         else if \<not> is_cont (safe_get bs 2) then (False, 2)
         else if \<not> is_cont (safe_get bs 3) then (False, 3)
         else (True, 4))
      else (False, 1))"

lemma utf8_step_pos [simp]: "0 < snd (utf8_step bs)"
  by (simp add: utf8_step_def Let_def)

section \<open>Validation and lossy conversion\<close>

function valid_utf8 :: "bytes \<Rightarrow> bool" where
  "valid_utf8 bs =
     (if bs = [] then True
      else (case utf8_step bs of (ok, n) \<Rightarrow> ok \<and> valid_utf8 (drop n bs)))"
  by pat_completeness auto
termination
  by (relation "measure length") (auto simp: prod_eq_iff dest!: sym [of "(_, _)"])

declare valid_utf8.simps [simp del]

text \<open>\<open>String::from_utf8\<close>\<close>

definition from_utf8 :: "bytes \<Rightarrow> bytes option" where
  "from_utf8 bs = (if valid_utf8 bs then Some bs else None)"

definition replacement_char :: bytes where
  "replacement_char = [0xEF, 0xBF, 0xBD]"

function from_utf8_lossy :: "bytes \<Rightarrow> bytes" where
  "from_utf8_lossy bs =
     (if bs = [] then []
      else (case utf8_step bs of (ok, n) \<Rightarrow>
              (if ok then take n bs else replacement_char) @ from_utf8_lossy (drop n bs)))"
  by pat_completeness auto
termination
  by (relation "measure length") (auto simp: prod_eq_iff dest!: sym [of "(_, _)"])

declare from_utf8_lossy.simps [simp del]

lemma valid_utf8_Nil [simp]: "valid_utf8 []"
  by (simp add: valid_utf8.simps)

lemma from_utf8_lossy_Nil [simp]: "from_utf8_lossy [] = []"
  by (simp add: from_utf8_lossy.simps)

lemma from_utf8_lossy_valid: "valid_utf8 bs \<Longrightarrow> from_utf8_lossy bs = bs"
proof (induction bs rule: valid_utf8.induct)
  case (1 bs)
  then show ?case
    by (cases "utf8_step bs")
      (auto simp: valid_utf8.simps [of bs] from_utf8_lossy.simps [of bs] split: if_splits)
qed

lemma not_is_cont_0 [simp]: "\<not> is_cont 0" "\<not> second_of_3 b 0" "\<not> second_of_4 b 0"
  by (simp_all add: is_cont_def second_of_3_def second_of_4_def)

lemma is_cont_safe_get: "is_cont (safe_get bs i) \<Longrightarrow> i < length bs"
  "second_of_3 b (safe_get bs i) \<Longrightarrow> i < length bs"
  "second_of_4 b (safe_get bs i) \<Longrightarrow> i < length bs"
  by (auto simp: safe_get_def split: if_splits)

lemma utf8_step_cases:
  assumes "utf8_step bs = (True, n)"
  obtains "n = 1" "utf8_char_width (safe_get bs 0) = 1"
  | "n = 2" "utf8_char_width (safe_get bs 0) = 2" "is_cont (safe_get bs 1)"
  | "n = 3" "utf8_char_width (safe_get bs 0) = 3" "second_of_3 (safe_get bs 0) (safe_get bs 1)"
    "is_cont (safe_get bs 2)"
  | "n = 4" "utf8_char_width (safe_get bs 0) = 4" "second_of_4 (safe_get bs 0) (safe_get bs 1)"
    "is_cont (safe_get bs 2)" "is_cont (safe_get bs 3)"
  using assms unfolding utf8_step_def Let_def by (simp split: if_split_asm)

lemma utf8_step_ok_length: "bs \<noteq> [] \<Longrightarrow> utf8_step bs = (True, n) \<Longrightarrow> n \<le> length bs"
  by (erule utf8_step_cases) (auto dest!: is_cont_safe_get simp: Suc_le_eq)

lemma utf8_step_agree:
  assumes "utf8_step bs = (True, n)" "\<And>i. i < n \<Longrightarrow> safe_get xs i = safe_get bs i"
  shows "utf8_step xs = (True, n)"
  using assms(1) by (rule utf8_step_cases) (use assms(2) in \<open>simp_all add: utf8_step_def\<close>)

lemma utf8_step_append:
  assumes "bs \<noteq> []" "utf8_step bs = (True, n)"
  shows "utf8_step (take n bs @ ys) = (True, n)"
  using assms(2) by (rule utf8_step_agree)
    (use utf8_step_ok_length [OF assms] in \<open>simp add: safe_get_def nth_append\<close>)

lemma valid_utf8_append: "valid_utf8 xs \<Longrightarrow> valid_utf8 ys \<Longrightarrow> valid_utf8 (xs @ ys)"
proof (induction xs rule: valid_utf8.induct)
  case (1 xs)
  show ?case
  proof (cases "xs = []")
    case False
    obtain ok n where s: "utf8_step xs = (ok, n)" by fastforce
    with False "1.prems" have ok: "ok" and v: "valid_utf8 (drop n xs)"
      by (simp_all add: valid_utf8.simps [of xs])
    have n: "n \<le> length xs"
      using utf8_step_ok_length False s ok by simp
    have "utf8_step (xs @ ys) = (True, n)"
      using utf8_step_append [of xs n "drop n xs @ ys"] False s ok by (simp flip: append_assoc)
    moreover have "valid_utf8 (drop n xs @ ys)"
      using "1.IH" [OF False s [symmetric]] v "1.prems" ok by simp
    ultimately show ?thesis
      using n False by (simp add: valid_utf8.simps [of "xs @ ys"])
  qed (use 1 in simp)
qed

lemma valid_replacement_char [simp]: "valid_utf8 replacement_char"
  by (simp add: valid_utf8.simps replacement_char_def utf8_step_def safe_get_def
      utf8_char_width_def second_of_3_def is_cont_def)

lemma valid_take_step:
  "bs \<noteq> [] \<Longrightarrow> utf8_step bs = (True, n) \<Longrightarrow> valid_utf8 (take n bs)"
  using utf8_step_append [of bs n "[]"] by (simp add: valid_utf8.simps [of "take n bs"])

lemma valid_utf8_lossy [simp]: "valid_utf8 (from_utf8_lossy bs)"
proof (induction bs rule: from_utf8_lossy.induct)
  case (1 bs)
  obtain ok n where s: "utf8_step bs = (ok, n)" by fastforce
  show ?case
  proof (cases "bs = []")
    case False
    have "valid_utf8 (if ok then take n bs else replacement_char)"
      using valid_take_step [OF False] s by simp
    with "1.IH" [OF False s [symmetric]] show ?thesis
      by (subst from_utf8_lossy.simps) (simp add: False s valid_utf8_append)
  qed simp
qed

text \<open>ASCII is valid.\<close>

lemma utf8_step_ascii: "b < 0x80 \<Longrightarrow> utf8_step (b # bs) = (True, 1)"
  by (simp add: utf8_step_def safe_get_def utf8_char_width_def)

lemma valid_utf8_ascii: "\<forall>b \<in> set bs. b < 0x80 \<Longrightarrow> valid_utf8 bs"
  by (induction bs) (simp_all add: utf8_step_ascii valid_utf8.simps [of "_ # _"])

lemmas utf8_eval [rdb_eval] =
  from_utf8_def valid_utf8.simps from_utf8_lossy.simps replacement_char_def utf8_step_def
  safe_get_def utf8_char_width_def second_of_3_def second_of_4_def is_cont_def

end
