(* ===== verification/Float64.thy ===== *)
theory Float64
  imports Byte_Ints
begin

text \<open>
  The operations on \<open>f64\<close> the program uses, on IEEE 754 binary64 bit patterns: the
  conversion of an integer (\<open>n as f64\<close>) and of a decimal string (\<open>str::parse::<f64>\<close>), both
  correctly rounded, comparison, and the arithmetic of the geohash decoder.  A finite float
  is the exact fraction of a numerator and a power of two; every operation computes the
  exact fraction and rounds it to nearest, ties to even.
\<close>

section \<open>Bit patterns\<close>

definition f64_neg :: "f64 \<Rightarrow> bool" where
  "f64_neg x \<longleftrightarrow> bit x 63"

definition f64_exp :: "f64 \<Rightarrow> nat" where
  "f64_exp x = unat x div 2 ^ 52 mod 2 ^ 11"

definition f64_frac :: "f64 \<Rightarrow> nat" where
  "f64_frac x = unat x mod 2 ^ 52"

definition f64_is_nan :: "f64 \<Rightarrow> bool" where
  "f64_is_nan x \<longleftrightarrow> f64_exp x = 2047 \<and> f64_frac x \<noteq> 0"

definition f64_is_finite :: "f64 \<Rightarrow> bool" where
  "f64_is_finite x \<longleftrightarrow> f64_exp x < 2047"

definition F64_INFINITY :: f64 where "F64_INFINITY = 0x7FF0000000000000"
definition F64_NEG_INFINITY :: f64 where "F64_NEG_INFINITY = 0xFFF0000000000000"
definition F64_NAN :: f64 where "F64_NAN = 0x7FF8000000000000"

text \<open>The magnitude of a finite float as a fraction \<open>(numerator, denominator)\<close>.\<close>

definition f64_mag :: "f64 \<Rightarrow> nat \<times> nat" where
  "f64_mag x =
     (let e = f64_exp x; m = (if e = 0 then f64_frac x else 2 ^ 52 + f64_frac x);
          e = max 1 e in
      if 1075 \<le> e then (m * 2 ^ (e - 1075), 1) else (m, 2 ^ (1075 - e)))"

definition f64_num :: "f64 \<Rightarrow> int" where
  "f64_num x = (if f64_neg x then - int (fst (f64_mag x)) else int (fst (f64_mag x)))"

definition f64_den :: "f64 \<Rightarrow> nat" where
  "f64_den x = snd (f64_mag x)"

section \<open>Rounding a fraction\<close>

fun bit_len :: "nat \<Rightarrow> nat" where
  "bit_len n = (if n = 0 then 0 else Suc (bit_len (n div 2)))"

declare bit_len.simps [simp del]

text \<open>
  The significand at exponent \<open>e\<close>: \<open>n / (d * 2^e)\<close> rounded to an integer, ties to even.
\<close>

definition scaled :: "nat \<Rightarrow> nat \<Rightarrow> int \<Rightarrow> nat \<times> nat" where
  "scaled n d e = (n * 2 ^ nat (- e), d * 2 ^ nat e)"

definition round_div :: "nat \<times> nat \<Rightarrow> nat" where
  "round_div = (\<lambda>(n, d).
     let q = n div d; r = n mod d in
     if d < 2 * r \<or> 2 * r = d \<and> odd q then q + 1 else q)"

text \<open>
  The exponent is the one that leaves a 53-bit significand, but never below the smallest
  one.  A significand of exactly \<open>2^53\<close> carries into the exponent field, and a value past
  the largest finite float is infinity.
\<close>

definition round_exp :: "nat \<Rightarrow> nat \<Rightarrow> int" where
  "round_exp n d =
     (let e = max (- 1074) (int (bit_len n) - int (bit_len d) - 53) in
      if (case scaled n d e of (n', d') \<Rightarrow> n' div d' < 2 ^ 53) then e else e + 1)"

definition round_mag :: "nat \<Rightarrow> nat \<Rightarrow> nat" where
  "round_mag n d =
     (if n = 0 then 0
      else let e = round_exp n d in
           min 0x7FF0000000000000 (nat (e + 1074) * 2 ^ 52 + round_div (scaled n d e)))"

definition f64_of_mag :: "bool \<Rightarrow> nat \<Rightarrow> f64" where
  "f64_of_mag neg m = word_of_nat ((if neg then 2 ^ 63 else 0) + m)"

definition round_f64 :: "bool \<Rightarrow> nat \<Rightarrow> nat \<Rightarrow> f64" where
  "round_f64 neg n d = f64_of_mag neg (round_mag n d)"

text \<open>\<open>n as f64\<close> for an integer type.\<close>

definition int_as_f64 :: "int \<Rightarrow> f64" where
  "int_as_f64 n = round_f64 (n < 0) (nat \<bar>n\<bar>) 1"

section \<open>Parsing\<close>

text \<open>
  The grammar of \<open>str::parse::<f64>\<close>: an optional sign, then \<open>inf\<close>, \<open>infinity\<close> or \<open>nan\<close> in
  any case, or digits with an optional point (at least one digit on either side) and an
  optional exponent (at least one digit); nothing else before or after.
\<close>

definition ascii_lower :: "u8 \<Rightarrow> u8" where
  "ascii_lower b = (if 65 \<le> b \<and> b \<le> 90 then b + 32 else b)"

fun take_digits :: "bytes \<Rightarrow> bytes \<times> bytes" where
  "take_digits [] = ([], [])"
| "take_digits (b # bs) =
     (if digit_val b \<noteq> None then (case take_digits bs of (ds, r) \<Rightarrow> (b # ds, r))
      else ([], b # bs))"

definition digits_nat :: "bytes \<Rightarrow> nat" where
  "digits_nat ds = (case digits_val 0 ds of Some n \<Rightarrow> n | None \<Rightarrow> 0)"

definition parse_sign :: "bytes \<Rightarrow> bool \<times> bytes" where
  "parse_sign bs =
     (case bs of b # r \<Rightarrow> if b = 45 then (True, r) else if b = 43 then (False, r) else (False, bs)
      | [] \<Rightarrow> (False, []))"

text \<open>\<open>parse_exponent\<close> gets what follows the mantissa: nothing, or \<open>e\<close> and an integer.\<close>

definition parse_exponent :: "bytes \<Rightarrow> int option" where
  "parse_exponent bs =
     (case bs of
        [] \<Rightarrow> Some 0
      | b # r \<Rightarrow>
          if ascii_lower b = 101 then
            (case parse_sign r of (neg, r') \<Rightarrow>
             (case take_digits r' of (ds, rest) \<Rightarrow>
              if ds = [] \<or> rest \<noteq> [] then None
              else Some (if neg then - int (digits_nat ds) else int (digits_nat ds))))
          else None)"

definition parse_number :: "bytes \<Rightarrow> (nat \<times> int) option" where
  "parse_number bs =
     (case take_digits bs of (ip, r) \<Rightarrow>
      (case (if r \<noteq> [] \<and> hd r = 46 then take_digits (tl r) else ([], r)) of (fp, r') \<Rightarrow>
       if ip = [] \<and> fp = [] then None
       else map_option (\<lambda>e. (digits_nat (ip @ fp), e - int (length fp))) (parse_exponent r')))"

definition decimal_f64 :: "bool \<Rightarrow> nat \<Rightarrow> int \<Rightarrow> f64" where
  "decimal_f64 neg m e = round_f64 neg (m * 10 ^ nat e) (10 ^ nat (- e))"

definition parse_f64 :: "bytes \<Rightarrow> f64 option" where
  "parse_f64 bs =
     (case parse_sign bs of (neg, r) \<Rightarrow>
      let l = List.map ascii_lower r; sgn = (if neg then 2 ^ 63 else 0) in
      if l = str_bytes ''inf'' \<or> l = str_bytes ''infinity'' then Some (F64_INFINITY + sgn)
      else if l = str_bytes ''nan'' then Some (F64_NAN + sgn)
      else map_option (\<lambda>(m, e). decimal_f64 neg m e) (parse_number r))"

lemmas float_eval [rdb_eval] =
  parse_f64_def parse_sign_def str_bytes_def ascii_lower_def parse_number_def
  parse_exponent_def digits_nat_def digit_val_def decimal_f64_def int_as_f64_def round_f64_def
  f64_of_mag_def round_mag_def round_exp_def round_div_def scaled_def bit_len.simps
  F64_INFINITY_def F64_NEG_INFINITY_def F64_NAN_def

text \<open>Known conversions: halves, a rounded decimal, a tie to even, and a rejected string.\<close>

lemma parse_f64_examples:
  "parse_f64 (str_bytes ''-2.75'') = Some 0xC006000000000000"
  "parse_f64 (str_bytes ''0.1'') = Some 0x3FB999999999999A"
  "parse_f64 (str_bytes ''-inf'') = Some F64_NEG_INFINITY"
  "parse_f64 (str_bytes ''abc'') = None"
  "int_as_f64 (- 42) = 0xC045000000000000"
  "int_as_f64 9007199254740993 = 0x4340000000000000"
  by (simp_all add: float_eval)

section \<open>Comparison, truncation and arithmetic\<close>

text \<open>
  The sign of \<open>x - y\<close> for values that are not NaN; infinities are ordered by their bit
  patterns like any other magnitude.
\<close>

definition f64_key :: "f64 \<Rightarrow> int" where
  "f64_key x = (let m = int (unat x mod 2 ^ 63) in if f64_neg x then - m else m)"

definition f64_less :: "f64 \<Rightarrow> f64 \<Rightarrow> bool" where
  "f64_less x y \<longleftrightarrow> \<not> f64_is_nan x \<and> \<not> f64_is_nan y \<and> f64_key x < f64_key y"

definition f64_leq :: "f64 \<Rightarrow> f64 \<Rightarrow> bool" where
  "f64_leq x y \<longleftrightarrow> \<not> f64_is_nan x \<and> \<not> f64_is_nan y \<and> f64_key x \<le> f64_key y"

text \<open>
  \<open>x.fract() != 0.0\<close>: the fraction of an infinity is NaN, which differs from zero; a finite
  value has no fraction when its denominator divides its numerator.
\<close>

definition f64_has_fract :: "f64 \<Rightarrow> bool" where
  "f64_has_fract x \<longleftrightarrow> \<not> f64_is_finite x \<or> fst (f64_mag x) mod snd (f64_mag x) \<noteq> 0"

text \<open>\<open>x as u64\<close>: truncation, saturating at both ends, zero for NaN.\<close>

definition f64_as_u64 :: "f64 \<Rightarrow> u64" where
  "f64_as_u64 x =
     (if f64_is_nan x \<or> f64_neg x then 0
      else if \<not> f64_is_finite x then 2 ^ 64 - 1
      else word_of_nat (min (fst (f64_mag x) div snd (f64_mag x)) (2 ^ 64 - 1)))"

text \<open>
  Arithmetic on finite operands, the divisor not zero: the exact fraction, rounded.  An
  exact sum of zero is \<open>+0\<close> unless both summands are negative.
\<close>

definition f64_add :: "f64 \<Rightarrow> f64 \<Rightarrow> f64" where
  "f64_add x y =
     (let n = f64_num x * int (f64_den y) + f64_num y * int (f64_den x) in
      if n = 0 then f64_of_mag (f64_neg x \<and> f64_neg y) 0
      else round_f64 (n < 0) (nat \<bar>n\<bar>) (f64_den x * f64_den y))"

definition f64_flip :: "f64 \<Rightarrow> f64" where
  "f64_flip x = x XOR (2 ^ 63)"

definition f64_sub :: "f64 \<Rightarrow> f64 \<Rightarrow> f64" where
  "f64_sub x y = f64_add x (f64_flip y)"

definition f64_mul :: "f64 \<Rightarrow> f64 \<Rightarrow> f64" where
  "f64_mul x y =
     round_f64 (f64_neg x \<noteq> f64_neg y) (fst (f64_mag x) * fst (f64_mag y)) (f64_den x * f64_den y)"

definition f64_div :: "f64 \<Rightarrow> f64 \<Rightarrow> f64" where
  "f64_div x y =
     round_f64 (f64_neg x \<noteq> f64_neg y) (fst (f64_mag x) * f64_den y) (f64_den x * fst (f64_mag y))"

text \<open>\<open>v as f64\<close> for an \<open>f32\<close>: exact, and a NaN keeps its payload and becomes quiet.\<close>

definition f32_as_f64 :: "f32 \<Rightarrow> f64" where
  "f32_as_f64 x =
     (let neg = bit x 31; e = unat x div 2 ^ 23 mod 2 ^ 8; m = unat x mod 2 ^ 23 in
      if e = 255 then
        f64_of_mag neg (2047 * 2 ^ 52 + (if m = 0 then 0 else m mod 2 ^ 22 * 2 ^ 29 + 2 ^ 51))
      else if e = 0 then round_f64 neg m (2 ^ 149)
      else f64_of_mag neg ((e + 896) * 2 ^ 52 + m * 2 ^ 29))"

lemmas float_arith_eval [rdb_eval] =
  f64_key_def f64_less_def f64_leq_def f64_has_fract_def f64_as_u64_def f64_add_def f64_flip_def
  f64_sub_def f64_mul_def f64_div_def f64_num_def f64_den_def f64_mag_def f64_exp_def f64_frac_def
  f64_neg_def f64_is_nan_def f64_is_finite_def f32_as_f64_def

text \<open>Known results: a rounded sum and quotient, a product, and a widened \<open>f32\<close>.\<close>

lemma f64_arith_examples:
  "f64_add 0x3FB999999999999A 0x3FC999999999999A = 0x3FD3333333333334"
  "f64_div (int_as_f64 1) (int_as_f64 3) = 0x3FD5555555555555"
  "f64_mul (int_as_f64 3) 0xBFE0000000000000 = 0xBFF8000000000000"
  "f64_sub (int_as_f64 2) (int_as_f64 5) = 0xC008000000000000"
  "f64_less 0x8000000000000000 0 \<longleftrightarrow> False"
  "f32_as_f64 0x3FC00000 = 0x3FF8000000000000"
  by (simp_all add: float_eval float_arith_eval)

end
