(* ===== verification/Compact.thy ===== *)
theory Compact
  imports Rdb_Types Utf8 Float64
begin

text \<open>
  \<open>crates/rdb-parser/src/compact.rs\<close>: the entries of the compact encodings (listpack and
  ziplist), their conversions, sign extension, and the guards both decoders use.
\<close>

section \<open>Entries\<close>

datatype compact_entry = CInt i64 | CStr bytes

definition into_bytes :: "compact_entry \<Rightarrow> bytes" where
  "into_bytes e = (case e of CStr s \<Rightarrow> s | CInt n \<Rightarrow> dec_int n)"

definition to_f64 :: "compact_entry \<Rightarrow> f64 parsed" where
  "to_f64 e = (case e of
      CInt n \<Rightarrow> Ok (int_as_f64 n)
    | CStr s \<Rightarrow>
        and_then (ok_or (CorruptData ''compact entry score is not valid UTF-8'') (from_utf8 s))
          (\<lambda>s. ok_or (CorruptData ''compact entry score is not a valid float: {:?}'')
                 (parse_f64 s)))"

section \<open>Sign extension\<close>

text \<open>
  \<open>((raw << shift) as i64) >> shift\<close>: the right shift of an \<open>i64\<close> is arithmetic, a
  division of the signed value.
\<close>

definition sign_extend :: "u64 \<Rightarrow> nat \<Rightarrow> i64" where
  "sign_extend raw bits =
     (let shift = 64 - bits in drop_bit shift (sint (push_bit shift raw)))"

definition read_i24_le :: "bytes \<Rightarrow> usize \<Rightarrow> i64 parsed" where
  "read_i24_le buf offset =
     and_then (idx buf offset) (\<lambda>b0. and_then (idx buf (offset + 1)) (\<lambda>b1.
     and_then (idx buf (offset + 2)) (\<lambda>b2.
     let raw = (ucast b0 :: u32) OR push_bit 8 (ucast b1) OR push_bit 16 (ucast b2)
     in Ok (sign_extend (ucast raw) 24))))"

section \<open>Guards\<close>

definition capacity_hint :: "u16 \<Rightarrow> usize \<Rightarrow> usize" where
  "capacity_hint count_field blob_len =
     (if count_field = 0xFFFF then 256 else min (unat count_field) blob_len)"

definition checked_add :: "usize \<Rightarrow> usize \<Rightarrow> string \<Rightarrow> usize parsed" where
  "checked_add a b format =
     (if a + b \<le> usize_max then Ok (a + b)
      else Err (CorruptData (format @ '' {ctx}: length overflow'')))"

definition ensure_len :: "bytes \<Rightarrow> usize \<Rightarrow> string \<Rightarrow> unit parsed" where
  "ensure_len buf need format =
     (if length buf < need
      then Err (CorruptData (format @ '' {ctx}: need {need} bytes, have {}''))
      else Ok ())"

lemma capacity_hint_bounded: "capacity_hint c n \<le> max 256 n"
  by (auto simp: capacity_hint_def)

lemma checked_add_Ok_iff: "checked_add a b f = Ok c \<longleftrightarrow> a + b \<le> usize_max \<and> c = a + b"
  by (auto simp: checked_add_def)

lemma ensure_len_Ok_iff: "ensure_len buf n f = Ok u \<longleftrightarrow> n \<le> length buf"
  by (auto simp: ensure_len_def)

lemma guards_no_panic [no_panic, simp]:
  "checked_add a b f \<noteq> Panic" "ensure_len buf n f \<noteq> Panic" "to_f64 e \<noteq> Panic"
  by (auto simp: checked_add_def ensure_len_def to_f64_def and_then_Panic_iff
      split: compact_entry.splits)

lemma ensure_len_ok [simp]: "n \<le> length buf \<Longrightarrow> ensure_len buf n f = Ok ()"
  by (simp add: ensure_len_def)

lemma checked_add_ok [simp]: "a + b \<le> usize_max \<Longrightarrow> checked_add a b f = Ok (a + b)"
  by (simp add: checked_add_def)

lemma read_i24_le_no_panic [simp]: "offset + 2 < length buf \<Longrightarrow> read_i24_le buf offset \<noteq> Panic"
  by (simp add: read_i24_le_def Let_def)

section \<open>What sign extension computes\<close>

text \<open>
  On a raw value of \<open>bits\<close> bits, \<open>sign_extend\<close> is the two's complement reading of those
  bits: it inverts the truncation of any integer in range.
\<close>

lemma drop_bit_sint_push_bit:
  fixes w :: "'a::len word"
  assumes "k < LENGTH('a)"
  shows "drop_bit k (sint (push_bit k w)) = signed_take_bit (LENGTH('a) - 1 - k) (uint w)"
proof (rule bit_eqI)
  fix n
  show "bit (drop_bit k (sint (push_bit k w))) n
      = bit (signed_take_bit (LENGTH('a) - 1 - k) (uint w)) n"
  proof (cases "n + k < LENGTH('a)")
    case True
    then have "min (n + k) (LENGTH('a) - 1) = n + k" "min n (LENGTH('a) - 1 - k) = n"
      by simp_all
    with True show ?thesis
      by (simp add: bit_drop_bit_eq bit_sint_iff bit_push_bit_iff bit_signed_take_bit_iff
          bit_uint_iff ac_simps)
  next
    case False
    then have "min (n + k) (LENGTH('a) - 1) = LENGTH('a) - 1"
      "min n (LENGTH('a) - 1 - k) = LENGTH('a) - 1 - k"
      by simp_all
    with False assms show ?thesis
      by (auto simp add: bit_drop_bit_eq bit_sint_iff bit_push_bit_iff bit_signed_take_bit_iff
          bit_uint_iff ac_simps)
  qed
qed

lemma sign_extend_sbin:
  "1 \<le> bits \<Longrightarrow> bits \<le> 64 \<Longrightarrow> sign_extend raw bits = signed_take_bit (bits - 1) (uint raw)"
  using drop_bit_sint_push_bit [of "64 - bits" raw] by (simp add: sign_extend_def Let_def)

lemma sign_extend_word_of_int:
  assumes "1 \<le> bits" "bits \<le> 64" "- (2 ^ (bits - 1)) \<le> n" "n < 2 ^ (bits - 1)"
  shows "sign_extend (take_bit bits (word_of_int n)) bits = n"
proof -
  have "uint (take_bit bits (word_of_int n :: u64)) = take_bit bits n"
    using assms by (simp add: unsigned_take_bit_eq uint_word_of_int_eq take_bit_take_bit min_def)
  then have "sign_extend (take_bit bits (word_of_int n)) bits
      = signed_take_bit (bits - 1) (take_bit bits n)"
    using assms by (simp add: sign_extend_sbin)
  also have "\<dots> = signed_take_bit (bits - 1) n"
    using assms(1) by (intro bit_eqI) (auto simp: bit_signed_take_bit_iff bit_take_bit_iff min_def)
  also have "\<dots> = n"
    using assms by (simp add: signed_take_bit_int_eq_self)
  finally show ?thesis .
qed

text \<open>The two's complement value of an unsigned field of \<open>bits\<close> bits.\<close>

definition signed_of :: "nat \<Rightarrow> nat \<Rightarrow> int" where
  "signed_of bits u = (if 2 * int u < 2 ^ bits then int u else int u - 2 ^ bits)"

lemma int_less_power2: "u < 2 ^ bits \<Longrightarrow> int u < 2 ^ bits"
  by (metis of_nat_less_iff of_nat_numeral of_nat_power)

lemma signed_of_range:
  assumes "u < 2 ^ bits"
  shows "- (2 ^ bits) \<le> 2 * signed_of bits u" "2 * signed_of bits u < 2 ^ bits"
  using int_less_power2 [OF assms] unfolding signed_of_def by (simp_all split: if_split, linarith+)

lemma signed_of_mod:
  assumes "- (2 ^ bits) \<le> 2 * n" "2 * n < (2 :: int) ^ bits"
  shows "signed_of bits (nat (n mod 2 ^ bits)) = n"
proof (cases "0 \<le> n")
  case True
  then have "n mod 2 ^ bits = n"
    using assms by (intro mod_pos_pos_trivial) auto
  then show ?thesis
    using True assms(2) by (simp add: signed_of_def)
next
  case False
  have "n mod 2 ^ bits = (n + 2 ^ bits) mod 2 ^ bits"
    by simp
  also have "\<dots> = n + 2 ^ bits"
    using False assms(1) by (intro mod_pos_pos_trivial) auto
  finally have "n mod 2 ^ bits = n + 2 ^ bits" .
  then show ?thesis
    using False assms(1) by (simp add: signed_of_def)
qed

lemma mod_signed_of: "u < 2 ^ bits \<Longrightarrow> signed_of bits u mod 2 ^ bits = int u"
  using int_less_power2 [of u bits] by (simp add: signed_of_def)

lemma sign_extend_nat:
  assumes "1 \<le> bits" "bits < 64" "unat raw < 2 ^ bits"
  shows "sign_extend raw bits = signed_of bits (unat raw)"
proof -
  let ?n = "signed_of bits (unat raw)"
  have "2 ^ bits = 2 * (2 :: int) ^ (bits - 1)"
    using assms(1) by (simp flip: power_Suc)
  then have r: "- (2 ^ (bits - 1)) \<le> ?n" "?n < 2 ^ (bits - 1)"
    using signed_of_range [OF assms(3)] by linarith+
  have "uint (take_bit bits (word_of_int ?n :: u64)) = ?n mod 2 ^ bits"
    using assms(2) by (simp add: unsigned_take_bit_eq uint_word_of_int_eq take_bit_take_bit
        min_def flip: take_bit_eq_mod)
  then have "take_bit bits (word_of_int ?n :: u64) = raw"
    by (simp only: mod_signed_of [OF assms(3)] word_uint_eq_iff of_nat_unat)
  then show ?thesis
    using sign_extend_word_of_int [of bits ?n] assms(1,2) r by simp
qed

text \<open>Every signed field of the wire formats is read by \<open>signed_of\<close>, at any width.\<close>

lemma power_256: "(256 :: 'a::comm_semiring_1) ^ w = 2 ^ (8 * w)"
  by (simp add: power_mult)

lemma signed_of_int_le:
  assumes "- (256 ^ w) \<le> 2 * n" "2 * n < 256 ^ w"
  shows "signed_of (8 * w) (le_nat (int_le w n)) = n"
proof -
  have "nat (n mod 256 ^ w) < 256 ^ w"
    by (simp add: nat_less_iff)
  then have "le_nat (int_le w n) = nat (n mod 2 ^ (8 * w))"
    by (simp add: int_le_def le_nat_to_le power_256)
  then show ?thesis
    using assms signed_of_mod [of "8 * w" n] by (simp only: power_256)
qed

lemma int_le_signed_of: "int_le (length bs) (signed_of (8 * length bs) (le_nat bs)) = bs"
  using le_nat_less [of bs] mod_signed_of [of "le_nat bs" "8 * length bs"]
  by (simp add: int_le_def power_256 to_le_le_nat)

lemma signed_of_le_range:
  "- (256 ^ length bs) \<le> 2 * signed_of (8 * length bs) (le_nat bs)"
  "2 * signed_of (8 * length bs) (le_nat bs) < 256 ^ length bs"
  using signed_of_range [of "le_nat bs" "8 * length bs"] le_nat_less [of bs]
  by (simp_all only: power_256)

lemma sint_from_le_signed_of:
  assumes "LENGTH('a) = 8 * length bs"
  shows "sint (from_le bs :: 'a::len word) = signed_of (8 * length bs) (le_nat bs)"
proof -
  have p: "256 ^ length bs = (2 ^ LENGTH('a) :: nat)"
    by (simp only: power_256 assms)
  let ?n = "sint (from_le bs :: 'a word)"
  have "signed_of (8 * length bs) (le_nat (int_le (length bs) ?n)) = ?n"
    using sint_from_le_range [OF p, of bs] by (rule signed_of_int_le)
  then show ?thesis
    by (simp only: int_le_sint [OF p])
qed

lemma unat_ucast_wider:
  "LENGTH('b) \<le> LENGTH('a) \<Longrightarrow> unat (ucast (w :: 'b::len word) :: 'a::len word) = unat w"
proof -
  assume "LENGTH('b) \<le> LENGTH('a)"
  then have "(2 :: nat) ^ LENGTH('b) \<le> 2 ^ LENGTH('a)"
    by (rule power_increasing) simp
  then have "unat w < 2 ^ LENGTH('a)"
    using unsigned_less [of w, where ?'a = nat] by linarith
  then show ?thesis
    by (simp add: unsigned_ucast_eq take_bit_nat_eq_self)
qed

lemma unat_push_byte:
  fixes b :: u8
  assumes "8 + k \<le> LENGTH('a)"
  shows "unat (push_bit k (ucast b :: 'a::len word)) = push_bit k (unat b)"
proof -
  have "unat (ucast b :: 'a word) = unat b"
    using assms by (simp add: unat_ucast_wider)
  moreover have "push_bit k (unat b) < 2 ^ (8 + k)"
    using unat_byte_less [of b] by (simp add: push_bit_eq_mult power_add)
  then have "push_bit k (unat b) < 2 ^ LENGTH('a)"
    using assms by (meson less_le_trans one_le_numeral power_increasing)
  ultimately show ?thesis
    by (simp add: unsigned_push_bit_eq take_bit_nat_eq_self)
qed

lemma read_i24_le_eq:
  assumes "offset + 3 \<le> length buf"
  shows "read_i24_le buf offset = Ok (signed_of 24 (le_nat (take 3 (drop offset buf))))"
proof -
  let ?a = "buf ! offset" and ?b = "buf ! Suc offset" and ?c = "buf ! Suc (Suc offset)"
  have t: "take 3 (drop offset buf) = [?a, ?b, ?c]"
    using assms by (simp add: numeral_3_eq_3 take_Suc_conv_app_nth)
  have less: "unat ?a < 256" "unat ?b < 256" "unat ?c < 256"
    by simp_all
  have "unat ((ucast ?a :: u32) OR push_bit 8 (ucast ?b) OR push_bit 16 (ucast ?c))
      = unat ?a OR push_bit 8 (unat ?b) OR push_bit 16 (unat ?c)"
    using unat_push_byte [where 'a = 32, of 8 ?b] unat_push_byte [where 'a = 32, of 16 ?c]
    by (simp add: unsigned_or_eq unat_ucast_wider)
  also have "\<dots> = push_bit 16 (unat ?c) OR (push_bit 8 (unat ?b) OR unat ?a)"
    by (simp add: ac_simps)
  also have "\<dots> = unat ?c * 65536 + (unat ?b * 256 + unat ?a)"
  proof -
    have "unat ?b * 256 + unat ?a < 65536"
      using less by linarith
    then have "push_bit 16 (unat ?c) OR (unat ?b * 256 + unat ?a)
        = unat ?c * 65536 + (unat ?b * 256 + unat ?a)"
      using push_bit_or_nat [of "unat ?b * 256 + unat ?a" 16 "unat ?c"] by simp
    then show ?thesis
      using less push_bit_or_nat [of "unat ?a" 8 "unat ?b"] by simp
  qed
  finally have "unat (ucast ((ucast ?a :: u32) OR push_bit 8 (ucast ?b) OR push_bit 16 (ucast ?c))
      :: u64) = le_nat [?a, ?b, ?c]"
    by (simp add: unat_ucast_wider)
  moreover from this have "unat (ucast ((ucast ?a :: u32) OR push_bit 8 (ucast ?b) OR
      push_bit 16 (ucast ?c)) :: u64) < 2 ^ 24"
    using le_nat_less [of "[?a, ?b, ?c]"] by simp
  ultimately show ?thesis
    using assms by (simp only: read_i24_le_def Let_def t idx_in_range and_then_simps) 
      (simp add: sign_extend_nat)
qed

text \<open>Splitting the front of a buffer.\<close>

lemma byte_eqI: "unat (b :: u8) = n \<Longrightarrow> n < 256 \<Longrightarrow> b = as_u8 n"
  by (simp add: byte_eq_iff)

lemma Cons_take_drop: "buf \<noteq> [] \<Longrightarrow> take (Suc n) buf = buf ! 0 # take n (drop 1 buf)"
  by (cases buf) simp_all

lemma take_2_bytes: "2 \<le> length buf \<Longrightarrow>
  take (Suc (Suc n)) buf = buf ! 0 # buf ! 1 # take n (drop 2 buf)"
  by (cases buf; cases "tl buf") (simp_all add: numeral_2_eq_2)

lemma sint_take:
  assumes "Suc k \<le> length buf" "LENGTH('a) = 8 * k"
  shows "sint (from_le (take k (drop (Suc 0) buf)) :: 'a::len word)
    = signed_of (8 * k) (le_nat (take k (drop (Suc 0) buf)))"
proof -
  have "length (take k (drop (Suc 0) buf)) = k"
    using assms(1) by simp
  then show ?thesis
    using sint_from_le_signed_of [where 'a = 'a, of "take k (drop (Suc 0) buf)"] assms(2)
    by (simp only:)
qed

lemmas compact_eval [rdb_eval] =
  into_bytes_def to_f64_def sign_extend_def read_i24_le_def capacity_hint_def checked_add_def
  ensure_len_def usize_max_def

end
