(* ===== verification/Reader_Prims.thy ===== *)
theory Reader_Prims
  imports Crc64 Lzf Compact
begin

text \<open>
  \<open>crates/rdb-parser/src/reader.rs\<close>, first part: the CRC-accumulating reader and the
  primitives of the format (lengths, strings, doubles).  The state of a \<open>CrcReader\<close> is
  what the source has left, how it ends, and the CRC so far.  The theorems: every primitive
  is \<open>reader_ok\<close>: it never panics, it consumes a prefix of the input and folds exactly that
  prefix into the CRC (in every outcome), and its successful result depends on nothing
  beyond what it consumed.
\<close>

section \<open>The CRC reader\<close>

record crc_reader =
  inner :: bytes
  src_end :: io_error
  crc :: u64

type_synonym 'a rd = "(crc_reader, 'a, rdb_error) st"

text \<open>
  \<open>read_exact\<close> on a \<open>CrcReader\<close> calls \<open>read\<close> until the buffer is full, and every \<open>read\<close>
  folds the bytes it got into the CRC.  When the source ends first, everything it still
  held has been consumed and folded in.
\<close>

definition read_exact :: "nat \<Rightarrow> bytes rd" where
  "read_exact n s =
     (if n \<le> length (inner s)
      then (Ok (take n (inner s)),
            s\<lparr>inner := drop n (inner s), crc := crc64 (crc s) (take n (inner s))\<rparr>)
      else (Err (Io (src_end s)), s\<lparr>inner := [], crc := crc64 (crc s) (inner s)\<rparr>))"

text \<open>\<open>self.reader.inner.read_exact\<close>: past the CRC.\<close>

definition read_exact_raw :: "nat \<Rightarrow> bytes rd" where
  "read_exact_raw n s =
     (if n \<le> length (inner s) then (Ok (take n (inner s)), s\<lparr>inner := drop n (inner s)\<rparr>)
      else (Err (Io (src_end s)), s\<lparr>inner := []\<rparr>))"

section \<open>Primitives\<close>

definition MAX_ALLOC_BYTES :: u64 where
  "MAX_ALLOC_BYTES = 512 * 1024 * 1024"

datatype len_result = Len u64 | Special u8

definition read_u8 :: "u8 rd" where
  "read_u8 = st_bind (read_exact 1) (\<lambda>buf. st_lift (idx buf 0))"

definition read_i32_le :: "int rd" where
  "read_i32_le = st_bind (read_exact 4) (\<lambda>buf. st_ret (sint (from_le buf :: u32)))"

definition read_i64_le :: "i64 rd" where
  "read_i64_le = st_bind (read_exact 8) (\<lambda>buf. st_ret (sint (from_le buf :: u64)))"

definition read_exact_vec :: "usize \<Rightarrow> bytes rd" where
  "read_exact_vec len = read_exact len"

definition len_to_usize :: "u64 \<Rightarrow> usize parsed" where
  "len_to_usize len =
     (if len > MAX_ALLOC_BYTES then Err (CorruptData ''{}: length {} exceeds {} byte limit'')
      else Ok (unat len))"

definition read_length :: "len_result rd" where
  "read_length = st_bind read_u8 (\<lambda>first.
     let top2 = drop_bit 6 (first AND 0xC0) in
     if top2 = RDB_6BITLEN then st_ret (Len (ucast (first AND 0x3F)))
     else if top2 = RDB_14BITLEN then
       st_bind read_u8 (\<lambda>second.
         st_ret (Len (push_bit 8 (ucast (first AND 0x3F)) OR ucast second)))
     else if top2 = 2 then
       (if first = RDB_32BITLEN then
          st_bind (read_exact 4) (\<lambda>buf. st_ret (Len (ucast (from_be buf :: u32))))
        else if first = RDB_64BITLEN then
          st_bind (read_exact 8) (\<lambda>buf. st_ret (Len (from_be buf)))
        else st_err (CorruptData ''unknown length encoding byte: 0x{:02x}''))
     else if top2 = RDB_ENCVAL then st_ret (Special (first AND 0x3F))
     else st_lift Panic)"

definition read_length_value :: "u64 rd" where
  "read_length_value = st_bind read_length (\<lambda>r. case r of
      Len len \<Rightarrow> st_ret len
    | Special _ \<Rightarrow> st_err (CorruptData ''expected plain length, got special encoding''))"

text \<open>\<open>Self::len_to_usize(self.read_length_value()?, ctx)?\<close>\<close>

definition read_count :: "usize rd" where
  "read_count = st_bind read_length_value (\<lambda>n. st_lift (len_to_usize n))"

definition read_string :: "bytes rd" where
  "read_string = st_bind read_length (\<lambda>r. case r of
      Len len \<Rightarrow> st_bind (st_lift (len_to_usize len)) (\<lambda>len. read_exact_vec len)
    | Special enc_type \<Rightarrow>
        if enc_type = RDB_ENC_INT8 then
          st_bind read_u8 (\<lambda>b. st_ret (dec_int (sint b)))
        else if enc_type = RDB_ENC_INT16 then
          st_bind (read_exact 2) (\<lambda>buf. st_ret (dec_int (sint (from_le buf :: u16))))
        else if enc_type = RDB_ENC_INT32 then
          st_bind (read_exact 4) (\<lambda>buf. st_ret (dec_int (sint (from_le buf :: u32))))
        else if enc_type = RDB_ENC_LZF then
          st_bind read_count (\<lambda>compressed_len.
          st_bind read_count (\<lambda>uncompressed_len.
          st_bind (read_exact_vec compressed_len) (\<lambda>compressed.
          st_lift (decompress compressed uncompressed_len))))
        else st_err (CorruptData ''unknown string encoding sub-type: {}''))"

definition read_double_value :: "f64 rd" where
  "read_double_value = st_bind read_u8 (\<lambda>len.
     if len = 255 then st_ret F64_NEG_INFINITY
     else if len = 254 then st_ret F64_INFINITY
     else if len = 253 then st_ret F64_NAN
     else st_bind (read_exact_vec (unat len)) (\<lambda>buf.
       st_bind (st_lift (ok_or (CorruptData ''invalid UTF-8 in double value'') (from_utf8 buf)))
         (\<lambda>s. st_lift (ok_or (CorruptData ''invalid double string: {}'') (parse_f64 s)))))"

section \<open>What every reader operation promises\<close>

text \<open>The input consumed is a prefix, and the CRC has absorbed exactly that prefix.\<close>

definition frame :: "crc_reader \<Rightarrow> crc_reader \<Rightarrow> bool" where
  "frame s s' \<longleftrightarrow> (\<exists>k \<le> length (inner s).
     s' = s\<lparr>inner := drop k (inner s), crc := crc64 (crc s) (take k (inner s))\<rparr>)"

definition more_input :: "bytes \<Rightarrow> crc_reader \<Rightarrow> crc_reader" where
  "more_input ys s = s\<lparr>inner := inner s @ ys\<rparr>"

definition reader_ok_at :: "'a rd \<Rightarrow> crc_reader \<Rightarrow> bool" where
  "reader_ok_at m s \<longleftrightarrow> fst (m s) \<noteq> Panic \<and> frame s (snd (m s)) \<and>
     (\<forall>ys a s'. m s = (Ok a, s') \<longrightarrow> m (more_input ys s) = (Ok a, more_input ys s'))"

definition reader_ok :: "'a rd \<Rightarrow> bool" where
  "reader_ok m \<longleftrightarrow> (\<forall>s. reader_ok_at m s)"

named_theorems reader_intros \<open>reader operations keep the frame\<close>

lemma reader_okI:
  assumes "\<And>s. fst (m s) \<noteq> Panic" "\<And>s. frame s (snd (m s))"
    "\<And>s ys a s'. m s = (Ok a, s') \<Longrightarrow> m (more_input ys s) = (Ok a, more_input ys s')"
  shows "reader_ok m"
  using assms by (auto simp: reader_ok_def reader_ok_at_def)

lemma reader_ok_atD:
  assumes "reader_ok_at m s"
  shows "fst (m s) \<noteq> Panic" "m s = (r, s') \<Longrightarrow> frame s s'" "m s \<noteq> (Panic, s')"
    "m s = (Ok a, s') \<Longrightarrow> m (more_input ys s) = (Ok a, more_input ys s')"
proof -
  show "fst (m s) \<noteq> Panic"
    using assms by (simp add: reader_ok_at_def)
  then show "m s \<noteq> (Panic, s')"
    by auto
  have "frame s (snd (m s))"
    using assms by (simp add: reader_ok_at_def)
  then show "m s = (r, s') \<Longrightarrow> frame s s'"
    by simp
  show "m s = (Ok a, s') \<Longrightarrow> m (more_input ys s) = (Ok a, more_input ys s')"
    using assms by (simp add: reader_ok_at_def)
qed

lemma reader_ok_at: "reader_ok m \<Longrightarrow> reader_ok_at m s"
  by (simp add: reader_ok_def)

lemmas reader_okD = reader_ok_atD [OF reader_ok_at]

lemma frame_refl [simp]: "frame s s"
  by (auto simp: frame_def intro!: exI [of _ 0])

lemma frame_trans: "frame s t \<Longrightarrow> frame t u \<Longrightarrow> frame s u"
proof -
  assume "frame s t" "frame t u"
  then obtain j k where "j \<le> length (inner s)" "k \<le> length (inner s) - j"
    "t = s\<lparr>inner := drop j (inner s), crc := crc64 (crc s) (take j (inner s))\<rparr>"
    "u = t\<lparr>inner := drop k (inner t), crc := crc64 (crc t) (take k (inner t))\<rparr>"
    by (auto simp: frame_def)
  then show ?thesis
    unfolding frame_def
    by (intro exI [of _ "j + k"]) (simp add: take_add crc64_append add.commute)
qed

lemma frame_src_end: "frame s t \<Longrightarrow> src_end t = src_end s"
  by (auto simp: frame_def)

lemma reader_ok_ret [reader_intros]: "reader_ok (st_ret a)"
  and reader_ok_err [reader_intros]: "reader_ok (st_err e)"
  by (auto intro!: reader_okI)

lemma reader_ok_lift [reader_intros]: "m \<noteq> Panic \<Longrightarrow> reader_ok (st_lift m)"
  by (auto intro!: reader_okI)

lemma reader_ok_at_bind:
  assumes "reader_ok_at m s" "\<And>a t. m s = (Ok a, t) \<Longrightarrow> reader_ok_at (f a) t"
  shows "reader_ok_at (st_bind m f) s"
proof (cases "m s")
  case (Pair r t)
  note m = reader_ok_atD [OF assms(1)]
  show ?thesis
  proof (cases r)
    case (Ok a)
    with Pair have e: "st_bind m f s = f a t" "\<And>ys. st_bind m f (more_input ys s) = f a (more_input ys t)"
      using m(4) by simp_all
    from assms(2) Pair Ok have f: "reader_ok_at (f a) t" by simp
    moreover have "frame s t" by (rule m(2) [OF Pair])
    ultimately show ?thesis
      by (auto simp: reader_ok_at_def e intro: frame_trans)
  next
    case (Err e)
    with Pair m(2) [OF Pair] show ?thesis by (simp add: reader_ok_at_def)
  next
    case Panic
    with Pair m(3) show ?thesis by simp
  qed
qed

lemma reader_ok_bind_dep:
  "reader_ok m \<Longrightarrow> (\<And>a s s'. m s = (Ok a, s') \<Longrightarrow> reader_ok (f a)) \<Longrightarrow> reader_ok (st_bind m f)"
  by (auto simp: reader_ok_def intro!: reader_ok_at_bind)

lemma reader_ok_bind [reader_intros]:
  "reader_ok m \<Longrightarrow> (\<And>a. reader_ok (f a)) \<Longrightarrow> reader_ok (st_bind m f)"
  by (rule reader_ok_bind_dep)

lemma reader_ok_repeat [reader_intros]: "reader_ok m \<Longrightarrow> reader_ok (st_repeat n m)"
  by (induction n) (auto intro!: reader_intros)

lemma reader_ok_if [reader_intros]:
  "(c \<Longrightarrow> reader_ok m) \<Longrightarrow> (\<not> c \<Longrightarrow> reader_ok m') \<Longrightarrow> reader_ok (if c then m else m')"
  by simp

lemma reader_ok_read_exact [reader_intros]: "reader_ok (read_exact n)"
proof (rule reader_okI)
  show "frame s (snd (read_exact n s))" for s
    by (auto simp: read_exact_def frame_def intro: exI [of _ "length (inner s)"])
qed (auto simp: read_exact_def more_input_def split: if_splits)

lemma read_exact_Ok:
  "read_exact n s = (Ok buf, s') \<Longrightarrow> length buf = n"
  by (auto simp: read_exact_def split: if_splits)

lemma len_to_usize_Ok_iff: "len_to_usize n = Ok k \<longleftrightarrow> n \<le> MAX_ALLOC_BYTES \<and> k = unat n"
  by (auto simp: len_to_usize_def)

lemma len_to_usize_no_panic [no_panic, simp]: "len_to_usize n \<noteq> Panic"
  by (simp add: len_to_usize_def)

lemma reader_ok_read_u8 [reader_intros]: "reader_ok read_u8"
  unfolding read_u8_def
  by (rule reader_ok_bind_dep) (auto intro!: reader_intros dest!: read_exact_Ok)

lemma unat_top2: "unat (drop_bit 6 (b AND 0xC0 :: u8)) = unat b div 64"
  using and_top_nat [of "unat b" 8 6]
  by (simp add: unat_drop_bit_eq drop_bit_eq_div unat_div unsigned_and_eq)

lemma top2_eq: "drop_bit 6 (b AND 0xC0 :: u8) = k \<longleftrightarrow> unat b div 64 = unat k"
  by (simp only: byte_eq_iff unat_top2)

lemma top2_cases: "drop_bit 6 (b AND 0xC0 :: u8) \<in> {0, 1, 2, 3}"
proof -
  have "unat b div 64 < 4"
    using unat_byte_less [of b] by linarith
  then have "unat b div 64 \<in> {0, 1, 2, 3}"
    by auto
  then show ?thesis
    by (simp only: insert_iff empty_iff top2_eq) simp
qed

lemma reader_ok_simple [reader_intros]:
  "reader_ok read_i32_le" "reader_ok read_i64_le" "reader_ok (read_exact_vec n)"
  by (auto simp: read_i32_le_def read_i64_le_def read_exact_vec_def intro!: reader_intros)

lemma reader_ok_read_length [reader_intros]: "reader_ok read_length"
  unfolding read_length_def Let_def
  by (intro reader_intros) (use top2_cases in auto)

lemma reader_ok_read_length_value [reader_intros]: "reader_ok read_length_value"
  unfolding read_length_value_def
  by (intro reader_intros) (auto split: len_result.split intro!: reader_intros)

lemma reader_ok_read_count [reader_intros]: "reader_ok read_count"
  unfolding read_count_def by (intro reader_intros) simp

lemma reader_ok_read_string [reader_intros]: "reader_ok read_string"
  unfolding read_string_def
  by (rule reader_ok_bind [OF reader_ok_read_length])
    (auto split: len_result.split intro!: reader_intros)

lemma reader_ok_read_double_value [reader_intros]: "reader_ok read_double_value"
  unfolding read_double_value_def by (intro reader_intros) simp_all

text \<open>Operations that consume at least one byte when they succeed.\<close>

definition progresses :: "'a rd \<Rightarrow> bool" where
  "progresses m \<longleftrightarrow> (\<forall>s a t. m s = (Ok a, t) \<longrightarrow> length (inner t) < length (inner s))"

lemma progressesD: "progresses m \<Longrightarrow> m s = (Ok a, t) \<Longrightarrow> length (inner t) < length (inner s)"
  by (simp add: progresses_def)

lemma reader_ok_shrinks:
  "reader_ok m \<Longrightarrow> m s = (r, t) \<Longrightarrow> length (inner t) \<le> length (inner s)"
  by (drule (1) reader_okD(2)) (auto simp: frame_def)

lemma progresses_bind:
  "progresses m \<Longrightarrow> (\<And>a. reader_ok (f a)) \<Longrightarrow> progresses (st_bind m f)"
  by (force simp: progresses_def st_bind_Ok_iff dest: reader_ok_shrinks)

lemma progresses_read_u8: "progresses read_u8"
  by (auto simp: progresses_def read_u8_def read_exact_def st_bind_Ok_iff split: if_splits)

lemma progresses_read_length: "progresses read_length"
  unfolding read_length_def Let_def
  by (intro progresses_bind progresses_read_u8 reader_intros) (use top2_cases in auto)

lemma progresses_read_length_value: "progresses read_length_value"
  unfolding read_length_value_def
  by (intro progresses_bind progresses_read_length) (auto split: len_result.split intro!: reader_intros)

section \<open>Reading what a writer wrote\<close>

text \<open>
  \<open>reads m bs a\<close>: on any input that starts with \<open>bs\<close>, the operation \<open>m\<close> returns \<open>a\<close>, leaves
  exactly what follows \<open>bs\<close>, and adds \<open>bs\<close> to the CRC.
\<close>

definition reads :: "'a rd \<Rightarrow> bytes \<Rightarrow> 'a \<Rightarrow> bool" where
  "reads m bs a \<longleftrightarrow> (\<forall>s rest. inner s = bs @ rest \<longrightarrow>
     m s = (Ok a, s\<lparr>inner := rest, crc := crc64 (crc s) bs\<rparr>))"

named_theorems reads_intros \<open>reader operations read an encoding\<close>

lemma readsD:
  "reads m bs a \<Longrightarrow> inner s = bs @ rest \<Longrightarrow>
   m s = (Ok a, s\<lparr>inner := rest, crc := crc64 (crc s) bs\<rparr>)"
  by (simp add: reads_def)

lemma reads_ret: "reads (st_ret a) [] a"
  by (simp add: reads_def)

lemma reads_lift: "m = Ok a \<Longrightarrow> reads (st_lift m) [] a"
  by (simp add: reads_def)

lemma reads_bind: "reads m xs a \<Longrightarrow> reads (f a) ys b \<Longrightarrow> reads (st_bind m f) (xs @ ys) b"
  by (auto simp: reads_def crc64_append)

lemma reads_bind_eq:
  "reads m xs a \<Longrightarrow> reads (f a) ys b \<Longrightarrow> zs = xs @ ys \<Longrightarrow> reads (st_bind m f) zs b"
  by (simp add: reads_bind)

lemma reads_bind_ret: "reads m xs a \<Longrightarrow> reads (st_bind m (\<lambda>a. st_ret (f a))) xs (f a)"
  using reads_bind [of m xs a "\<lambda>a. st_ret (f a)", OF _ reads_ret] by simp

lemma reads_bind_lift: "reads m xs a \<Longrightarrow> f a = Ok b \<Longrightarrow> reads (st_bind m (\<lambda>a. st_lift (f a))) xs b"
  using reads_bind [of m xs a "\<lambda>a. st_lift (f a)", OF _ reads_lift] by simp

lemma reads_read_exact: "length bs = n \<Longrightarrow> reads (read_exact n) bs bs"
  by (auto simp: reads_def read_exact_def)

lemma reads_repeat:
  "list_all2 (reads m) bss xs \<Longrightarrow> reads (st_repeat (length xs) m) (concat bss) xs"
proof (induction bss xs rule: list_all2_induct)
  case (Cons bs bss x xs)
  then have "reads (st_bind (st_repeat (length xs) m) (\<lambda>xs. st_ret (x # xs))) (concat bss) (x # xs)"
    by (intro reads_bind_ret)
  with Cons(1) show ?case by (simp add: reads_bind)
next
  case Nil
  show ?case unfolding list.size st_repeat.simps concat.simps by (rule reads_ret)
qed

lemma reads_read_u8: "reads read_u8 [b] b"
  unfolding read_u8_def by (rule reads_bind_lift [OF reads_read_exact]) simp_all

lemma reads_read_i64:
  "- (2 ^ 63) \<le> n \<Longrightarrow> n < 2 ^ 63 \<Longrightarrow> reads read_i64_le (int_le 8 n) n"
  unfolding read_i64_le_def
  using reads_bind_ret [OF reads_read_exact [of "int_le 8 n" 8], of "\<lambda>buf. sint (from_le buf :: u64)"]
  by (simp add: sint_from_le)

lemma reads_read_i32:
  "- (2 ^ 31) \<le> n \<Longrightarrow> n < 2 ^ 31 \<Longrightarrow> reads read_i32_le (int_le 4 n) n"
  unfolding read_i32_le_def
  using reads_bind_ret [OF reads_read_exact [of "int_le 4 n" 4], of "\<lambda>buf. sint (from_le buf :: u32)"]
  by (simp add: sint_from_le)

text \<open>Lengths, as \<open>rdbSaveLen\<close> writes them.\<close>

definition enc_len :: "nat \<Rightarrow> bytes" where
  "enc_len n =
     (if n < 64 then [as_u8 n]
      else if n < 16384 then [as_u8 (64 + n div 256), as_u8 (n mod 256)]
      else if n < 2 ^ 32 then 0x80 # to_be 4 n
      else 0x81 # to_be 8 n)"

lemma len14:
  assumes "64 \<le> n" "n < 16384"
  shows "(push_bit 8 (ucast (as_u8 (64 + n div 256) AND 0x3F)) :: u64) OR ucast (as_u8 (n mod 256))
    = word_of_nat n"
proof -
  have "n div 256 < 64"
    using assms(2) by auto
  then have h: "unat (as_u8 (64 + n div 256) AND 0x3F) = n div 256"
    using mod_mult_self1 [of "n div 256" 1 64] by (simp add: byte_lows)
  have "unat ((push_bit 8 (ucast (as_u8 (64 + n div 256) AND 0x3F)) :: u64) OR ucast (as_u8 (n mod 256)))
      = push_bit 8 (n div 256) OR n mod 256"
    using unat_push_byte [where 'a = 64, of 8 "as_u8 (64 + n div 256) AND 0x3F"]
    by (simp add: unsigned_or_eq unat_ucast_wider h)
  also have "\<dots> = n"
    using push_bit_or_nat [of "n mod 256" 8 "n div 256"] by simp
  finally show ?thesis
    using assms(2) by (simp add: word_unat_eq_iff unat_of_nat)
qed

lemma reads_first:
  assumes "\<And>s rest. inner s = bs @ rest \<Longrightarrow> f b s = (Ok a, s\<lparr>inner := rest, crc := crc64 (crc s) bs\<rparr>)"
  shows "reads (st_bind read_u8 f) (b # bs) a"
  using reads_bind [OF reads_read_u8 [of b], of f bs a] assms by (simp add: reads_def)

lemma reads_read_length_Special:
  "b = 192 + k \<Longrightarrow> k < 64 \<Longrightarrow> reads read_length [as_u8 b] (Special (as_u8 k))"
proof -
  assume b: "b = 192 + k" "k < 64"
  have "drop_bit 6 (as_u8 b AND 0xC0) = 3"
    using b by (simp only: top2_eq) simp
  moreover have "as_u8 b AND 0x3F = as_u8 k"
    using b mod_mult_self1 [of k 3 64] by (simp add: byte_eq_iff byte_lows add.commute)
  ultimately show ?thesis
    unfolding read_length_def Let_def
    by (intro reads_first) simp
qed

lemma reads_read_length: "n < 2 ^ 64 \<Longrightarrow> reads read_length (enc_len n) (Len (word_of_nat n))"
proof -
  assume n: "n < 2 ^ 64"
  consider "n < 64" | "64 \<le> n" "n < 16384" | "16384 \<le> n" "n < 2 ^ 32" | "2 ^ 32 \<le> n"
    by linarith
  then show ?thesis
  proof cases
    case 1
    then have "drop_bit 6 (as_u8 n AND 0xC0) = 0"
      by (simp only: top2_eq) simp
    moreover have "(ucast (as_u8 n AND 0x3F) :: u64) = word_of_nat n"
      using 1 by (simp add: word_unat_eq_iff [where 'a = 64] unat_ucast_wider byte_lows unat_of_nat)
    moreover note 1
    ultimately show ?thesis
      unfolding read_length_def Let_def enc_len_def by (simp, intro reads_first) simp
  next
    case 2
    then have "drop_bit 6 (as_u8 (64 + n div 256) AND 0xC0) = 1"
      by (simp only: top2_eq) simp
    moreover have "reads (st_bind read_u8 (\<lambda>second. st_ret (Len
        (push_bit 8 (ucast (as_u8 (64 + n div 256) AND 0x3F)) OR ucast second))))
        [as_u8 (n mod 256)] (Len (word_of_nat n))"
      unfolding len14 [OF 2, symmetric] by (rule reads_bind_ret [OF reads_read_u8])
    moreover note 2
    ultimately show ?thesis
      unfolding read_length_def Let_def enc_len_def
      by (simp, intro reads_first) (simp add: reads_def)
  next
    case 3
    have "unat (ucast (word_of_nat n :: u32) :: u64) = unat (word_of_nat n :: u64)"
      using 3 by (simp add: unat_ucast_wider unat_of_nat)
    then have "(ucast (word_of_nat n :: u32) :: u64) = word_of_nat n"
      by (simp add: word_unat_eq_iff)
    then have "reads (st_bind (read_exact 4) (\<lambda>buf. st_ret (Len (ucast (from_be buf :: u32)))))
        (to_be 4 n) (Len (word_of_nat n))"
      using reads_bind_ret [OF reads_read_exact [of "to_be 4 n" 4], of "\<lambda>buf. Len (ucast (from_be buf :: u32))"]
        by (simp add: from_be_to_be)
    with 3 show ?thesis
      unfolding read_length_def Let_def enc_len_def
      by (simp, intro reads_first) (simp add: reads_def)
  next
    case 4
    have "reads (st_bind (read_exact 8) (\<lambda>buf. st_ret (Len (from_be buf)))) (to_be 8 n)
        (Len (word_of_nat n))"
      using reads_bind_ret [OF reads_read_exact [of "to_be 8 n" 8], of "\<lambda>buf. Len (from_be buf)"]
      by (simp add: from_be_to_be)
    with 4 show ?thesis
      unfolding read_length_def Let_def enc_len_def
      by (simp, intro reads_first) (simp add: reads_def)
  qed
qed

lemma reads_read_length_value:
  "n < 2 ^ 64 \<Longrightarrow> reads read_length_value (enc_len n) (word_of_nat n)"
  unfolding read_length_value_def
  by (rule reads_bind_eq [OF reads_read_length, where ys = "[]"]) (simp_all add: reads_ret)

lemma len_to_usize_nat: "n \<le> 536870912 \<Longrightarrow> len_to_usize (word_of_nat n) = Ok n"
  by (simp add: len_to_usize_Ok_iff MAX_ALLOC_BYTES_def word_le_nat_alt unat_of_nat)

lemma reads_read_count: "n \<le> 536870912 \<Longrightarrow> reads read_count (enc_len n) n"
  unfolding read_count_def
  by (rule reads_bind_lift [OF reads_read_length_value]) (simp_all add: len_to_usize_nat)

text \<open>
  Strings on the wire: raw bytes behind a length, an integer of 1, 2 or 4 bytes that stands
  for its decimal text, or an LZF-compressed string behind two lengths.
\<close>

datatype string_enc =
    SRaw bytes
  | SInt8 int
  | SInt16 int
  | SInt32 int
  | SLzf bytes bytes

fun string_enc_ok :: "string_enc \<Rightarrow> bool" where
  "string_enc_ok (SRaw s) \<longleftrightarrow> length s \<le> 536870912"
| "string_enc_ok (SInt8 n) \<longleftrightarrow> - 128 \<le> n \<and> n < 128"
| "string_enc_ok (SInt16 n) \<longleftrightarrow> - 32768 \<le> n \<and> n < 32768"
| "string_enc_ok (SInt32 n) \<longleftrightarrow> - 2147483648 \<le> n \<and> n < 2147483648"
| "string_enc_ok (SLzf cs s) \<longleftrightarrow> length cs \<le> 536870912 \<and> length s \<le> 536870912 \<and>
     decompress cs (length s) = Ok s"

fun string_enc_value :: "string_enc \<Rightarrow> bytes" where
  "string_enc_value (SRaw s) = s"
| "string_enc_value (SInt8 n) = dec_int n"
| "string_enc_value (SInt16 n) = dec_int n"
| "string_enc_value (SInt32 n) = dec_int n"
| "string_enc_value (SLzf cs s) = s"

fun string_enc_bytes :: "string_enc \<Rightarrow> bytes" where
  "string_enc_bytes (SRaw s) = enc_len (length s) @ s"
| "string_enc_bytes (SInt8 n) = 0xC0 # int_le 1 n"
| "string_enc_bytes (SInt16 n) = 0xC1 # int_le 2 n"
| "string_enc_bytes (SInt32 n) = 0xC2 # int_le 4 n"
| "string_enc_bytes (SLzf cs s) = 0xC3 # enc_len (length cs) @ enc_len (length s) @ cs"

lemma reads_special:
  assumes "k < 64" "reads (f (Special (as_u8 k))) bs a"
  shows "reads (st_bind read_length f) (as_u8 (192 + k) # bs) a"
  by (rule reads_bind_eq [where f = f, OF reads_read_length_Special [OF refl assms(1)] assms(2)]) simp

lemma reads_specials:
  "reads (f (Special 0)) bs a \<Longrightarrow> reads (st_bind read_length f) (0xC0 # bs) a"
  "reads (f (Special 1)) bs a \<Longrightarrow> reads (st_bind read_length f) (0xC1 # bs) a"
  "reads (f (Special 2)) bs a \<Longrightarrow> reads (st_bind read_length f) (0xC2 # bs) a"
  "reads (f (Special 3)) bs a \<Longrightarrow> reads (st_bind read_length f) (0xC3 # bs) a"
  using reads_special [of 0 f bs a] reads_special [of 1 f bs a] reads_special [of 2 f bs a]
    reads_special [of 3 f bs a]
  by (simp_all add: as_u8_def)

lemma reads_read_string:
  assumes "string_enc_ok e"
  shows "reads read_string (string_enc_bytes e) (string_enc_value e)"
proof (cases e)
  case (SRaw s)
  with assms have "len_to_usize (word_of_nat (length s)) = Ok (length s)"
    by (simp add: len_to_usize_nat)
  moreover have "reads (read_exact_vec (length s)) s s"
    unfolding read_exact_vec_def by (rule reads_read_exact) simp
  ultimately have "reads (st_bind (st_lift (len_to_usize (word_of_nat (length s)))) read_exact_vec) s s"
    by (metis reads_bind_eq [where f = read_exact_vec, OF reads_lift] append_Nil)
  then show ?thesis
    unfolding read_string_def
    by (intro reads_bind_eq [OF reads_read_length]) (use SRaw assms in simp_all)
next
  case (SInt8 n)
  obtain b where b: "int_le 1 n = [b]"
    by (auto simp: int_le_def)
  then have "sint b = n"
    using sint_from_le [where 'a = 8, of 1 n] SInt8 assms by (simp add: from_le_def)
  then have "reads (st_bind read_u8 (\<lambda>b. st_ret (dec_int (sint b)))) [b] (dec_int n)"
    using reads_bind_ret [OF reads_read_u8, of "\<lambda>b. dec_int (sint b)" b] by simp
  then show ?thesis
    unfolding read_string_def SInt8 string_enc_bytes.simps string_enc_value.simps b
    by (intro reads_specials(1)) simp
next
  case (SInt16 n)
  then have "reads (st_bind (read_exact 2) (\<lambda>buf. st_ret (dec_int (sint (from_le buf :: u16)))))
      (int_le 2 n) (dec_int n)"
    using reads_bind_ret [OF reads_read_exact [of "int_le 2 n" 2],
        of "\<lambda>buf. dec_int (sint (from_le buf :: u16))"] assms
    by (simp add: sint_from_le)
  then show ?thesis
    unfolding read_string_def SInt16 string_enc_bytes.simps string_enc_value.simps
    by (intro reads_specials(2)) simp
next
  case (SInt32 n)
  then have "reads (st_bind (read_exact 4) (\<lambda>buf. st_ret (dec_int (sint (from_le buf :: u32)))))
      (int_le 4 n) (dec_int n)"
    using reads_bind_ret [OF reads_read_exact [of "int_le 4 n" 4],
        of "\<lambda>buf. dec_int (sint (from_le buf :: u32))"] assms
    by (simp add: sint_from_le)
  then show ?thesis
    unfolding read_string_def SInt32 string_enc_bytes.simps string_enc_value.simps
    by (intro reads_specials(3)) simp
next
  case (SLzf cs s)
  have "reads (st_bind (read_exact_vec (length cs)) (\<lambda>c. st_lift (decompress c (length s)))) cs s"
    unfolding read_exact_vec_def
    by (rule reads_bind_lift [OF reads_read_exact]) (use SLzf assms in simp_all)
  then have "reads (st_bind read_count (\<lambda>n. st_bind (read_exact_vec (length cs))
      (\<lambda>c. st_lift (decompress c n)))) (enc_len (length s) @ cs) s"
    by (rule reads_bind [OF reads_read_count, rotated]) (use SLzf assms in simp)
  then have "reads (st_bind read_count (\<lambda>m. st_bind read_count (\<lambda>n. st_bind (read_exact_vec m)
      (\<lambda>c. st_lift (decompress c n))))) (enc_len (length cs) @ enc_len (length s) @ cs) s"
    by (rule reads_bind [OF reads_read_count, rotated]) (use SLzf assms in simp)
  then show ?thesis
    unfolding read_string_def SLzf string_enc_bytes.simps string_enc_value.simps
    by (intro reads_specials(4)) simp
qed

end
