(* ===== verification/Codec.thy ===== *)
theory Codec
  imports Compact
begin

text \<open>
  What the two compact encodings share: a decoder that walks a blob entry by entry until
  its end marker.  The locale states what one step promises (an end marker, or exactly one
  entry of a wire format, never a panic); the lemmas state what the whole walk then
  computes.  \<open>Listpack\<close> and \<open>Ziplist\<close> interpret it on their decoders.
\<close>

locale compact_codec =
  fixes step :: "bytes \<Rightarrow> usize \<Rightarrow> (compact_entry \<times> usize) option parsed"
    and walk :: "bytes \<Rightarrow> usize \<Rightarrow> compact_entry list parsed"
    and wire_ok :: "'w \<Rightarrow> bool"
    and wire_bytes :: "'w \<Rightarrow> bytes"
    and wire_value :: "'w \<Rightarrow> compact_entry"
    and tail_ok :: "bytes \<Rightarrow> bool"
  assumes walk_eq: "walk data pos = and_then (step data pos) (\<lambda>r. case r of
        None \<Rightarrow> Ok []
      | Some (e, pos') \<Rightarrow> and_then (walk data pos') (\<lambda>es. Ok (e # es)))"
    and step_end: "tail_ok (drop pos data) \<Longrightarrow> step data pos = Ok None"
    and step_end_inv: "step data pos = Ok None \<Longrightarrow> tail_ok (drop pos data)"
    and step_entry: "length data < 2 ^ 32 \<Longrightarrow> wire_ok w \<Longrightarrow> drop pos data = wire_bytes w @ rest \<Longrightarrow>
        step data pos = Ok (Some (wire_value w, pos + length (wire_bytes w)))"
    and step_entry_inv: "step data pos = Ok (Some (e, pos')) \<Longrightarrow>
        \<exists>w. wire_ok w \<and> e = wire_value w \<and> pos' = pos + length (wire_bytes w) \<and>
          drop pos data = wire_bytes w @ drop pos' data"
    and wire_nonempty: "wire_ok w \<Longrightarrow> wire_bytes w \<noteq> []"
    and step_no_panic: "step data pos \<noteq> Panic"
begin

lemma walk_wires:
  "length data < 2 ^ 32 \<Longrightarrow> list_all wire_ok ws \<Longrightarrow> tail_ok tail \<Longrightarrow>
   drop pos data = concat (map wire_bytes ws) @ tail \<Longrightarrow>
   walk data pos = Ok (map wire_value ws)"
proof (induction ws arbitrary: pos)
  case Nil
  then show ?case by (subst walk_eq) (simp add: step_end)
next
  case (Cons w ws)
  let ?pos = "pos + length (wire_bytes w)"
  have d: "drop pos data = wire_bytes w @ concat (map wire_bytes ws) @ tail"
    using Cons.prems by simp
  then have "drop ?pos data = concat (map wire_bytes ws) @ tail"
    by (metis add.commute append_eq_conv_conj drop_drop)
  with Cons have "walk data ?pos = Ok (map wire_value ws)" by simp
  with Cons.prems step_entry [OF _ _ d] show ?case
    by (subst walk_eq) simp
qed

lemma step_progress: "step data pos = Ok (Some (e, pos')) \<Longrightarrow> pos < pos' \<and> pos' \<le> length data"
proof -
  assume "step data pos = Ok (Some (e, pos'))"
  then obtain w where w: "wire_ok w" "pos' = pos + length (wire_bytes w)"
    "drop pos data = wire_bytes w @ drop pos' data"
    using step_entry_inv by blast
  then have "length data - pos \<ge> length (wire_bytes w)" "length (wire_bytes w) > 0"
    using wire_nonempty [OF w(1)] by (metis length_append length_drop le_add1) (simp add: wire_nonempty [OF w(1)])
  with w(2) show ?thesis by linarith
qed

lemma walk_inv:
  "walk data pos = Ok es \<Longrightarrow>
   \<exists>ws tail. list_all wire_ok ws \<and> tail_ok tail \<and> es = map wire_value ws \<and>
     drop pos data = concat (map wire_bytes ws) @ tail"
proof (induction "length data - pos" arbitrary: pos es rule: less_induct)
  case less
  from less.prems obtain r where r: "step data pos = Ok r"
    by (auto simp: walk_eq [of data pos] and_then_Ok_iff)
  show ?case
  proof (cases r)
    case None
    with less.prems r have "es = []" by (simp add: walk_eq [of data pos])
    with None r step_end_inv [of data pos] show ?thesis
      by (intro exI [of _ "[]"] exI [of _ "drop pos data"]) simp
  next
    case (Some p)
    obtain e pos' where p: "p = (e, pos')" by fastforce
    with r Some have s: "step data pos = Ok (Some (e, pos'))" by simp
    with less.prems obtain es' where w: "walk data pos' = Ok es'" "es = e # es'"
      by (auto simp: walk_eq [of data pos] and_then_Ok_iff)
    have "length data - pos' < length data - pos"
      using step_progress [OF s] by linarith
    from less.hyps [OF this w(1)] obtain ws tail where
      ws: "list_all wire_ok ws" "tail_ok tail" "es' = map wire_value ws"
      "drop pos' data = concat (map wire_bytes ws) @ tail" by blast
    from step_entry_inv [OF s] obtain v where "wire_ok v" "e = wire_value v"
      "drop pos data = wire_bytes v @ drop pos' data" by blast
    with ws w(2) show ?thesis
      by (intro exI [of _ "v # ws"] exI [of _ tail]) simp
  qed
qed

lemma walk_no_panic: "walk data pos \<noteq> Panic"
proof (induction "length data - pos" arbitrary: pos rule: less_induct)
  case less
  have "walk data pos' \<noteq> Panic" if "step data pos = Ok (Some (e, pos'))" for e pos'
    using less.hyps [of pos'] step_progress [OF that] by linarith
  then show ?case
    using step_no_panic by (auto simp: walk_eq [of data pos] and_then_Panic_iff split: option.splits)
qed

text \<open>The walk accepts exactly the wire format, when the blob's length fits its header.\<close>

lemma walk_iff:
  assumes "length data < 2 ^ 32"
  shows "walk data pos = Ok es \<longleftrightarrow>
    (\<exists>ws tail. list_all wire_ok ws \<and> tail_ok tail \<and> es = map wire_value ws \<and>
       drop pos data = concat (map wire_bytes ws) @ tail)"
  using walk_wires [OF assms] walk_inv by blast

lemma length_concat_wires:
  "list_all wire_ok ws \<Longrightarrow> length ws \<le> length (concat (map wire_bytes ws))"
proof (induction ws)
  case (Cons w ws)
  then have "1 \<le> length (wire_bytes w)" using wire_nonempty by (simp add: Suc_le_eq)
  with Cons show ?case by simp
qed simp

text \<open>No allocation beyond the blob: at most one entry per byte.\<close>

lemma walk_length: "walk data pos = Ok es \<Longrightarrow> length es \<le> length data - pos"
proof -
  assume "walk data pos = Ok es"
  then obtain ws tail where ws: "list_all wire_ok ws" "es = map wire_value ws"
    "drop pos data = concat (map wire_bytes ws) @ tail" using walk_inv by blast
  from ws(3) have "length data - pos = length (concat (map wire_bytes ws)) + length tail"
    by (metis length_append length_drop)
  with length_concat_wires [OF ws(1)] ws(2) show ?thesis by simp
qed

end

end
