(* ===== verification/Listpack.thy ===== *)
theory Listpack
  imports Codec
begin

text \<open>
  \<open>crates/rdb-parser/src/listpack.rs\<close>: the decoder of the listpack encoding.  The theorems:
  a blob decodes exactly when it is well formed (header, entries with consistent back
  lengths, one end byte and nothing after it), to the entries it encodes; decoding never
  panics; the entry count is bounded by the blob.
\<close>

section \<open>The code\<close>

definition LP_HDR_SIZE :: usize where "LP_HDR_SIZE = 6"
definition LP_EOF :: u8 where "LP_EOF = 0xFF"

abbreviation lp_checked_add :: "usize \<Rightarrow> usize \<Rightarrow> usize parsed" where
  "lp_checked_add a b \<equiv> checked_add a b ''listpack''"

abbreviation lp_ensure_len :: "bytes \<Rightarrow> usize \<Rightarrow> unit parsed" where
  "lp_ensure_len buf need \<equiv> ensure_len buf need ''listpack''"

text \<open>A string of \<open>len\<close> bytes after a header of \<open>h\<close> bytes: the shared tail of three arms.\<close>

definition lp_string :: "bytes \<Rightarrow> usize \<Rightarrow> usize \<Rightarrow> (compact_entry \<times> usize) parsed" where
  "lp_string buf h len =
     and_then (lp_checked_add h len) (\<lambda>tot.
     and_then (lp_ensure_len buf tot) (\<lambda>_.
     and_then (slice buf h tot) (\<lambda>s. Ok (CStr s, tot))))"

definition lp_decode_entry :: "bytes \<Rightarrow> (compact_entry \<times> usize) parsed" where
  "lp_decode_entry buf =
     (if buf = [] then Err (CorruptData ''listpack entry: empty buffer'')
      else and_then (idx buf 0) (\<lambda>b0.
        if b0 AND 0x80 = 0 then Ok (CInt (uint (b0 AND 0x7F)), 1)
        else if b0 AND 0xC0 = 0x80 then lp_string buf 1 (unat (b0 AND 0x3F))
        else if b0 AND 0xE0 = 0xC0 then
          and_then (lp_ensure_len buf 2) (\<lambda>_. and_then (idx buf 1) (\<lambda>b1.
            let raw = (push_bit 8 (ucast (b0 AND 0x1F)) :: u16) OR ucast b1
            in Ok (CInt (sign_extend (ucast raw) 13), 2)))
        else if b0 AND 0xF0 = 0xE0 then
          and_then (lp_ensure_len buf 2) (\<lambda>_. and_then (idx buf 1) (\<lambda>b1.
            lp_string buf 2 (push_bit 8 (unat (b0 AND 0x0F)) OR unat b1)))
        else if b0 = 0xF0 then
          and_then (lp_ensure_len buf 5) (\<lambda>_. and_then (idxs buf 1 4) (\<lambda>l.
            lp_string buf 5 (unat (from_le l :: u32))))
        else if b0 = 0xF1 then
          and_then (lp_ensure_len buf 3) (\<lambda>_. and_then (idxs buf 1 2) (\<lambda>v.
            Ok (CInt (sint (from_le v :: u16)), 3)))
        else if b0 = 0xF2 then
          and_then (lp_ensure_len buf 4) (\<lambda>_. and_then (read_i24_le buf 1) (\<lambda>v.
            Ok (CInt v, 4)))
        else if b0 = 0xF3 then
          and_then (lp_ensure_len buf 5) (\<lambda>_. and_then (idxs buf 1 4) (\<lambda>v.
            Ok (CInt (sint (from_le v :: u32)), 5)))
        else if b0 = 0xF4 then
          and_then (lp_ensure_len buf 9) (\<lambda>_. and_then (idxs buf 1 8) (\<lambda>v.
            Ok (CInt (sint (from_le v :: u64)), 9)))
        else Err (CorruptData ''listpack unknown encoding byte 0x{:02x}'')))"

definition backlen_size :: "usize \<Rightarrow> usize" where
  "backlen_size entry_len =
     (if entry_len \<le> 127 then 1
      else if entry_len < 16383 then 2
      else if entry_len < 2097151 then 3
      else if entry_len < 268435455 then 4
      else 5)"

fun backlen_loop :: "bytes \<Rightarrow> u64 \<Rightarrow> nat \<Rightarrow> u64 parsed" where
  "backlen_loop [] val shift = Ok val"
| "backlen_loop (b # bs) val shift =
     (if shift > 28 then Err (CorruptData ''listpack backlen exceeds 5 bytes'')
      else backlen_loop bs (val OR push_bit shift (ucast (b AND 0x7F))) (shift + 7))"

definition decode_backlen :: "bytes \<Rightarrow> usize parsed" where
  "decode_backlen buf =
     (if buf = [] then Err (CorruptData ''listpack backlen: empty'')
      else and_then (idx buf 0) (\<lambda>b.
        if b AND 0x80 \<noteq> 0 then
          Err (CorruptData ''listpack backlen: first byte missing terminator bit'')
        else and_then (backlen_loop (rev buf) 0 0) (\<lambda>val. Ok (unat val))))"

text \<open>One turn of the \<open>loop\<close>: the end marker, or one entry and the position after it.\<close>

definition lp_step :: "bytes \<Rightarrow> usize \<Rightarrow> (compact_entry \<times> usize) option parsed" where
  "lp_step data pos =
     (if pos \<ge> length data then Err (CorruptData ''listpack missing EOF byte'')
      else and_then (idx data pos) (\<lambda>enc.
        if enc = LP_EOF then
          (if pos \<noteq> length data - 1 then
             Err (CorruptData ''listpack EOF at byte {pos} but blob length is {}, expected EOF at {}'')
           else Ok None)
        else
          and_then (slice data pos (length data)) (\<lambda>buf.
          and_then (lp_decode_entry buf) (\<lambda>(entry, entry_len).
          let bl_size = backlen_size entry_len; pos = pos + entry_len + bl_size in
          if pos > usize_max then Err (CorruptData ''listpack position overflow'')
          else if pos > length data then Err (CorruptData ''listpack entry overflows blob'')
          else and_then (slice data (pos - bl_size) pos) (\<lambda>bl.
               and_then (decode_backlen bl) (\<lambda>decoded_bl.
               if decoded_bl \<noteq> entry_len then
                 Err (CorruptData ''listpack backlen mismatch: expected {}, decoded {}'')
               else Ok (Some (entry, pos))))))))"

lemma lp_step_progress: "lp_step data pos = Ok (Some (e, pos')) \<Longrightarrow> pos < pos' \<and> pos' \<le> length data"
  by (auto simp: lp_step_def Let_def and_then_Ok_iff backlen_size_def split: if_splits)

function lp_walk :: "bytes \<Rightarrow> usize \<Rightarrow> compact_entry list parsed" where
  "lp_walk data pos = and_then (lp_step data pos) (\<lambda>r. case r of
      None \<Rightarrow> Ok []
    | Some (entry, pos') \<Rightarrow> and_then (lp_walk data pos') (\<lambda>es. Ok (entry # es)))"
  by pat_completeness auto
termination
  by (relation "measure (\<lambda>(data, pos). length data - pos)")
    (auto dest!: lp_step_progress)

declare lp_walk.simps [simp del]

definition lp_decode :: "bytes \<Rightarrow> compact_entry list parsed" where
  "lp_decode data =
     (if length data < LP_HDR_SIZE + 1 then
        Err (CorruptData ''listpack too short for header + EOF'')
      else and_then (idxs data 0 4) (\<lambda>tb.
        if unat (from_le tb :: u32) \<noteq> length data then
          Err (CorruptData ''listpack total_bytes header ({total_bytes}) does not match blob length ({})'')
        else and_then (idxs data 4 2) (\<lambda>_. lp_walk data LP_HDR_SIZE)))"

section \<open>The wire format\<close>

text \<open>
  An entry on the wire: its encoding, then its back length.  \<open>LpInt\<close> carries its width in
  bytes (2, 3, 4 or 8).
\<close>

datatype lp_enc =
    LpUint7 nat | LpStr6 bytes | LpInt13 int | LpStr12 bytes | LpStr32 bytes | LpInt nat int

fun lp_enc_ok :: "lp_enc \<Rightarrow> bool" where
  "lp_enc_ok (LpUint7 n) \<longleftrightarrow> n < 128"
| "lp_enc_ok (LpStr6 s) \<longleftrightarrow> length s < 64"
| "lp_enc_ok (LpInt13 n) \<longleftrightarrow> - 4096 \<le> n \<and> n < 4096"
| "lp_enc_ok (LpStr12 s) \<longleftrightarrow> length s < 4096"
| "lp_enc_ok (LpStr32 s) \<longleftrightarrow> length s < 2 ^ 32"
| "lp_enc_ok (LpInt w n) \<longleftrightarrow> (w = 2 \<or> w = 3 \<or> w = 4 \<or> w = 8) \<and> - (256 ^ w) \<le> 2 * n \<and> 2 * n < 256 ^ w"

fun lp_enc_value :: "lp_enc \<Rightarrow> compact_entry" where
  "lp_enc_value (LpUint7 n) = CInt (int n)"
| "lp_enc_value (LpStr6 s) = CStr s"
| "lp_enc_value (LpInt13 n) = CInt n"
| "lp_enc_value (LpStr12 s) = CStr s"
| "lp_enc_value (LpStr32 s) = CStr s"
| "lp_enc_value (LpInt w n) = CInt n"

definition lp_int_op :: "nat \<Rightarrow> u8" where
  "lp_int_op w = (if w = 2 then 0xF1 else if w = 3 then 0xF2 else if w = 4 then 0xF3 else 0xF4)"

fun lp_enc_bytes :: "lp_enc \<Rightarrow> bytes" where
  "lp_enc_bytes (LpUint7 n) = [as_u8 n]"
| "lp_enc_bytes (LpStr6 s) = as_u8 (128 + length s) # s"
| "lp_enc_bytes (LpInt13 n) =
     (let u = nat (n mod 2 ^ 13) in [as_u8 (192 + u div 256), as_u8 (u mod 256)])"
| "lp_enc_bytes (LpStr12 s) =
     as_u8 (224 + length s div 256) # as_u8 (length s mod 256) # s"
| "lp_enc_bytes (LpStr32 s) = 0xF0 # to_le 4 (length s) @ s"
| "lp_enc_bytes (LpInt w n) = lp_int_op w # int_le w n"

lemma lp_string_Ok_iff:
  "lp_string buf h len = Ok r \<longleftrightarrow>
     h + len \<le> usize_max \<and> h + len \<le> length buf \<and> r = (CStr (take len (drop h buf)), h + len)"
  by (auto simp: lp_string_def and_then_Ok_iff checked_add_Ok_iff ensure_len_Ok_iff slice_Ok_iff)

lemma lp_string_no_panic [simp]: "lp_string buf h len \<noteq> Panic"
  by (auto simp: lp_string_def and_then_Panic_iff checked_add_Ok_iff ensure_len_Ok_iff)

text \<open>The 13-bit raw value.\<close>

lemma raw13:
  "unat (ucast ((push_bit 8 (ucast (b0 AND 0x1F)) :: u16) OR ucast (b1 :: u8)) :: u64)
     = (unat (b0 :: u8) mod 32) * 256 + unat b1"
proof -
  have "unat ((push_bit 8 (ucast (b0 AND 0x1F)) :: u16) OR ucast b1)
      = push_bit 8 (unat b0 mod 32) OR unat b1"
    using unat_push_byte [where 'a = 16, of 8 "b0 AND 0x1F"]
    by (simp add: unsigned_or_eq unat_ucast_wider byte_lows)
  also have "\<dots> = (unat b0 mod 32) * 256 + unat b1"
    using push_bit_or_nat [of "unat b1" 8 "unat b0 mod 32"] by simp
  finally show ?thesis by (simp add: unat_ucast_wider)
qed

lemma uint7: "uint (b AND 0x7F) = int (unat (b :: u8) mod 128)"
  by (simp only: uint_nat byte_lows)

lemma tag_mods:
  "h < 64 \<Longrightarrow> (128 + h) mod 64 = (h :: nat)" "h < 32 \<Longrightarrow> (192 + h) mod 32 = (h :: nat)"
  "h < 16 \<Longrightarrow> (224 + h) mod 16 = (h :: nat)"
  using mod_mult_self1 [of h 2 64] mod_mult_self1 [of h 6 32] mod_mult_self1 [of h 14 16]
  by (simp_all add: add.commute)

lemma tag_eqs:
  "128 \<le> n \<Longrightarrow> n < 192 \<Longrightarrow> 128 + n mod 64 = (n :: nat)"
  "192 \<le> n \<Longrightarrow> n < 224 \<Longrightarrow> 192 + n mod 32 = (n :: nat)"
  "224 \<le> n \<Longrightarrow> n < 240 \<Longrightarrow> 224 + n mod 16 = (n :: nat)"
  using tag_mods(1) [of "n - 128"] tag_mods(2) [of "n - 192"] tag_mods(3) [of "n - 224"]
  by simp_all

lemma len12: "lo < 256 \<Longrightarrow> push_bit 8 x OR lo = x * 256 + (lo :: nat)"
  using push_bit_or_nat [of lo 8 x] by simp

section \<open>One entry\<close>

lemmas lp_decode_simps = lp_decode_entry_def byte_tops byte_lows Let_def raw13 len12 tag_mods

lemma lp_decode_entry_enc:
  assumes "lp_enc_ok w"
  shows "lp_decode_entry (lp_enc_bytes w @ rest) = Ok (lp_enc_value w, length (lp_enc_bytes w))"
proof (cases w)
  case (LpUint7 n)
  with assms show ?thesis by (simp add: lp_decode_simps uint7)
next
  case (LpStr6 s)
  with assms show ?thesis
    by (simp add: lp_decode_simps lp_string_Ok_iff usize_max_def)
next
  case (LpInt13 n)
  let ?u = "nat (n mod 2 ^ 13)"
  have u: "?u < 8192"
    by (simp add: nat_less_iff)
  then have d: "?u div 256 < 32" by auto
  moreover have "sign_extend (ucast ((push_bit 8 (ucast (as_u8 (192 + ?u div 256) AND 0x1F)) :: u16)
      OR ucast (as_u8 (?u mod 256)))) 13 = n"
    using assms LpInt13 u signed_of_mod [of 13 n]
    by (subst sign_extend_nat) (simp_all add: raw13 tag_mods(2) [OF d, simplified])
  ultimately show ?thesis
    using LpInt13 by (simp add: lp_decode_simps)
next
  case (LpStr12 s)
  with assms have "length s div 256 < 16" by auto
  with LpStr12 show ?thesis
    by (simp add: lp_decode_simps lp_string_Ok_iff usize_max_def)
next
  case (LpStr32 s)
  with assms show ?thesis
    by (simp add: lp_decode_simps lp_string_Ok_iff usize_max_def from_le_to_le unat_of_nat)
next
  case (LpInt k n)
  with assms show ?thesis
    by (auto simp: lp_decode_simps lp_int_op_def sint_from_le read_i24_le_eq
        signed_of_int_le [of 3, simplified])
qed

lemma lp_decode_entry_int:
  assumes "lp_decode_entry buf = Ok (e, n)" "240 < unat (buf ! 0)"
  obtains k where "k = 2 \<or> k = 3 \<or> k = 4 \<or> k = 8" "buf ! 0 = lp_int_op k" "Suc k \<le> length buf"
    "n = Suc k" "e = CInt (signed_of (8 * k) (le_nat (take k (drop 1 buf))))"
proof -
  have tops: "\<not> unat (buf ! 0) < 128" "\<not> unat (buf ! 0) < 192" "\<not> unat (buf ! 0) < 224"
    "\<not> unat (buf ! 0) < 240" "buf ! 0 \<noteq> 0xF0"
    using assms(2) by auto
  consider "buf ! 0 = 0xF1" | "buf ! 0 = 0xF2" | "buf ! 0 = 0xF3" | "buf ! 0 = 0xF4"
    using assms(1) tops
    by (auto simp: lp_decode_entry_def byte_tops split: if_splits)
  then show ?thesis
  proof cases
    case 1
    with assms(1) show ?thesis
      by (intro that [of 2]) (auto simp: lp_decode_entry_def lp_int_op_def and_then_Ok_iff
          ensure_len_Ok_iff sint_take [of 2, where 'a = 16] split: if_splits)
  next
    case 2
    with assms(1) show ?thesis
      by (intro that [of 3]) (auto simp: lp_decode_entry_def lp_int_op_def and_then_Ok_iff
          ensure_len_Ok_iff read_i24_le_eq split: if_splits)
  next
    case 3
    with assms(1) show ?thesis
      by (intro that [of 4]) (auto simp: lp_decode_entry_def lp_int_op_def and_then_Ok_iff
          ensure_len_Ok_iff sint_take [of 4, where 'a = 32] split: if_splits)
  next
    case 4
    with assms(1) show ?thesis
      by (intro that [of 8]) (auto simp: lp_decode_entry_def lp_int_op_def and_then_Ok_iff
          ensure_len_Ok_iff sint_take [of 8, where 'a = 64] split: if_splits)
  qed
qed

lemma lp_decode_entry_inv:
  assumes "lp_decode_entry buf = Ok (e, n)"
  obtains w where "lp_enc_ok w" "e = lp_enc_value w" "n = length (lp_enc_bytes w)"
    "n \<le> length buf" "take n buf = lp_enc_bytes w"
proof -
  let ?b = "unat (buf ! 0)" and ?c = "unat (buf ! 1)"
  have ne: "buf \<noteq> []"
    using assms by (auto simp: lp_decode_entry_def)
  have e: "lp_decode_entry buf = Ok (e, n)" by (fact assms)
  consider "?b < 128" | "128 \<le> ?b" "?b < 192" | "192 \<le> ?b" "?b < 224"
    | "224 \<le> ?b" "?b < 240" | "?b = 240" | "240 < ?b"
    by linarith
  then show ?thesis
  proof cases
    case 1
    with e ne have "n = 1" "e = CInt (int ?b)"
      by (simp_all add: lp_decode_simps uint7)
    with 1 ne show ?thesis
      by (intro that [of "LpUint7 ?b"]) (simp_all add: Cons_take_drop [of buf 0, simplified] Suc_le_eq)
  next
    case 2
    with e ne have r: "n = Suc (?b mod 64)" "n \<le> length buf" "e = CStr (take (?b mod 64) (drop 1 buf))"
      by (simp_all add: lp_decode_simps lp_string_Ok_iff)
    have "buf ! 0 = as_u8 (128 + ?b mod 64)"
      using tag_eqs(1) [OF 2] by (intro byte_eqI) simp_all
    moreover obtain s where s: "take (?b mod 64) (drop 1 buf) = s" "length s = ?b mod 64"
      using r(1,2) by simp
    ultimately show ?thesis
      using r ne by (intro that [of "LpStr6 s"]) (simp_all add: Cons_take_drop del: One_nat_def)
  next
    case 3
    let ?u = "?b mod 32 * 256 + ?c"
    have "?u < 8192"
      using unat_byte_less [of "buf ! 1"] mod_less_divisor [of 32 ?b] by linarith
    then have u: "?u < 2 ^ 13" "?u div 256 = ?b mod 32" "?u mod 256 = ?c"
      by simp_all
    from 3 e ne have r: "2 \<le> length buf" "n = 2" "e = CInt (signed_of 13 ?u)"
      using u by (auto simp: lp_decode_simps and_then_Ok_iff ensure_len_Ok_iff sign_extend_nat)
    have b0: "as_u8 (192 + ?b mod 32) = buf ! 0"
      using tag_eqs(2) [OF 3] by (intro as_u8_eqI) simp
    obtain v where v: "signed_of 13 ?u = v" "nat (v mod 2 ^ 13) = ?u"
      by (metis mod_signed_of [OF u(1)] nat_int)
    have "lp_enc_bytes (LpInt13 v) = [buf ! 0, buf ! 1]"
      unfolding lp_enc_bytes.simps Let_def v(2) u(2,3) b0 by simp
    moreover have "- 4096 \<le> v" "v < 4096"
      using signed_of_range [OF u(1)] unfolding v by simp_all
    moreover have "take n buf = [buf ! 0, buf ! 1]"
      using r(1,2) by (simp add: take_2_bytes [of buf 0, simplified] numeral_2_eq_2)
    ultimately show ?thesis
      using r(1,2) r(3) [unfolded v]
      by (intro that [of "LpInt13 v"]) (simp_all del: lp_enc_bytes.simps)
  next
    case 4
    let ?l = "?b mod 16 * 256 + ?c"
    have "?l < 4096"
      using unat_byte_less [of "buf ! 1"] mod_less_divisor [of 16 ?b] by linarith
    then have u: "?l < 4096" "?l div 256 = ?b mod 16" "?l mod 256 = ?c"
      by simp_all
    from 4 e ne have r: "2 \<le> length buf" "n = Suc (Suc ?l)" "n \<le> length buf"
      "e = CStr (take ?l (drop 2 buf))"
      by (auto simp: lp_decode_simps and_then_Ok_iff ensure_len_Ok_iff lp_string_Ok_iff)
    have "buf ! 0 = as_u8 (224 + ?b mod 16)"
      using tag_eqs(3) [OF 4] by (intro byte_eqI) simp_all
    moreover obtain s where s: "take ?l (drop 2 buf) = s" "length s = ?l"
      using r(2,3) by simp
    ultimately show ?thesis
      using r u by (intro that [of "LpStr12 s"]) (simp_all add: take_2_bytes del: One_nat_def)
  next
    case 5
    let ?t = "take 4 (drop 1 buf)" let ?l = "le_nat ?t"
    from 5 have b0: "buf ! 0 = 0xF0" by (simp add: byte_eq_iff)
    with e ne have five: "5 \<le> length buf"
      by (auto simp: lp_decode_simps and_then_Ok_iff ensure_len_Ok_iff)
    then have l: "unat (from_le ?t :: u32) = ?l" "?l < 2 ^ 32" "length ?t = 4"
      using le_nat_less [of ?t] by (simp_all add: unat_from_le)
    with b0 e ne five have r: "n = 5 + ?l" "n \<le> length buf" "e = CStr (take ?l (drop 5 buf))"
      by (simp_all add: lp_decode_simps lp_string_Ok_iff)
    have "take n buf = buf ! 0 # ?t @ take ?l (drop 5 buf)"
      using five ne by (simp add: r(1) take_add Cons_take_drop [of buf 4, simplified])
    moreover have "to_le 4 ?l = ?t"
      using to_le_le_nat [of ?t] l(3) by simp
    moreover have "length (take ?l (drop 5 buf)) = ?l"
      using r(1,2) by simp
    ultimately show ?thesis
      using r b0 l(2) by (intro that [of "LpStr32 (take ?l (drop 5 buf))"]) simp_all
  next
    case 6
    then obtain k where k: "k = 2 \<or> k = 3 \<or> k = 4 \<or> k = 8" "buf ! 0 = lp_int_op k"
      "Suc k \<le> length buf" "n = Suc k" "e = CInt (signed_of (8 * k) (le_nat (take k (drop 1 buf))))"
      using lp_decode_entry_int [OF e] by blast
    let ?t = "take k (drop 1 buf)"
    have "length ?t = k" using k(3) by simp
    then have "int_le k (signed_of (8 * k) (le_nat ?t)) = ?t"
      "- (256 ^ k) \<le> 2 * signed_of (8 * k) (le_nat ?t)"
      "2 * signed_of (8 * k) (le_nat ?t) < 256 ^ k"
      using int_le_signed_of [of ?t] signed_of_le_range [of ?t] by simp_all
    with k ne show ?thesis
      by (intro that [of "LpInt k (signed_of (8 * k) (le_nat ?t))"])
        (simp_all add: Cons_take_drop)
  qed
qed

lemma lp_decode_entry_no_panic [no_panic, simp]: "lp_decode_entry buf \<noteq> Panic"
  by (auto simp: lp_decode_entry_def and_then_Panic_iff ensure_len_Ok_iff Let_def)

section \<open>Back lengths\<close>

text \<open>Seven bits per byte, least significant group first.\<close>

fun le128 :: "bytes \<Rightarrow> nat" where
  "le128 [] = 0"
| "le128 (b # bs) = unat b mod 128 + 128 * le128 bs"

text \<open>
  The width the server gives a back length: its number of septets, but one more for a number
  of two or more septets that are all ones (the server compares with \<open><\<close> there), and never
  more than five.
\<close>

fun septets :: "nat \<Rightarrow> nat" where
  "septets n = (if n < 128 then 1 else Suc (septets (n div 128)))"

declare septets.simps [simp del]

definition server_backlen :: "nat \<Rightarrow> nat" where
  "server_backlen n = (if n < 128 then 1 else min 5 (septets (n + 1)))"

definition backlen_ok :: "bytes \<Rightarrow> nat \<Rightarrow> bool" where
  "backlen_ok bl n \<longleftrightarrow> length bl = server_backlen n \<and> unat (hd bl) < 128 \<and> le128 (rev bl) = n"

lemma septets_bound: "septets n \<le> Suc k \<longleftrightarrow> n < 128 ^ Suc k"
proof (induction k arbitrary: n)
  case 0
  have "0 < septets (n div 128)" by (subst septets.simps) simp
  then show ?case by (subst septets.simps) simp
next
  case (Suc k)
  have "n div 128 < 128 ^ Suc k \<longleftrightarrow> n < 128 ^ Suc k * 128"
    by (rule div_less_iff_less_mult) simp
  moreover have "n < 128 ^ Suc k * 128" if "n < 128"
    using that less_le_trans [of n 128 "128 ^ Suc k * 128"] by simp
  ultimately show ?case
    using Suc [of "n div 128"] by (subst septets.simps) (simp add: mult.commute)
qed

lemma backlen_size_server: "backlen_size n = server_backlen n"
  using septets_bound [of "n + 1" 0] septets_bound [of "n + 1" 1] septets_bound [of "n + 1" 2]
    septets_bound [of "n + 1" 3]
  by (auto simp: server_backlen_def backlen_size_def)

lemma backlen_ok_iff:
  "backlen_ok bl n \<longleftrightarrow> length bl = backlen_size n \<and> unat (hd bl) < 128 \<and> le128 (rev bl) = n"
  by (simp add: backlen_ok_def backlen_size_server)

lemma or_septet:
  fixes val :: u64 and b :: u8
  assumes "unat val < 2 ^ k" "k + 7 \<le> 56"
  shows "unat (val OR push_bit k (ucast (b AND 0x7F))) = unat val + 2 ^ k * (unat b mod 128)"
    "unat (val OR push_bit k (ucast (b AND 0x7F))) < 2 ^ (k + 7)"
proof -
  have "unat (push_bit k (ucast (b AND 0x7F)) :: u64) = push_bit k (unat b mod 128)"
    using assms(2) by (simp add: unat_push_byte byte_lows)
  then show "unat (val OR push_bit k (ucast (b AND 0x7F))) = unat val + 2 ^ k * (unat b mod 128)"
    using push_bit_or_nat [OF assms(1), of "unat b mod 128"] by (simp add: unsigned_or_eq or.commute)
  moreover have "2 ^ k * (unat b mod 128) \<le> 2 ^ k * (127 :: nat)"
    using mod_less_divisor [of 128 "unat b"] by (intro mult_le_mono2) linarith
  moreover have "(2 :: nat) ^ (k + 7) = 2 ^ k * 127 + 2 ^ k"
    by (simp add: power_add)
  ultimately show "unat (val OR push_bit k (ucast (b AND 0x7F))) < 2 ^ (k + 7)"
    using assms(1) by linarith
qed

lemma backlen_loop_eq:
  "unat val < 2 ^ (7 * k) \<Longrightarrow> k + length bs \<le> 5 \<Longrightarrow>
   \<exists>w. backlen_loop bs val (7 * k) = Ok w \<and> unat w = unat val + 2 ^ (7 * k) * le128 bs"
proof (induction bs arbitrary: val k)
  case (Cons b bs)
  let ?val = "val OR push_bit (7 * k) (ucast (b AND 0x7F))"
  have k: "7 * k + 7 \<le> 56" "\<not> 28 < 7 * k" "7 * k + 7 = 7 * Suc k"
    using Cons.prems(2) by simp_all
  obtain w where "backlen_loop bs ?val (7 * Suc k) = Ok w"
    "unat w = unat ?val + 2 ^ (7 * Suc k) * le128 bs"
    using Cons.IH [of ?val "Suc k"] or_septet(2) [OF Cons.prems(1) k(1)] Cons.prems(2) k(3) by auto
  then have "backlen_loop (b # bs) val (7 * k) = Ok w"
    "unat w = unat val + 2 ^ (7 * k) * (unat b mod 128) + 2 ^ (7 * k) * 128 * le128 bs"
    using k by (simp_all add: or_septet(1) [OF Cons.prems(1) k(1)] power_add add.commute flip: k(3))
  then show ?case
    by (simp add: distrib_left del: backlen_loop.simps)
qed simp

lemma decode_backlen_eq:
  assumes "bl \<noteq> []" "length bl \<le> 5"
  shows "decode_backlen bl = (if unat (hd bl) < 128 then Ok (le128 (rev bl))
    else Err (CorruptData ''listpack backlen: first byte missing terminator bit''))"
  using backlen_loop_eq [of 0 0 "rev bl"] assms
  by (auto simp: decode_backlen_def hd_conv_nth byte_tops)

lemma backlen_size_range: "1 \<le> backlen_size n" "backlen_size n \<le> 5"
  by (simp_all add: backlen_size_def)

lemma decode_backlen_ok_iff:
  "length bl = backlen_size n \<Longrightarrow> decode_backlen bl = Ok n \<longleftrightarrow> backlen_ok bl n"
  using backlen_size_range [of n] by (subst decode_backlen_eq) (auto simp: backlen_ok_iff)

lemma decode_backlen_no_panic [simp]: "length bl \<le> 5 \<Longrightarrow> decode_backlen bl \<noteq> Panic"
  by (cases "bl = []") (simp_all add: decode_backlen_eq, simp add: decode_backlen_def)

text \<open>The back length Valkey writes: every byte but the first has its top bit set.\<close>

definition encode_backlen :: "nat \<Rightarrow> bytes" where
  "encode_backlen n =
     (let k = backlen_size n - 1 in
      as_u8 (n div 128 ^ k) # map (\<lambda>i. as_u8 (128 + n div 128 ^ i mod 128)) (rev [0..<k]))"

lemma le128_append: "le128 (xs @ ys) = le128 xs + 128 ^ length xs * le128 ys"
  by (induction xs) (simp_all add: algebra_simps)

lemma le128_septets:
  "le128 (map (\<lambda>i. as_u8 (128 + n div 128 ^ i mod 128)) [0..<k]) = n mod 128 ^ k"
proof (induction k)
  case (Suc k)
  have "unat (as_u8 (128 + n div 128 ^ k mod 128)) mod 128 = n div 128 ^ k mod 128"
    using mod_less_divisor [of 128 "n div 128 ^ k"] by simp
  with Suc show ?case
    by (simp add: le128_append mod_mult2_eq mult.commute [of 128])
qed simp

lemma backlen_size_fits: "n < 2 ^ 35 \<Longrightarrow> n < 128 ^ backlen_size n"
  by (auto simp: backlen_size_def)

lemma encode_backlen_ok: "n < 2 ^ 35 \<Longrightarrow> backlen_ok (encode_backlen n) n"
proof -
  assume n: "n < 2 ^ 35"
  obtain k where k: "backlen_size n = Suc k"
    using backlen_size_range(1) [of n] by (cases "backlen_size n") auto
  have d: "n div 128 ^ k < 128"
    using backlen_size_fits [OF n] k by (simp add: less_mult_imp_div_less mult.commute)
  have "le128 (rev (encode_backlen n)) = n mod 128 ^ k + 128 ^ k * (n div 128 ^ k)"
    using d by (simp add: encode_backlen_def k Let_def le128_append le128_septets rev_map)
  with d k show ?thesis
    by (simp add: backlen_ok_iff encode_backlen_def)
qed

section \<open>The walk, through the interface\<close>

definition lp_wire_ok :: "lp_enc \<times> bytes \<Rightarrow> bool" where
  "lp_wire_ok w \<longleftrightarrow> lp_enc_ok (fst w) \<and> backlen_ok (snd w) (length (lp_enc_bytes (fst w)))"

definition lp_wire_bytes :: "lp_enc \<times> bytes \<Rightarrow> bytes" where
  "lp_wire_bytes w = lp_enc_bytes (fst w) @ snd w"

definition lp_wire_value :: "lp_enc \<times> bytes \<Rightarrow> compact_entry" where
  "lp_wire_value w = lp_enc_value (fst w)"

definition lp_tail_ok :: "bytes \<Rightarrow> bool" where
  "lp_tail_ok t \<longleftrightarrow> t = [0xFF]"

lemma lp_tail_ok_iff: "lp_tail_ok t \<longleftrightarrow> t = [LP_EOF]"
  by (simp add: lp_tail_ok_def LP_EOF_def)

lemma lp_enc_bytes_nonempty [simp]: "lp_enc_bytes w \<noteq> []"
  by (cases w) (simp_all add: Let_def)

lemma hd_lp_enc_bytes: "lp_enc_ok w \<Longrightarrow> hd (lp_enc_bytes w) \<noteq> LP_EOF"
proof (cases w)
  case (LpInt13 n)
  have "nat (n mod 2 ^ 13) < 8192" by (simp add: nat_less_iff)
  then have "nat (n mod 2 ^ 13) div 256 < 32" by auto
  with LpInt13 show ?thesis by (simp add: Let_def byte_eq_iff LP_EOF_def)
next
  case (LpStr12 s)
  assume "lp_enc_ok w"
  with LpStr12 have "length s div 256 < 16" by auto
  with LpStr12 show ?thesis by (simp add: byte_eq_iff LP_EOF_def)
qed (auto simp: byte_eq_iff LP_EOF_def lp_int_op_def)

lemma lp_step_no_panic: "lp_step data pos \<noteq> Panic"
  using backlen_size_range
  by (auto simp: lp_step_def Let_def and_then_Panic_iff split: if_splits)

lemma lp_step_end: "lp_tail_ok (drop pos data) \<Longrightarrow> lp_step data pos = Ok None"
proof -
  assume "lp_tail_ok (drop pos data)"
  then have d: "drop pos data = [LP_EOF]" by (simp add: lp_tail_ok_iff)
  then have "length data - pos = 1" by (metis length_drop length_Cons list.size(3) One_nat_def)
  moreover from this d have "data ! pos = LP_EOF"
    by (metis hd_drop_conv_nth list.sel(1) zero_less_diff zero_less_one)
  moreover from calculation(1) have "pos = length data - 1" "pos < length data"
    by simp_all
  ultimately show ?thesis
    by (simp add: lp_step_def)
qed

lemma lp_step_end_inv: "lp_step data pos = Ok None \<Longrightarrow> lp_tail_ok (drop pos data)"
proof -
  assume "lp_step data pos = Ok None"
  then have "data ! pos = LP_EOF" "Suc pos = length data"
    by (auto simp: lp_step_def Let_def and_then_Ok_iff split: if_splits)
  then show ?thesis
    using Cons_nth_drop_Suc [of pos data] by (simp add: lp_tail_ok_iff)
qed

lemma lp_step_entry:
  assumes "length data < 2 ^ 32" "lp_wire_ok w" "drop pos data = lp_wire_bytes w @ rest"
  shows "lp_step data pos = Ok (Some (lp_wire_value w, pos + length (lp_wire_bytes w)))"
proof -
  obtain e bl where w: "w = (e, bl)" by fastforce
  let ?b = "lp_enc_bytes e"
  have ok: "lp_enc_ok e" "backlen_ok bl (length ?b)" and d: "drop pos data = ?b @ bl @ rest"
    using assms by (simp_all add: w lp_wire_ok_def lp_wire_bytes_def)
  have bl: "length bl = backlen_size (length ?b)"
    using ok(2) by (simp add: backlen_ok_iff)
  have len: "pos + length ?b + length bl \<le> length data" "pos < length data"
    using arg_cong [OF d, of length] by (cases ?b; simp)+
  have "data ! pos = hd ?b"
    using d len(2) by (metis hd_append2 hd_drop_conv_nth lp_enc_bytes_nonempty)
  then have "data ! pos \<noteq> LP_EOF"
    using hd_lp_enc_bytes [OF ok(1)] by simp
  moreover have "lp_decode_entry (drop pos data) = Ok (lp_enc_value e, length ?b)"
    using lp_decode_entry_enc [OF ok(1), of "bl @ rest"] by (simp add: d)
  moreover have "take (length bl) (drop (pos + length ?b) data) = bl"
    using d by (metis add.commute append_eq_conv_conj drop_drop)
  moreover have "decode_backlen bl = Ok (length ?b)"
    using decode_backlen_ok_iff [OF bl] ok(2) by simp
  ultimately show ?thesis
    using len assms(1) bl
    by (simp add: lp_step_def w lp_wire_bytes_def lp_wire_value_def usize_max_def Let_def)
qed

lemma lp_step_entry_inv:
  assumes "lp_step data pos = Ok (Some (e, pos'))"
  shows "\<exists>w. lp_wire_ok w \<and> e = lp_wire_value w \<and> pos' = pos + length (lp_wire_bytes w) \<and>
    drop pos data = lp_wire_bytes w @ drop pos' data"
proof -
  from assms obtain n where n: "lp_decode_entry (drop pos data) = Ok (e, n)"
    "pos' = pos + n + backlen_size n" "pos' \<le> length data"
    "decode_backlen (take (backlen_size n) (drop (pos + n) data)) = Ok n"
    by (auto simp: lp_step_def Let_def and_then_Ok_iff slice_Ok_iff split: if_splits)
  obtain v where v: "lp_enc_ok v" "e = lp_enc_value v" "n = length (lp_enc_bytes v)"
    "take n (drop pos data) = lp_enc_bytes v"
    by (rule lp_decode_entry_inv [OF n(1)])
  let ?bl = "take (backlen_size n) (drop (pos + n) data)"
  have bl: "length ?bl = backlen_size n"
    using n(2,3) by simp
  then have "backlen_ok ?bl n"
    using n(4) decode_backlen_ok_iff by blast
  moreover have "drop pos data = take n (drop pos data) @ ?bl @ drop pos' data"
    by (simp add: n(2) add.commute flip: drop_drop)
  ultimately show ?thesis
    using v bl n(2) by (intro exI [of _ "(v, ?bl)"])
      (simp add: lp_wire_ok_def lp_wire_value_def lp_wire_bytes_def)
qed

interpretation lp: compact_codec lp_step lp_walk lp_wire_ok lp_wire_bytes lp_wire_value lp_tail_ok
proof
  show "lp_wire_ok w \<Longrightarrow> lp_wire_bytes w \<noteq> []" for w
    by (simp add: lp_wire_bytes_def)
qed (fact lp_walk.simps lp_step_end lp_step_end_inv lp_step_entry lp_step_entry_inv lp_step_no_panic)+

section \<open>The whole blob\<close>

definition lp_blob :: "(lp_enc \<times> bytes) list \<Rightarrow> bytes \<Rightarrow> bytes" where
  "lp_blob ws count =
     (let body = concat (map lp_wire_bytes ws) in
      to_le 4 (6 + length body + 1) @ count @ body @ [0xFF])"

lemma lp_blob_eq:
  "lp_blob ws count =
     (let body = concat (map lp_wire_bytes ws) in
      to_le 4 (LP_HDR_SIZE + length body + 1) @ count @ body @ [LP_EOF])"
  by (simp add: lp_blob_def LP_HDR_SIZE_def LP_EOF_def)

lemma lp_decode_blob:
  assumes "length (lp_blob ws count) < 2 ^ 32" "list_all lp_wire_ok ws" "length count = 2"
  shows "lp_decode (lp_blob ws count) = Ok (map lp_wire_value ws)"
proof -
  let ?body = "concat (map lp_wire_bytes ws)" and ?data = "lp_blob ws count"
  have d: "take 4 ?data = to_le 4 (length ?data)" "length ?data = 7 + length ?body"
    "drop 6 ?data = ?body @ [LP_EOF]"
    by (simp_all add: assms(3) lp_blob_eq Let_def LP_HDR_SIZE_def)
  have "lp_walk ?data 6 = Ok (map lp_wire_value ws)"
    using lp.walk_wires [OF assms(1,2) _ d(3)] by (simp add: lp_tail_ok_iff)
  moreover have "unat (from_le (take 4 ?data) :: u32) = length ?data"
    unfolding d(1) using assms(1) by (simp add: from_le_to_le unat_of_nat)
  ultimately show ?thesis
    using d(2) by (simp add: lp_decode_def LP_HDR_SIZE_def)
qed

lemma lp_decode_inv:
  assumes "lp_decode data = Ok es"
  obtains ws count where "list_all lp_wire_ok ws" "length count = 2" "data = lp_blob ws count"
    "es = map lp_wire_value ws" "length data < 2 ^ 32"
proof -
  from assms have len: "7 \<le> length data" "unat (from_le (take 4 data) :: u32) = length data"
    and w: "lp_walk data 6 = Ok es"
    by (auto simp: lp_decode_def and_then_Ok_iff LP_HDR_SIZE_def split: if_splits)
  have t: "to_le 4 (length data) = take 4 data"
    using to_le_le_nat [of "take 4 data"] len by (simp add: unat_from_le)
  from lp.walk_inv [OF w] obtain ws where ws: "list_all lp_wire_ok ws" "es = map lp_wire_value ws"
    "drop 6 data = concat (map lp_wire_bytes ws) @ [LP_EOF]"
    by (auto simp: lp_tail_ok_iff)
  have "take 2 (drop 4 data) @ drop 6 data = drop 4 data"
    using append_take_drop_id [of 2 "drop 4 data"] by simp
  then have "data = take 4 data @ take 2 (drop 4 data) @ drop 6 data"
    using append_take_drop_id [of 4 data] by (simp only:)
  moreover have "length data = LP_HDR_SIZE + length (concat (map lp_wire_bytes ws)) + 1"
    using arg_cong [OF ws(3), of length] len(1) by (simp add: LP_HDR_SIZE_def)
  ultimately have "data = lp_blob ws (take 2 (drop 4 data))"
    using t by (simp only: lp_blob_eq Let_def ws(3))
  moreover have "length data < 2 ^ 32"
    using len(2) unsigned_less [of "from_le (take 4 data) :: u32", where ?'a = nat] by simp
  moreover have "length (take 2 (drop 4 data)) = 2"
    using len(1) by simp
  ultimately show ?thesis
    using that ws by blast
qed

text \<open>
  C12. The listpack decoder accepts exactly the format: it returns entries if and only if the
  blob is a header whose total-bytes field is the blob's own length (and any two count
  bytes), then the entries one after the other, each in one of the ten encodings and
  followed by its back length in the server's width, then one end byte with nothing after
  it.  The result is the values of those entries, in order.
\<close>

theorem lp_decode_iff:
  "lp_decode data = Ok es \<longleftrightarrow>
     length data < 2 ^ 32 \<and>
     (\<exists>ws count. list_all lp_wire_ok ws \<and> length count = 2 \<and> data = lp_blob ws count \<and>
        es = map lp_wire_value ws)"
  by (auto intro: lp_decode_blob elim!: lp_decode_inv)

text \<open>Every sequence of encodings can be written with the server's own back lengths.\<close>

definition lp_encode :: "lp_enc list \<Rightarrow> bytes" where
  "lp_encode encs =
     lp_blob (map (\<lambda>e. (e, encode_backlen (length (lp_enc_bytes e)))) encs) [0xFF, 0xFF]"

lemma lp_decode_encode:
  assumes "list_all lp_enc_ok encs" "length (lp_encode encs) < 2 ^ 32"
  shows "lp_decode (lp_encode encs) = Ok (map lp_enc_value encs)"
proof -
  let ?ws = "map (\<lambda>e. (e, encode_backlen (length (lp_enc_bytes e)))) encs"
  have "length (lp_wire_bytes w) \<le> length (concat (map lp_wire_bytes ?ws))" if "w \<in> set ?ws" for w
    using that by (auto dest!: split_list)
  moreover have "length (concat (map lp_wire_bytes ?ws)) < 2 ^ 32"
    using assms(2) by (simp add: lp_encode_def lp_blob_eq Let_def)
  ultimately have "length (lp_enc_bytes e) < 2 ^ 35" if "e \<in> set encs" for e
    using that by (fastforce simp: lp_wire_bytes_def)
  then have "list_all lp_wire_ok ?ws"
    using assms(1) by (auto simp: list_all_iff lp_wire_ok_def encode_backlen_ok)
  then show ?thesis
    using lp_decode_blob [of ?ws "[0xFF, 0xFF]"] assms(2)
    by (simp add: lp_encode_def lp_wire_value_def comp_def)
qed

lemma lp_decode_no_panic [no_panic, simp]: "lp_decode data \<noteq> Panic"
  by (simp add: lp_decode_def LP_HDR_SIZE_def and_then_Panic_iff lp.walk_no_panic)

lemma lp_decode_length: "lp_decode data = Ok es \<Longrightarrow> length es + 6 \<le> length data"
  using lp.walk_length [of data 6 es]
  by (auto simp: lp_decode_def and_then_Ok_iff LP_HDR_SIZE_def split: if_splits)

end

