(* ===== verification/Stream_Lp.thy ===== *)
theory Stream_Lp
  imports Listpack
begin

text \<open>
  \<open>crates/rdb-parser/src/stream.rs\<close>: one stream listpack.  The blob is decoded by
  \<open>lp_decode\<close>; its entries are then read by position as a header (count, deleted, master
  fields, a zero) and \<open>count + deleted\<close> records whose IDs are deltas from the master ID.
  The theorems: the records of a well-formed listpack are returned in order without the
  deleted ones; the caller's budget is never exceeded; decoding never panics.
\<close>

section \<open>The code\<close>

definition MAX_STREAM_ENTRIES :: usize where "MAX_STREAM_ENTRIES = 5000000"

definition lp_u64 :: "compact_entry \<Rightarrow> u64 parsed" where
  "lp_u64 entry = (case entry of
      CInt n \<Rightarrow> if n \<ge> 0 then Ok (word_of_int n)
                else Err (CorruptData ''stream {ctx}: expected non-negative integer, got {n}'')
    | CStr s \<Rightarrow> Err (CorruptData ''stream {ctx}: expected integer''))"

definition lp_usize :: "compact_entry \<Rightarrow> usize parsed" where
  "lp_usize entry = and_then (lp_u64 entry) (\<lambda>v.
     if unat v \<le> usize_max then Ok (unat v)
     else Err (CorruptData ''stream {ctx}: value {v} overflows usize''))"

definition lp_u32 :: "compact_entry \<Rightarrow> u32 parsed" where
  "lp_u32 entry = and_then (lp_u64 entry) (\<lambda>v.
     if unat v < 2 ^ 32 then Ok (ucast v)
     else Err (CorruptData ''stream {ctx}: value {v} overflows u32''))"

text \<open>The first loop: \<open>n\<close> master fields from \<open>pos\<close>.\<close>

fun master_fields :: "compact_entry list \<Rightarrow> nat \<Rightarrow> usize \<Rightarrow> (bytes list \<times> usize) parsed" where
  "master_fields es 0 pos = Ok ([], pos)"
| "master_fields es (Suc n) pos =
     (if pos \<ge> length es then Err (CorruptData ''stream: truncated master fields'')
      else and_then (idx es pos) (\<lambda>e.
        and_then (master_fields es n (pos + 1)) (\<lambda>(fs, pos). Ok (into_bytes e # fs, pos))))"

text \<open>The values of a SAMEFIELDS record, one per master field.\<close>

fun same_fields :: "compact_entry list \<Rightarrow> bytes list \<Rightarrow> usize \<Rightarrow>
  ((bytes \<times> bytes) list \<times> usize) parsed" where
  "same_fields es [] pos = Ok ([], pos)"
| "same_fields es (mf # mfs) pos =
     (if pos \<ge> length es then Err (CorruptData ''stream: truncated SAMEFIELDS entry'')
      else and_then (idx es pos) (\<lambda>v.
        and_then (same_fields es mfs (pos + 1)) (\<lambda>(fv, pos). Ok ((mf, into_bytes v) # fv, pos))))"

text \<open>The explicit field-value pairs of a record.\<close>

fun own_fields :: "compact_entry list \<Rightarrow> nat \<Rightarrow> usize \<Rightarrow>
  ((bytes \<times> bytes) list \<times> usize) parsed" where
  "own_fields es 0 pos = Ok ([], pos)"
| "own_fields es (Suc n) pos =
     (if pos + 1 \<ge> length es then Err (CorruptData ''stream: truncated field-value pair'')
      else and_then (idx es pos) (\<lambda>f. and_then (idx es (pos + 1)) (\<lambda>v.
        and_then (own_fields es n (pos + 2))
          (\<lambda>(fv, pos). Ok ((into_bytes f, into_bytes v) # fv, pos)))))"

text \<open>\<open>format!("{ms}-{seq}")\<close>\<close>

definition stream_id :: "u64 \<Rightarrow> u64 \<Rightarrow> bytes" where
  "stream_id ms seq = dec_nat (unat ms) @ str_bytes ''-'' @ dec_nat (unat seq)"

definition checked_add_u64 :: "u64 \<Rightarrow> u64 \<Rightarrow> u64 option" where
  "checked_add_u64 a b = (if unat a + unat b < 2 ^ 64 then Some (a + b) else None)"

text \<open>One record: whether it is deleted, the entry, and the position after it.\<close>

definition stream_record :: "u64 \<Rightarrow> u64 \<Rightarrow> compact_entry list \<Rightarrow> bytes list \<Rightarrow> usize \<Rightarrow>
  (bool \<times> stream_entry \<times> usize) parsed" where
  "stream_record master_ms master_seq es mfs pos =
     (if pos + 2 \<ge> length es then Err (CorruptData ''stream listpack truncated mid-entry'')
      else
        and_then (idx es pos) (\<lambda>e. and_then (lp_u32 e) (\<lambda>flags.
        and_then (idx es (pos + 1)) (\<lambda>e. and_then (lp_u64 e) (\<lambda>ms_delta.
        and_then (idx es (pos + 2)) (\<lambda>e. and_then (lp_u64 e) (\<lambda>seq_delta.
        let is_deleted = (flags AND 1 \<noteq> 0); same = (flags AND 2 \<noteq> 0); pos = pos + 3 in
        and_then (ok_or (CorruptData ''stream: ms overflow'') (checked_add_u64 master_ms ms_delta))
          (\<lambda>entry_ms.
        and_then (ok_or (CorruptData ''stream: seq overflow'') (checked_add_u64 master_seq seq_delta))
          (\<lambda>entry_seq.
        and_then
          (if same then same_fields es mfs pos
           else if pos \<ge> length es then
             Err (CorruptData ''stream: truncated entry num_fields'')
           else and_then (idx es pos) (\<lambda>e. and_then (lp_usize e) (\<lambda>nf.
             own_fields es nf (pos + 1))))
          (\<lambda>(field_values, pos).
        if pos \<ge> length es then Err (CorruptData ''stream: missing lp_count after entry'')
        else and_then (idx es pos) (\<lambda>e. and_then (lp_u64 e) (\<lambda>_.
          Ok (is_deleted,
              \<lparr>se_id = stream_id entry_ms entry_seq, se_fields = field_values\<rparr>,
              pos + 1)))))))))))))"

text \<open>The record loop, with the entries kept so far.\<close>

fun stream_records :: "u64 \<Rightarrow> u64 \<Rightarrow> compact_entry list \<Rightarrow> bytes list \<Rightarrow> usize \<Rightarrow> nat \<Rightarrow> usize \<Rightarrow>
  stream_entry list \<Rightarrow> (stream_entry list \<times> usize) parsed" where
  "stream_records ms seq es mfs budget 0 pos acc = Ok (acc, pos)"
| "stream_records ms seq es mfs budget (Suc n) pos acc =
     and_then (stream_record ms seq es mfs pos) (\<lambda>(deleted, e, pos).
     if deleted then stream_records ms seq es mfs budget n pos acc
     else if length acc \<ge> budget then
       Err (CorruptData ''stream exceeds {MAX_STREAM_ENTRIES} entry limit'')
     else stream_records ms seq es mfs budget n pos (acc @ [e]))"

definition decode_stream_entries :: "u64 \<Rightarrow> u64 \<Rightarrow> compact_entry list \<Rightarrow> usize \<Rightarrow>
  stream_entry list parsed" where
  "decode_stream_entries ms seq es budget =
     (if length es < 3 then Err (CorruptData ''stream listpack too short for header'')
      else
        and_then (idx es 0) (\<lambda>e. and_then (lp_u64 e) (\<lambda>count.
        and_then (idx es 1) (\<lambda>e. and_then (lp_u64 e) (\<lambda>deleted.
        and_then (idx es 2) (\<lambda>e. and_then (lp_usize e) (\<lambda>num_master_fields.
        and_then (master_fields es num_master_fields 3) (\<lambda>(mfs, pos).
        if pos \<ge> length es then
          Err (CorruptData ''stream: missing terminator after master fields'')
        else and_then (idx es pos) (\<lambda>t.
          if t \<noteq> CInt 0 then
            Err (CorruptData ''stream: expected zero terminator after master fields'')
          else
            let tot = min (unat count + unat deleted) (2 ^ 64 - 1) in
            and_then (stream_records ms seq es mfs budget tot (pos + 1) []) (\<lambda>(entries, pos).
            if pos \<noteq> length es then
              Err (CorruptData ''stream listpack has {} trailing entries beyond count+deleted header'')
            else Ok entries))))))))))"

definition decode_stream_listpack :: "u64 \<Rightarrow> u64 \<Rightarrow> bytes \<Rightarrow> usize \<Rightarrow> stream_entry list parsed" where
  "decode_stream_listpack ms seq lp_data budget =
     and_then (lp_decode lp_data) (\<lambda>es. decode_stream_entries ms seq es budget)"

section \<open>No panic, and the budget\<close>

lemma lp_ints_no_panic [no_panic, simp]:
  "lp_u64 e \<noteq> Panic" "lp_usize e \<noteq> Panic" "lp_u32 e \<noteq> Panic"
  by (auto simp: lp_u64_def lp_usize_def lp_u32_def and_then_Panic_iff split: compact_entry.splits)

lemma fields_no_panic [no_panic, simp]:
  "master_fields es n pos \<noteq> Panic" "same_fields es mfs pos \<noteq> Panic" "own_fields es n pos \<noteq> Panic"
proof -
  show "master_fields es n pos \<noteq> Panic"
    by (induction es n pos rule: master_fields.induct) (auto simp: and_then_Panic_iff)
  show "same_fields es mfs pos \<noteq> Panic"
    by (induction es mfs pos rule: same_fields.induct) (auto simp: and_then_Panic_iff)
  show "own_fields es n pos \<noteq> Panic"
    by (induction es n pos rule: own_fields.induct) (auto simp: and_then_Panic_iff)
qed

lemma stream_record_no_panic [no_panic, simp]: "stream_record ms seq es mfs pos \<noteq> Panic"
  by (auto simp: stream_record_def and_then_Panic_iff Let_def split: if_splits)

lemma stream_records_no_panic [no_panic, simp]:
  "stream_records ms seq es mfs budget n pos acc \<noteq> Panic"
  by (induction ms seq es mfs budget n pos acc rule: stream_records.induct)
    (auto simp: and_then_Panic_iff)

lemma decode_stream_listpack_no_panic [no_panic, simp]:
  "decode_stream_listpack ms seq data budget \<noteq> Panic"
  by (auto simp: decode_stream_listpack_def decode_stream_entries_def and_then_Panic_iff Let_def
      idx_def split: if_splits)

lemma stream_records_budget:
  "stream_records ms seq es mfs budget n pos acc = Ok (rs, pos') \<Longrightarrow> length acc \<le> budget \<Longrightarrow>
   length rs \<le> budget"
  by (induction ms seq es mfs budget n pos acc rule: stream_records.induct)
    (auto simp: and_then_Ok_iff split: if_splits)

lemma decode_stream_budget:
  "decode_stream_listpack ms seq data budget = Ok rs \<Longrightarrow> length rs \<le> budget"
  by (auto simp: decode_stream_listpack_def decode_stream_entries_def and_then_Ok_iff Let_def
      split: if_splits dest!: stream_records_budget)

section \<open>What a stream listpack holds\<close>

text \<open>
  The layout the server writes: a record is deleted or live, has the deltas of its ID, and
  either values for the master fields or field-value pairs of its own.
\<close>

datatype item_body =
    SameFields "compact_entry list"
  | OwnFields "(compact_entry \<times> compact_entry) list"

record stream_item =
  it_deleted :: bool
  it_ms :: nat
  it_seq :: nat
  it_body :: item_body
  it_count :: nat

definition item_flags :: "stream_item \<Rightarrow> int" where
  "item_flags it = (if it_deleted it then 1 else 0) +
     (case it_body it of SameFields _ \<Rightarrow> 2 | OwnFields _ \<Rightarrow> 0)"

definition body_layout :: "item_body \<Rightarrow> compact_entry list" where
  "body_layout b = (case b of
      SameFields vs \<Rightarrow> vs
    | OwnFields ps \<Rightarrow> CInt (int (length ps)) # concat (map (\<lambda>(f, v). [f, v]) ps))"

definition item_layout :: "stream_item \<Rightarrow> compact_entry list" where
  "item_layout it = [CInt (item_flags it), CInt (int (it_ms it)), CInt (int (it_seq it))] @
     body_layout (it_body it) @ [CInt (int (it_count it))]"

definition item_fields :: "bytes list \<Rightarrow> item_body \<Rightarrow> (bytes \<times> bytes) list" where
  "item_fields mfs b = (case b of
      SameFields vs \<Rightarrow> zip mfs (map into_bytes vs)
    | OwnFields ps \<Rightarrow> map (\<lambda>(f, v). (into_bytes f, into_bytes v)) ps)"

definition item_entry :: "u64 \<Rightarrow> u64 \<Rightarrow> bytes list \<Rightarrow> stream_item \<Rightarrow> stream_entry" where
  "item_entry ms seq mfs it =
     \<lparr>se_id = stream_id (ms + word_of_nat (it_ms it)) (seq + word_of_nat (it_seq it)),
      se_fields = item_fields mfs (it_body it)\<rparr>"

definition stream_item_ok :: "u64 \<Rightarrow> u64 \<Rightarrow> nat \<Rightarrow> stream_item \<Rightarrow> bool" where
  "stream_item_ok ms seq num it \<longleftrightarrow>
     it_ms it < 2 ^ 63 \<and> it_seq it < 2 ^ 63 \<and> it_count it < 2 ^ 63 \<and>
     unat ms + it_ms it < 2 ^ 64 \<and> unat seq + it_seq it < 2 ^ 64 \<and>
     (case it_body it of SameFields vs \<Rightarrow> length vs = num | OwnFields ps \<Rightarrow> length ps < 2 ^ 63)"

definition stream_layout :: "compact_entry list \<Rightarrow> stream_item list \<Rightarrow> compact_entry list" where
  "stream_layout mfs its =
     [CInt (int (length (filter (Not \<circ> it_deleted) its))),
      CInt (int (length (filter it_deleted its))), CInt (int (length mfs))] @
     mfs @ [CInt 0] @ concat (map item_layout its)"

section \<open>Reading a layout back\<close>

text \<open>Reading at a position is reading the head of what is left.\<close>

lemma drop_ConsD:
  assumes "drop pos xs = y # ys"
  shows "pos < length xs" "xs ! pos = y" "drop (Suc pos) xs = ys"
proof -
  show l: "pos < length xs"
    using assms by (metis drop_all leI list.distinct(1))
  show "xs ! pos = y" "drop (Suc pos) xs = ys"
    using assms l by (simp_all add: Cons_nth_drop_Suc [symmetric])
qed

lemma drop_appendD: "drop pos xs = ys @ zs \<Longrightarrow> drop (pos + length ys) xs = zs"
  by (metis add.commute append_eq_conv_conj drop_drop)

lemma lp_u64_int [simp]: "lp_u64 (CInt (int n)) = Ok (word_of_nat n)"
  by (simp add: lp_u64_def)

lemma lp_usize_int: "n < 2 ^ 64 \<Longrightarrow> lp_usize (CInt (int n)) = Ok n"
  by (simp add: lp_usize_def usize_max_def unat_of_nat)

lemma lp_u32_flags: "lp_u32 (CInt (item_flags it)) = Ok (word_of_int (item_flags it))"
  by (simp add: lp_u32_def lp_u64_def item_flags_def split: item_body.splits)

lemma master_fields_layout:
  "drop pos es = mfs @ rest \<Longrightarrow>
   master_fields es (length mfs) pos = Ok (map into_bytes mfs, pos + length mfs)"
proof (induction mfs arbitrary: pos)
  case (Cons mf mfs)
  then have d: "drop pos es = mf # mfs @ rest" by simp
  from drop_ConsD [OF d] Cons.IH [of "Suc pos"] show ?case by simp
qed simp

lemma same_fields_layout:
  "drop pos es = vs @ rest \<Longrightarrow> length vs = length mfs \<Longrightarrow>
   same_fields es mfs pos = Ok (zip mfs (map into_bytes vs), pos + length mfs)"
proof (induction mfs arbitrary: pos vs)
  case (Cons mf mfs)
  then obtain v ws where v: "vs = v # ws" by (cases vs) auto
  with Cons.prems have d: "drop pos es = v # ws @ rest" by simp
  from drop_ConsD [OF d] Cons.IH [of "Suc pos" ws] Cons.prems v show ?case by simp
qed simp

lemma own_fields_layout:
  "drop pos es = concat (map (\<lambda>(f, v). [f, v]) ps) @ rest \<Longrightarrow>
   own_fields es (length ps) pos =
     Ok (map (\<lambda>(f, v). (into_bytes f, into_bytes v)) ps, pos + 2 * length ps)"
proof (induction ps arbitrary: pos)
  case (Cons p ps)
  obtain f v where p: "p = (f, v)" by fastforce
  with Cons.prems have d: "drop pos es = f # v # concat (map (\<lambda>(f, v). [f, v]) ps) @ rest" by simp
  note d1 = drop_ConsD [OF d] and d2 = drop_ConsD [OF drop_ConsD(3) [OF d]]
  from d1 d2 Cons.IH [of "Suc (Suc pos)"] show ?case by (simp add: p)
qed simp

lemma length_concat_pairs [simp]: "length (concat (map (\<lambda>(f, v). [f, v]) ps)) = 2 * length ps"
  by (induction ps) auto

lemma flags_bits:
  "(word_of_int (item_flags it) :: u32) AND 1 \<noteq> 0 \<longleftrightarrow> it_deleted it"
  "(word_of_int (item_flags it) :: u32) AND 2 \<noteq> 0 \<longleftrightarrow> (\<exists>vs. it_body it = SameFields vs)"
  by (auto simp: item_flags_def split: item_body.splits)

lemma stream_record_layout:
  assumes "drop pos es = item_layout it @ rest" "stream_item_ok ms seq (length mfs) it"
  shows "stream_record ms seq es mfs pos =
    Ok (it_deleted it, item_entry ms seq mfs it, pos + length (item_layout it))"
proof -
  let ?body = "body_layout (it_body it)"
  have d: "drop pos es = CInt (item_flags it) # CInt (int (it_ms it)) # CInt (int (it_seq it)) #
      ?body @ CInt (int (it_count it)) # rest"
    using assms(1) by (simp add: item_layout_def)
  note d1 = drop_ConsD [OF d] note d2 = drop_ConsD [OF d1(3)] note d3 = drop_ConsD [OF d2(3)]
  have ids: "checked_add_u64 ms (word_of_nat (it_ms it)) = Some (ms + word_of_nat (it_ms it))"
    "checked_add_u64 seq (word_of_nat (it_seq it)) = Some (seq + word_of_nat (it_seq it))"
    using assms(2) by (simp_all add: stream_item_ok_def checked_add_u64_def unat_of_nat)
  have p3: "drop (pos + 3) es = ?body @ CInt (int (it_count it)) # rest"
    using d3(3) by (simp add: numeral_3_eq_3)
  note dc = drop_ConsD [OF drop_appendD [OF p3]]
  have body: "(if \<exists>vs. it_body it = SameFields vs then same_fields es mfs (pos + 3)
      else if pos + 3 \<ge> length es then Err (CorruptData ''stream: truncated entry num_fields'')
      else and_then (idx es (pos + 3)) (\<lambda>e. and_then (lp_usize e) (\<lambda>nf. own_fields es nf (pos + 3 + 1))))
    = Ok (item_fields mfs (it_body it), pos + 3 + length ?body)"
  proof (cases "it_body it")
    case (SameFields vs)
    with assms(2) p3 same_fields_layout [of "pos + 3" es vs _ mfs] show ?thesis
      by (simp add: stream_item_ok_def item_fields_def body_layout_def)
  next
    case (OwnFields ps)
    then have b: "drop (pos + 3) es = CInt (int (length ps)) #
        concat (map (\<lambda>(f, v). [f, v]) ps) @ CInt (int (it_count it)) # rest"
      using p3 by (simp add: body_layout_def)
    note b1 = drop_ConsD [OF b]
    have "length ps < 2 ^ 64"
      using OwnFields assms(2) by (simp add: stream_item_ok_def)
    then have "lp_usize (CInt (int (length ps))) = Ok (length ps)"
      by (rule lp_usize_int)
    moreover note own_fields_layout [OF b1(3)]
    ultimately show ?thesis
      using b1(1,2) OwnFields by (simp add: item_fields_def body_layout_def)
  qed
  show ?thesis
    unfolding stream_record_def Let_def
    using d1 d2 d3 dc ids
    by (simp add: lp_u32_flags flags_bits body [simplified] item_entry_def item_layout_def)
qed

lemma stream_records_layout:
  "drop pos es = concat (map item_layout its) @ rest \<Longrightarrow> list_all (stream_item_ok ms seq (length mfs)) its \<Longrightarrow>
   length acc + length (filter (Not \<circ> it_deleted) its) \<le> budget \<Longrightarrow>
   stream_records ms seq es mfs budget (length its) pos acc =
     Ok (acc @ map (item_entry ms seq mfs) (filter (Not \<circ> it_deleted) its),
         pos + length (concat (map item_layout its)))"
proof (induction its arbitrary: pos acc)
  case (Cons it its)
  have d: "drop pos es = item_layout it @ concat (map item_layout its) @ rest"
    using Cons.prems(1) by simp
  note r = stream_record_layout [OF d, of ms seq mfs]
  note d' = drop_appendD [OF d]
  show ?case
  proof (cases "it_deleted it")
    case True
    then show ?thesis
      using Cons.IH [OF d', of acc] Cons.prems(2,3) r by (simp add: add.assoc)
  next
    case False
    then show ?thesis
      using Cons.IH [OF d', of "acc @ [item_entry ms seq mfs it]"] Cons.prems(2,3) r
      by (simp add: add.assoc)
  qed
qed simp

lemma length_filter_split:
  "length (filter (Not \<circ> P) xs) + length (filter P xs) = length xs"
  by (induction xs) auto

lemma decode_stream_entries_layout:
  assumes "list_all (stream_item_ok ms seq (length mfs)) its" "length mfs < 2 ^ 63" "length its < 2 ^ 63"
    "length (filter (Not \<circ> it_deleted) its) \<le> budget"
  shows "decode_stream_entries ms seq (stream_layout mfs its) budget =
    Ok (map (item_entry ms seq (map into_bytes mfs)) (filter (Not \<circ> it_deleted) its))"
proof -
  let ?es = "stream_layout mfs its"
  let ?live = "length (filter (Not \<circ> it_deleted) its)" and ?dead = "length (filter it_deleted its)"
  have n: "?live + ?dead = length its"
    by (rule length_filter_split)
  have d3: "drop 3 ?es = mfs @ CInt 0 # concat (map item_layout its)"
    by (simp add: stream_layout_def numeral_3_eq_3)
  note dt = drop_ConsD [OF drop_appendD [OF d3]]
  have heads: "3 \<le> length ?es" "?es ! 0 = CInt (int ?live)" "?es ! 1 = CInt (int ?dead)"
    "?es ! 2 = CInt (int (length mfs))"
    by (simp_all add: stream_layout_def)
  have small: "?live < 2 ^ 64" "?dead < 2 ^ 64" "length mfs < 2 ^ 64" "length its < 2 ^ 64"
    using n assms(2,3) by simp_all
  have tot: "min (unat (word_of_nat ?live :: u64) + unat (word_of_nat ?dead :: u64)) (2 ^ 64 - 1)
      = length its"
    using small n by (simp add: unat_of_nat)
  have "stream_records ms seq ?es (map into_bytes mfs) budget (length its) (3 + length mfs + 1) []
      = Ok (map (item_entry ms seq (map into_bytes mfs)) (filter (Not \<circ> it_deleted) its),
          3 + length mfs + 1 + length (concat (map item_layout its)))"
    using stream_records_layout [of "3 + length mfs + 1" ?es its "[]" ms seq "map into_bytes mfs" "[]" budget]
      dt(3) assms(1,4) by simp
  moreover have "length ?es = 3 + length mfs + 1 + length (concat (map item_layout its))"
    by (simp add: stream_layout_def)
  ultimately show ?thesis
    unfolding decode_stream_entries_def Let_def
    using heads dt(1,2) master_fields_layout [OF d3] lp_usize_int [OF small(3)] tot
    by simp
qed

text \<open>
  C18. A stream listpack is read back exactly: when the decoded listpack entries are a header
  (live count, deleted count, master fields, zero) followed by records that are live or
  deleted and carry either values for the master fields or their own field-value pairs, the
  decoder returns the live records only, in order, each with its ID (the master ID plus the
  record's deltas) and its fields, provided the IDs fit 64 bits and the live records fit the
  caller's budget.
\<close>

theorem decode_stream_layout:
  assumes "lp_decode data = Ok (stream_layout mfs its)"
    "list_all (stream_item_ok ms seq (length mfs)) its" "length mfs < 2 ^ 63" "length its < 2 ^ 63"
    "length (filter (Not \<circ> it_deleted) its) \<le> budget"
  shows "decode_stream_listpack ms seq data budget =
    Ok (map (item_entry ms seq (map into_bytes mfs)) (filter (Not \<circ> it_deleted) its))"
  using assms decode_stream_entries_layout by (simp add: decode_stream_listpack_def)

text \<open>A listpack with one master field, one live and one deleted record.\<close>

definition sample_items :: "stream_item list" where
  "sample_items =
     [\<lparr>it_deleted = False, it_ms = 0, it_seq = 1, it_body = SameFields [CInt 7], it_count = 5\<rparr>,
      \<lparr>it_deleted = True, it_ms = 2, it_seq = 0, it_body = OwnFields [], it_count = 5\<rparr>]"

definition sample_encs :: "lp_enc list" where
  "sample_encs = [LpUint7 1, LpUint7 1, LpUint7 1, LpStr6 [0x66], LpUint7 0,
     LpUint7 2, LpUint7 0, LpUint7 1, LpUint7 7, LpUint7 5,
     LpUint7 1, LpUint7 2, LpUint7 0, LpUint7 0, LpUint7 5]"

lemma sample_decodes:
  "lp_decode (lp_encode sample_encs) = Ok (stream_layout [CStr [0x66]] sample_items)"
proof -
  have "length (lp_encode sample_encs) < 2 ^ 32"
    by (simp add: sample_encs_def lp_encode_def lp_blob_def lp_wire_bytes_def encode_backlen_def
        backlen_size_def Let_def LP_HDR_SIZE_def)
  then have "lp_decode (lp_encode sample_encs) = Ok (map lp_enc_value sample_encs)"
    by (intro lp_decode_encode) (simp_all add: sample_encs_def)
  then show ?thesis
    by (simp add: sample_encs_def sample_items_def stream_layout_def item_layout_def item_flags_def
        body_layout_def)
qed

theorem decode_stream_layout_witness:
  "decode_stream_listpack 1000 5 (lp_encode sample_encs) 10 =
     Ok [\<lparr>se_id = str_bytes ''1000-6'', se_fields = [([0x66], str_bytes ''7'')]\<rparr>]"
proof -
  have "decode_stream_listpack 1000 5 (lp_encode sample_encs) 10 =
      Ok (map (item_entry 1000 5 (map into_bytes [CStr [0x66]])) (filter (Not \<circ> it_deleted) sample_items))"
    by (rule decode_stream_layout [OF sample_decodes]) (simp_all add: sample_items_def stream_item_ok_def)
  also have "\<dots> = Ok [\<lparr>se_id = str_bytes ''1000-6'', se_fields = [([0x66], str_bytes ''7'')]\<rparr>]"
    by (simp add: sample_items_def item_entry_def item_fields_def stream_id_def into_bytes_def
        dec_int_def dec_nat.simps str_bytes_def)
  finally show ?thesis .
qed

end
