(* ===== verification/Ziplist.thy ===== *)
theory Ziplist
  imports Codec
begin

text \<open>
  \<open>crates/rdb-parser/src/ziplist.rs\<close>: the decoder of the legacy ziplist encoding.  The
  theorems mirror those of \<open>Listpack\<close>: the accepted blobs are exactly the wire format, and
  decoding never panics.  One difference is a result of the model: the walk stops at the
  first end byte, and whatever follows it in the blob is dropped without an error.
\<close>

section \<open>The code\<close>

definition ZL_HDR_SIZE :: usize where "ZL_HDR_SIZE = 10"
definition ZL_END :: u8 where "ZL_END = 0xFF"

abbreviation zl_checked_add :: "usize \<Rightarrow> usize \<Rightarrow> usize parsed" where
  "zl_checked_add a b \<equiv> checked_add a b ''ziplist''"

abbreviation zl_ensure_len :: "bytes \<Rightarrow> usize \<Rightarrow> unit parsed" where
  "zl_ensure_len buf need \<equiv> ensure_len buf need ''ziplist''"

text \<open>Parse the prevlen field: the bytes it takes and its value.\<close>

definition decode_prevlen :: "bytes \<Rightarrow> (usize \<times> u32) parsed" where
  "decode_prevlen buf =
     (if buf = [] then Err (CorruptData ''ziplist prevlen: empty'')
      else and_then (idx buf 0) (\<lambda>b0.
        if b0 = ZL_END then Err (CorruptData ''ziplist prevlen byte is 0xFF (end marker)'')
        else if b0 < 254 then Ok (1, ucast b0)
        else and_then (zl_ensure_len buf 5) (\<lambda>_. and_then (idxs buf 1 4) (\<lambda>l.
          Ok (5, from_le l)))))"

text \<open>An integer entry, from the encoding byte onward; \<open>(b & 0x0F) - 1\<close> is a \<open>u8\<close>.\<close>

definition decode_int_entry :: "bytes \<Rightarrow> (compact_entry \<times> usize) parsed" where
  "decode_int_entry buf =
     and_then (idx buf 0) (\<lambda>enc.
     if enc = 0xC0 then
       and_then (zl_ensure_len buf 3) (\<lambda>_. and_then (idxs buf 1 2) (\<lambda>v.
         Ok (CInt (sint (from_le v :: u16)), 3)))
     else if enc = 0xD0 then
       and_then (zl_ensure_len buf 5) (\<lambda>_. and_then (idxs buf 1 4) (\<lambda>v.
         Ok (CInt (sint (from_le v :: u32)), 5)))
     else if enc = 0xE0 then
       and_then (zl_ensure_len buf 9) (\<lambda>_. and_then (idxs buf 1 8) (\<lambda>v.
         Ok (CInt (sint (from_le v :: u64)), 9)))
     else if enc = 0xF0 then
       and_then (zl_ensure_len buf 4) (\<lambda>_. and_then (read_i24_le buf 1) (\<lambda>v. Ok (CInt v, 4)))
     else if enc = 0xFE then
       and_then (zl_ensure_len buf 2) (\<lambda>_. and_then (idx buf 1) (\<lambda>b. Ok (CInt (sint b), 2)))
     else if 0xF1 \<le> enc \<and> enc \<le> 0xFD then
       (if enc AND 0x0F = 0 then Panic else Ok (CInt (uint ((enc AND 0x0F) - 1)), 1))
     else Err (CorruptData ''ziplist unknown integer encoding 0x{:02x}''))"

text \<open>A string of \<open>len\<close> bytes after a header of \<open>h\<close> bytes: the shared tail of three arms.\<close>

definition zl_string :: "bytes \<Rightarrow> usize \<Rightarrow> usize \<Rightarrow> (compact_entry \<times> usize) parsed" where
  "zl_string buf h len =
     and_then (zl_checked_add h len) (\<lambda>tot.
     and_then (zl_ensure_len buf tot) (\<lambda>_.
     and_then (slice buf h tot) (\<lambda>s. Ok (CStr s, tot))))"

text \<open>The encoding and data of an entry, after its prevlen field.\<close>

definition zl_decode_body :: "bytes \<Rightarrow> (compact_entry \<times> usize) parsed" where
  "zl_decode_body rest =
     and_then (idx rest 0) (\<lambda>enc.
     let top2 = drop_bit 6 enc in
     if top2 = 0 then zl_string rest 1 (unat (enc AND 0x3F))
     else if top2 = 1 then
       and_then (zl_ensure_len rest 2) (\<lambda>_. and_then (idx rest 1) (\<lambda>b1.
         zl_string rest 2 (push_bit 8 (unat (enc AND 0x3F)) OR unat b1)))
     else if top2 = 2 then
       (if enc \<noteq> 0x80 then
          Err (CorruptData ''ziplist 32-bit string encoding has non-zero low bits: 0x{:02x}'')
        else and_then (zl_ensure_len rest 5) (\<lambda>_. and_then (idxs rest 1 4) (\<lambda>l.
          zl_string rest 5 (unat (from_be l :: u32)))))
     else if top2 = 3 then decode_int_entry rest
     else Panic)"

definition zl_decode_entry :: "bytes \<Rightarrow> (compact_entry \<times> usize) parsed" where
  "zl_decode_entry buf =
     (if buf = [] then Err (CorruptData ''ziplist entry: empty buffer'')
      else and_then (decode_prevlen buf) (\<lambda>(prevlen_size, _).
        and_then (slice buf prevlen_size (length buf)) (\<lambda>rest.
        if rest = [] then Err (CorruptData ''ziplist entry: truncated after prevlen'')
        else and_then (zl_decode_body rest) (\<lambda>(entry, enc_data_size).
          and_then (zl_checked_add prevlen_size enc_data_size) (\<lambda>tot. Ok (entry, tot))))))"

definition zl_step :: "bytes \<Rightarrow> usize \<Rightarrow> (compact_entry \<times> usize) option parsed" where
  "zl_step data pos =
     (if pos \<ge> length data then Err (CorruptData ''ziplist missing end byte'')
      else and_then (idx data pos) (\<lambda>b.
        if b = ZL_END then Ok None
        else and_then (slice data pos (length data)) (\<lambda>buf.
          and_then (zl_decode_entry buf) (\<lambda>(entry, consumed).
          if pos + consumed > usize_max then Err (CorruptData ''ziplist position overflow'')
          else Ok (Some (entry, pos + consumed))))))"

lemma zl_string_Ok_iff:
  "zl_string buf h len = Ok r \<longleftrightarrow>
     h + len \<le> usize_max \<and> h + len \<le> length buf \<and> r = (CStr (take len (drop h buf)), h + len)"
  by (auto simp: zl_string_def and_then_Ok_iff checked_add_Ok_iff ensure_len_Ok_iff slice_Ok_iff)

lemma zl_string_no_panic [simp]: "zl_string buf h len \<noteq> Panic"
  by (auto simp: zl_string_def and_then_Panic_iff checked_add_Ok_iff ensure_len_Ok_iff)

lemma decode_prevlen_Ok: "decode_prevlen buf = Ok (k, v) \<Longrightarrow> 1 \<le> k \<and> k \<le> length buf"
  by (auto simp: decode_prevlen_def and_then_Ok_iff ensure_len_Ok_iff Suc_le_eq split: if_splits)

lemma zl_step_progress: "zl_step data pos = Ok (Some (e, pos')) \<Longrightarrow> pos < pos'"
  by (auto simp: zl_step_def zl_decode_entry_def and_then_Ok_iff checked_add_Ok_iff
      dest!: decode_prevlen_Ok split: if_splits)

lemma zl_step_lt: "zl_step data pos = Ok (Some r) \<Longrightarrow> pos < length data"
  by (auto simp: zl_step_def split: if_splits)

function zl_walk :: "bytes \<Rightarrow> usize \<Rightarrow> compact_entry list parsed" where
  "zl_walk data pos = and_then (zl_step data pos) (\<lambda>r. case r of
      None \<Rightarrow> Ok []
    | Some (entry, pos') \<Rightarrow> and_then (zl_walk data pos') (\<lambda>es. Ok (entry # es)))"
  by pat_completeness auto
termination
  by (relation "measure (\<lambda>(data, pos). length data - pos)")
    (auto dest: zl_step_progress zl_step_lt intro: diff_less_mono2)

declare zl_walk.simps [simp del]

definition zl_decode :: "bytes \<Rightarrow> compact_entry list parsed" where
  "zl_decode data =
     (if length data < ZL_HDR_SIZE + 1 then
        Err (CorruptData ''ziplist too short for header + end byte'')
      else and_then (idxs data 0 4) (\<lambda>zb.
        if unat (from_le zb :: u32) \<noteq> length data then
          Err (CorruptData ''ziplist zlbytes ({}) != blob size ({})'')
        else and_then (idxs data 8 2) (\<lambda>_. zl_walk data ZL_HDR_SIZE)))"

section \<open>The wire format\<close>

datatype zl_enc = ZStr6 bytes | ZStr14 bytes | ZStr32 bytes | ZInt nat int | ZImm nat

fun zl_enc_ok :: "zl_enc \<Rightarrow> bool" where
  "zl_enc_ok (ZStr6 s) \<longleftrightarrow> length s < 64"
| "zl_enc_ok (ZStr14 s) \<longleftrightarrow> length s < 16384"
| "zl_enc_ok (ZStr32 s) \<longleftrightarrow> length s < 2 ^ 32"
| "zl_enc_ok (ZInt w n) \<longleftrightarrow>
     (w = 1 \<or> w = 2 \<or> w = 3 \<or> w = 4 \<or> w = 8) \<and> - (256 ^ w) \<le> 2 * n \<and> 2 * n < 256 ^ w"
| "zl_enc_ok (ZImm n) \<longleftrightarrow> n \<le> 12"

fun zl_enc_value :: "zl_enc \<Rightarrow> compact_entry" where
  "zl_enc_value (ZStr6 s) = CStr s"
| "zl_enc_value (ZStr14 s) = CStr s"
| "zl_enc_value (ZStr32 s) = CStr s"
| "zl_enc_value (ZInt w n) = CInt n"
| "zl_enc_value (ZImm n) = CInt (int n)"

definition zl_int_op :: "nat \<Rightarrow> u8" where
  "zl_int_op w = (if w = 1 then 0xFE else if w = 2 then 0xC0 else if w = 3 then 0xF0
     else if w = 4 then 0xD0 else 0xE0)"

fun zl_enc_bytes :: "zl_enc \<Rightarrow> bytes" where
  "zl_enc_bytes (ZStr6 s) = as_u8 (length s) # s"
| "zl_enc_bytes (ZStr14 s) = as_u8 (64 + length s div 256) # as_u8 (length s mod 256) # s"
| "zl_enc_bytes (ZStr32 s) = 0x80 # to_be 4 (length s) @ s"
| "zl_enc_bytes (ZInt w n) = zl_int_op w # int_le w n"
| "zl_enc_bytes (ZImm n) = [as_u8 (241 + n)]"

text \<open>The previous entry's length: one byte below 254, or 254 and four bytes, unchecked.\<close>

definition zl_prevlen_ok :: "bytes \<Rightarrow> bool" where
  "zl_prevlen_ok pl \<longleftrightarrow> length pl = 1 \<and> hd pl < 254 \<or> length pl = 5 \<and> hd pl = 254"

definition zl_wire_ok :: "bytes \<times> zl_enc \<Rightarrow> bool" where
  "zl_wire_ok w \<longleftrightarrow> zl_prevlen_ok (fst w) \<and> zl_enc_ok (snd w)"

definition zl_wire_bytes :: "bytes \<times> zl_enc \<Rightarrow> bytes" where
  "zl_wire_bytes w = fst w @ zl_enc_bytes (snd w)"

definition zl_wire_value :: "bytes \<times> zl_enc \<Rightarrow> compact_entry" where
  "zl_wire_value w = zl_enc_value (snd w)"

definition zl_tail_ok :: "bytes \<Rightarrow> bool" where
  "zl_tail_ok t \<longleftrightarrow> t \<noteq> [] \<and> hd t = 0xFF"

lemma zl_tail_ok_iff: "zl_tail_ok t \<longleftrightarrow> t \<noteq> [] \<and> hd t = ZL_END"
  by (simp add: zl_tail_ok_def ZL_END_def)

section \<open>One entry\<close>

lemma top2_iff:
  "drop_bit 6 (b :: u8) = 0 \<longleftrightarrow> unat b < 64" "drop_bit 6 b = 1 \<longleftrightarrow> 64 \<le> unat b \<and> unat b < 128"
  "drop_bit 6 b = 2 \<longleftrightarrow> 128 \<le> unat b \<and> unat b < 192"
  "drop_bit 6 b = 3 \<longleftrightarrow> 192 \<le> unat b"
proof -
  have d: "unat (drop_bit 6 b) = unat b div 64"
    by (simp add: unat_drop_bit_eq drop_bit_eq_div unat_div)
  show "drop_bit 6 b = 0 \<longleftrightarrow> unat b < 64" "drop_bit 6 b = 1 \<longleftrightarrow> 64 \<le> unat b \<and> unat b < 128"
    "drop_bit 6 b = 2 \<longleftrightarrow> 128 \<le> unat b \<and> unat b < 192"
    "drop_bit 6 b = 3 \<longleftrightarrow> 192 \<le> unat b"
    using unat_byte_less [of b] by (simp_all add: byte_eq_iff d del: unat_byte_less) arith+
qed

lemma or_8: "lo < 256 \<Longrightarrow> push_bit 8 x OR lo = x * 256 + (lo :: nat)"
  using push_bit_or_nat [of lo 8 x] by simp

lemma low6: "h < 64 \<Longrightarrow> (64 + h) mod 64 = (h :: nat)" "64 \<le> n \<Longrightarrow> n < 128 \<Longrightarrow> 64 + n mod 64 = (n :: nat)"
  using mod_mult_self1 [of "n - 64" 1 64] by (simp_all add: mod_if [of h])

lemmas zl_decode_simps = zl_decode_body_def decode_int_entry_def top2_iff byte_lows Let_def or_8 low6

lemma imm_nibble:
  assumes "241 \<le> unat (b :: u8)" "unat b \<le> 253"
  shows "b AND 0x0F \<noteq> 0" "uint ((b AND 0x0F) - 1) = int (unat b - 241)"
proof -
  have m: "unat (b AND 0x0F) = unat b - 240"
    using mod_mult_self1 [of "unat b - 240" 15 16] assms by (simp add: byte_lows)
  then show "b AND 0x0F \<noteq> 0"
    using assms by (auto simp: byte_eq_iff)
  have "unat ((b AND 0x0F) - 1) = unat (b AND 0x0F) - unat (1 :: u8)"
    using m assms by (intro unat_sub) (simp add: word_le_nat_alt)
  then have "unat ((b AND 0x0F) - 1) = unat b - 241"
    using m by simp
  then show "uint ((b AND 0x0F) - 1) = int (unat b - 241)"
    by (simp only: uint_nat)
qed

lemma decode_imm:
  assumes "241 \<le> unat b" "unat b \<le> 253"
  shows "decode_int_entry (b # rest) = Ok (CInt (int (unat b - 241)), 1)"
proof -
  have "b \<noteq> 0xC0" "b \<noteq> 0xD0" "b \<noteq> 0xE0" "b \<noteq> 0xF0" "b \<noteq> 0xFE"
    using assms by auto
  moreover have "0xF1 \<le> b" "b \<le> 0xFD"
    using assms by (simp_all add: word_le_nat_alt)
  ultimately show ?thesis
    using imm_nibble [OF assms] by (simp add: decode_int_entry_def)
qed

lemma imm_eq: "n \<le> 12 \<Longrightarrow> decode_int_entry (as_u8 (241 + n) # rest) = Ok (CInt (int n), 1)"
  using decode_imm [of "as_u8 (241 + n)" rest] by simp

lemma zl_decode_body_enc:
  assumes "zl_enc_ok w"
  shows "zl_decode_body (zl_enc_bytes w @ rest) = Ok (zl_enc_value w, length (zl_enc_bytes w))"
proof (cases w)
  case (ZStr6 s)
  with assms show ?thesis by (simp add: zl_decode_simps zl_string_Ok_iff usize_max_def)
next
  case (ZStr14 s)
  with assms have "length s div 256 < 64" by auto
  with ZStr14 show ?thesis by (simp add: zl_decode_simps zl_string_Ok_iff usize_max_def)
next
  case (ZStr32 s)
  with assms show ?thesis
    by (simp add: zl_decode_simps zl_string_Ok_iff usize_max_def from_be_to_be unat_of_nat)
next
  case (ZInt k n)
  have "sint (b :: u8) = n" if "int_le 1 n = [b]" "- 256 \<le> 2 * n" "2 * n < 256" for b
    using sint_from_le [where 'a = 8, of 1 n] that by (simp add: from_le_def)
  moreover obtain b where "int_le 1 n = [b]"
    by (auto simp: int_le_def)
  ultimately show ?thesis
    using assms ZInt by (auto simp: zl_decode_simps zl_int_op_def sint_from_le read_i24_le_eq
        signed_of_int_le [of 3, simplified])
next
  case (ZImm n)
  with assms imm_eq [of n rest] show ?thesis
    by (simp add: zl_decode_body_def Let_def top2_iff)
qed

lemma decode_int_entry_inv:
  assumes "decode_int_entry buf = Ok (e, n)"
  obtains w where "zl_enc_ok w" "e = zl_enc_value w" "n = length (zl_enc_bytes w)"
    "n \<le> length buf" "take n buf = zl_enc_bytes w" "192 \<le> unat (buf ! 0)"
proof -
  have ne: "buf \<noteq> []"
    using assms by (auto simp: decode_int_entry_def and_then_Ok_iff idx_Ok_iff)
  note witness = that
  have int_case: thesis if k: "k = 1 \<or> k = 2 \<or> k = 3 \<or> k = 4 \<or> k = 8" "buf ! 0 = zl_int_op k"
    "Suc k \<le> length buf" "n = Suc k" "e = CInt (signed_of (8 * k) (le_nat (take k (drop 1 buf))))"
    for k
  proof -
    let ?t = "take k (drop 1 buf)"
    have "length ?t = k" using k(3) by simp
    then have "int_le k (signed_of (8 * k) (le_nat ?t)) = ?t"
      "- (256 ^ k) \<le> 2 * signed_of (8 * k) (le_nat ?t)"
      "2 * signed_of (8 * k) (le_nat ?t) < 256 ^ k"
      using int_le_signed_of [of ?t] signed_of_le_range [of ?t] by simp_all
    moreover have "192 \<le> unat (zl_int_op k)"
      by (simp add: zl_int_op_def)
    ultimately show ?thesis
      using k ne by (intro witness [of "ZInt k (signed_of (8 * k) (le_nat ?t))"])
        (simp_all add: Cons_take_drop)
  qed
  consider "buf ! 0 = 0xC0" | "buf ! 0 = 0xD0" | "buf ! 0 = 0xE0" | "buf ! 0 = 0xF0"
    | "buf ! 0 = 0xFE" | "241 \<le> unat (buf ! 0)" "unat (buf ! 0) \<le> 253"
    using assms by (auto simp: decode_int_entry_def and_then_Ok_iff idx_Ok_iff word_le_nat_alt
        split: if_splits)
  then show ?thesis
  proof cases
    case 1
    with assms show ?thesis
      by (intro int_case [of 2]) (auto simp: decode_int_entry_def zl_int_op_def and_then_Ok_iff
          idx_Ok_iff ensure_len_Ok_iff sint_take [of 2, where 'a = 16])
  next
    case 2
    with assms show ?thesis
      by (intro int_case [of 4]) (auto simp: decode_int_entry_def zl_int_op_def and_then_Ok_iff
          idx_Ok_iff ensure_len_Ok_iff sint_take [of 4, where 'a = 32])
  next
    case 3
    with assms show ?thesis
      by (intro int_case [of 8]) (auto simp: decode_int_entry_def zl_int_op_def and_then_Ok_iff
          idx_Ok_iff ensure_len_Ok_iff sint_take [of 8, where 'a = 64])
  next
    case 4
    with assms show ?thesis
      by (intro int_case [of 3]) (auto simp: decode_int_entry_def zl_int_op_def and_then_Ok_iff
          idx_Ok_iff ensure_len_Ok_iff read_i24_le_eq)
  next
    case 5
    with assms have r: "2 \<le> length buf" "n = 2" "e = CInt (sint (buf ! 1))"
      by (auto simp: decode_int_entry_def and_then_Ok_iff idx_Ok_iff ensure_len_Ok_iff)
    have "take 1 (drop 1 buf) = [buf ! 1]"
      using r(1) by (simp add: take_Suc_conv_app_nth)
    moreover have "sint (buf ! 1) = signed_of 8 (unat (buf ! 1))"
      using sint_from_le_signed_of [where 'a = 8, of "[buf ! 1]"] by (simp add: from_le_def)
    ultimately show ?thesis
      using 5 r by (intro int_case [of 1]) (simp_all add: zl_int_op_def)
  next
    case 6
    obtain t where b: "buf = buf ! 0 # t"
      using ne by (metis Cons_nth_drop_Suc drop0 length_greater_0_conv)
    from assms have "n = 1" "e = CInt (int (unat (buf ! 0) - 241))"
      using decode_imm [OF 6, of t] b by simp_all
    with 6 ne show ?thesis
      by (intro that [of "ZImm (unat (buf ! 0) - 241)"])
        (simp_all add: Cons_take_drop [of buf 0, simplified] Suc_le_eq)
  qed
qed

lemma zl_decode_body_inv:
  assumes "zl_decode_body buf = Ok (e, n)"
  obtains w where "zl_enc_ok w" "e = zl_enc_value w" "n = length (zl_enc_bytes w)"
    "n \<le> length buf" "take n buf = zl_enc_bytes w"
proof -
  let ?b = "unat (buf ! 0)" and ?c = "unat (buf ! 1)"
  have ne: "buf \<noteq> []"
    using assms by (auto simp: zl_decode_body_def and_then_Ok_iff idx_Ok_iff)
  consider "?b < 64" | "64 \<le> ?b" "?b < 128" | "128 \<le> ?b" "?b < 192" | "192 \<le> ?b"
    by linarith
  then show ?thesis
  proof cases
    case 1
    with assms ne have r: "n = Suc ?b" "n \<le> length buf" "e = CStr (take ?b (drop 1 buf))"
      by (simp_all add: zl_decode_body_def byte_lows Let_def top2_iff zl_string_Ok_iff)
    moreover obtain s where s: "take ?b (drop 1 buf) = s" "length s = ?b"
      using r(1,2) by simp
    ultimately show ?thesis
      using 1 ne by (intro that [of "ZStr6 s"]) (simp_all add: Cons_take_drop del: One_nat_def)
  next
    case 2
    let ?l = "?b mod 64 * 256 + ?c"
    have "?l < 16384"
      using unat_byte_less [of "buf ! 1"] mod_less_divisor [of 64 ?b] by linarith
    then have u: "?l < 16384" "?l div 256 = ?b mod 64" "?l mod 256 = ?c"
      by simp_all
    from 2 assms ne have r: "2 \<le> length buf" "n = Suc (Suc ?l)" "n \<le> length buf"
      "e = CStr (take ?l (drop 2 buf))"
      by (auto simp: zl_decode_body_def byte_lows or_8 Let_def top2_iff and_then_Ok_iff
          ensure_len_Ok_iff zl_string_Ok_iff)
    have "buf ! 0 = as_u8 (64 + ?b mod 64)"
      using low6(2) [OF 2] by (intro byte_eqI) simp_all
    moreover obtain s where s: "take ?l (drop 2 buf) = s" "length s = ?l"
      using r(2,3) by simp
    ultimately show ?thesis
      using r u by (intro that [of "ZStr14 s"]) (simp_all add: take_2_bytes del: One_nat_def)
  next
    case 3
    let ?t = "take 4 (drop 1 buf)" let ?l = "be_nat ?t"
    from 3 assms ne have b0: "buf ! 0 = 0x80" and five: "5 \<le> length buf"
      by (auto simp: zl_decode_body_def top2_iff Let_def and_then_Ok_iff ensure_len_Ok_iff
          split: if_splits)
    then have l: "unat (from_be ?t :: u32) = ?l" "?l < 2 ^ 32" "length ?t = 4"
      using be_nat_less [of ?t] by (simp_all add: unat_from_be)
    with b0 assms ne five have r: "n = 5 + ?l" "n \<le> length buf" "e = CStr (take ?l (drop 5 buf))"
      by (simp_all add: zl_decode_body_def top2_iff Let_def zl_string_Ok_iff)
    have "take n buf = buf ! 0 # ?t @ take ?l (drop 5 buf)"
      using five ne by (simp add: r(1) take_add Cons_take_drop [of buf 4, simplified])
    moreover have "to_be 4 ?l = ?t"
      using to_le_le_nat [of "rev ?t"] l(3) by (simp add: to_be_def be_nat_def)
    moreover have "length (take ?l (drop 5 buf)) = ?l"
      using r(1,2) by simp
    ultimately show ?thesis
      using r b0 l(2) by (intro that [of "ZStr32 (take ?l (drop 5 buf))"]) simp_all
  next
    case 4
    with assms ne have "decode_int_entry buf = Ok (e, n)"
      by (simp add: zl_decode_body_def top2_iff Let_def)
    then show ?thesis by (rule decode_int_entry_inv) (rule that)
  qed
qed

lemma decode_int_entry_no_panic: "buf \<noteq> [] \<Longrightarrow> decode_int_entry buf \<noteq> Panic"
  using imm_nibble(1) [of "buf ! 0"]
  by (auto simp: decode_int_entry_def and_then_Panic_iff ensure_len_Ok_iff word_le_nat_alt)

lemma zl_decode_body_no_panic: "buf \<noteq> [] \<Longrightarrow> zl_decode_body buf \<noteq> Panic"
  by (auto simp: zl_decode_body_def and_then_Panic_iff ensure_len_Ok_iff Let_def top2_iff
      decode_int_entry_no_panic)

section \<open>The walk, through the interface\<close>

lemma zl_enc_bytes_nonempty [simp]: "zl_enc_bytes w \<noteq> []"
  by (cases w) simp_all

lemma decode_prevlen_enc:
  "zl_prevlen_ok pl \<Longrightarrow> \<exists>v. decode_prevlen (pl @ rest) = Ok (length pl, v)"
  by (cases pl) (auto simp: zl_prevlen_ok_def decode_prevlen_def ZL_END_def word_less_nat_alt)

lemma decode_prevlen_inv:
  assumes "decode_prevlen buf = Ok (k, v)"
  shows "k \<le> length buf" "zl_prevlen_ok (take k buf)" "length (take k buf) = k"
proof -
  have "b = 254" if "b \<noteq> 0xFF" "\<not> b < 254" for b :: u8
  proof -
    have "unat b = 254"
      using that unat_byte_less [of b]
      by (simp add: byte_eq_iff word_less_nat_alt del: unat_byte_less)
    then show ?thesis by (simp add: byte_eq_iff)
  qed
  moreover have "hd (take k buf) = buf ! 0" if "1 \<le> k" "k \<le> length buf"
    using that by (cases buf; cases k) auto
  ultimately show "k \<le> length buf" "zl_prevlen_ok (take k buf)" "length (take k buf) = k"
    using assms by (auto simp: decode_prevlen_def zl_prevlen_ok_def ZL_END_def and_then_Ok_iff
        ensure_len_Ok_iff Suc_le_eq split: if_splits)
qed

lemma zl_step_no_panic: "zl_step data pos \<noteq> Panic"
proof -
  have "decode_prevlen buf \<noteq> Panic" for buf
    by (auto simp: decode_prevlen_def and_then_Panic_iff ensure_len_Ok_iff)
  then have "zl_decode_entry buf \<noteq> Panic" for buf
    by (auto simp: zl_decode_entry_def and_then_Panic_iff slice_Ok_iff zl_decode_body_no_panic
        dest: decode_prevlen_Ok)
  then show ?thesis
    by (auto simp: zl_step_def and_then_Panic_iff)
qed

lemma zl_step_end: "zl_tail_ok (drop pos data) \<Longrightarrow> zl_step data pos = Ok None"
  by (auto simp: zl_tail_ok_iff zl_step_def hd_drop_conv_nth)

lemma zl_step_end_inv: "zl_step data pos = Ok None \<Longrightarrow> zl_tail_ok (drop pos data)"
  by (auto simp: zl_tail_ok_iff zl_step_def hd_drop_conv_nth and_then_Ok_iff split: if_splits)

lemma zl_step_entry:
  assumes "length data < 2 ^ 32" "zl_wire_ok w" "drop pos data = zl_wire_bytes w @ rest"
  shows "zl_step data pos = Ok (Some (zl_wire_value w, pos + length (zl_wire_bytes w)))"
proof -
  obtain pl e where w: "w = (pl, e)" by fastforce
  let ?b = "zl_enc_bytes e"
  have ok: "zl_prevlen_ok pl" "zl_enc_ok e" and d: "drop pos data = pl @ ?b @ rest"
    using assms by (simp_all add: w zl_wire_ok_def zl_wire_bytes_def)
  have pl: "pl \<noteq> []" "hd pl \<noteq> ZL_END"
    using ok(1) by (auto simp: zl_prevlen_ok_def ZL_END_def)
  have len: "pos + length pl + length ?b \<le> length data" "pos < length data"
    using arg_cong [OF d, of length] pl(1) by (cases pl; simp)+
  have "data ! pos = hd pl"
    using d len(2) pl(1) by (metis hd_append2 hd_drop_conv_nth)
  moreover obtain v where "decode_prevlen (pl @ ?b @ rest) = Ok (length pl, v)"
    using decode_prevlen_enc [OF ok(1), of "?b @ rest"] by auto
  then have "zl_decode_entry (drop pos data) = Ok (zl_enc_value e, length pl + length ?b)"
    using pl(1) zl_decode_body_enc [OF ok(2), of rest] len assms(1)
    by (simp add: zl_decode_entry_def d usize_max_def)
  moreover have "slice data pos (length data) = Ok (drop pos data)"
    using len(2) by simp
  ultimately show ?thesis
    using len assms(1) pl(2)
    by (simp add: zl_step_def w zl_wire_bytes_def zl_wire_value_def usize_max_def)
qed

lemma zl_step_entry_inv:
  assumes "zl_step data pos = Ok (Some (e, pos'))"
  shows "\<exists>w. zl_wire_ok w \<and> e = zl_wire_value w \<and> pos' = pos + length (zl_wire_bytes w) \<and>
    drop pos data = zl_wire_bytes w @ drop pos' data"
proof -
  from assms obtain k v n where n: "decode_prevlen (drop pos data) = Ok (k, v)"
    "zl_decode_body (drop k (drop pos data)) = Ok (e, n)" "pos' = pos + (k + n)"
    by (auto simp: zl_step_def zl_decode_entry_def and_then_Ok_iff slice_Ok_iff checked_add_Ok_iff
        split: if_splits)
  note pl = decode_prevlen_inv [OF n(1)]
  obtain u where u: "zl_enc_ok u" "e = zl_enc_value u" "n = length (zl_enc_bytes u)"
    "take n (drop k (drop pos data)) = zl_enc_bytes u"
    by (rule zl_decode_body_inv [OF n(2)])
  have "drop pos data = take k (drop pos data) @ take n (drop k (drop pos data)) @ drop pos' data"
  proof -
    have "drop pos' data = drop n (drop k (drop pos data))"
      by (simp add: n(3) add.commute add.left_commute)
    then show ?thesis
      by (simp only: append_take_drop_id)
  qed
  with u pl n(3) show ?thesis
    by (intro exI [of _ "(take k (drop pos data), u)"])
      (simp add: zl_wire_ok_def zl_wire_value_def zl_wire_bytes_def)
qed

interpretation zl: compact_codec zl_step zl_walk zl_wire_ok zl_wire_bytes zl_wire_value zl_tail_ok
proof
  show "zl_wire_ok w \<Longrightarrow> zl_wire_bytes w \<noteq> []" for w
    by (simp add: zl_wire_bytes_def)
qed (fact zl_walk.simps zl_step_end zl_step_end_inv zl_step_entry zl_step_entry_inv zl_step_no_panic)+

section \<open>The whole blob\<close>

definition zl_blob :: "bytes \<Rightarrow> (bytes \<times> zl_enc) list \<Rightarrow> bytes \<Rightarrow> bytes" where
  "zl_blob hdr ws trailing =
     (let body = concat (map zl_wire_bytes ws) @ [0xFF] @ trailing in
      to_le 4 (10 + length body) @ hdr @ body)"

lemma zl_blob_eq:
  "zl_blob hdr ws trailing =
     (let body = concat (map zl_wire_bytes ws) @ [ZL_END] @ trailing in
      to_le 4 (ZL_HDR_SIZE + length body) @ hdr @ body)"
  by (simp add: zl_blob_def ZL_HDR_SIZE_def ZL_END_def)

lemma zl_decode_blob:
  assumes "length (zl_blob hdr ws trailing) < 2 ^ 32" "list_all zl_wire_ok ws" "length hdr = 6"
  shows "zl_decode (zl_blob hdr ws trailing) = Ok (map zl_wire_value ws)"
proof -
  let ?body = "concat (map zl_wire_bytes ws)" and ?data = "zl_blob hdr ws trailing"
  have d: "take 4 ?data = to_le 4 (length ?data)" "length ?data = 11 + length ?body + length trailing"
    "drop 10 ?data = ?body @ [ZL_END] @ trailing"
    by (simp_all add: assms(3) zl_blob_eq Let_def ZL_HDR_SIZE_def)
  have "zl_walk ?data 10 = Ok (map zl_wire_value ws)"
    using zl.walk_wires [OF assms(1,2) _ d(3)] by (simp add: zl_tail_ok_iff)
  moreover have "unat (from_le (take 4 ?data) :: u32) = length ?data"
    unfolding d(1) using assms(1) by (simp add: from_le_to_le unat_of_nat)
  ultimately show ?thesis
    using d(2) by (simp add: zl_decode_def ZL_HDR_SIZE_def)
qed

lemma zl_decode_inv:
  assumes "zl_decode data = Ok es"
  obtains hdr ws trailing where "list_all zl_wire_ok ws" "length hdr = 6"
    "data = zl_blob hdr ws trailing" "es = map zl_wire_value ws" "length data < 2 ^ 32"
proof -
  from assms have len: "11 \<le> length data" "unat (from_le (take 4 data) :: u32) = length data"
    and w: "zl_walk data 10 = Ok es"
    by (auto simp: zl_decode_def and_then_Ok_iff ZL_HDR_SIZE_def split: if_splits)
  have t: "to_le 4 (length data) = take 4 data"
    using to_le_le_nat [of "take 4 data"] len by (simp add: unat_from_le)
  from zl.walk_inv [OF w] obtain ws tail where ws: "list_all zl_wire_ok ws" "es = map zl_wire_value ws"
    "zl_tail_ok tail" "drop 10 data = concat (map zl_wire_bytes ws) @ tail"
    by blast
  then obtain trailing where tr: "drop 10 data = concat (map zl_wire_bytes ws) @ [ZL_END] @ trailing"
    by (cases tail) (auto simp: zl_tail_ok_iff)
  have "take 6 (drop 4 data) @ drop 10 data = drop 4 data"
    using append_take_drop_id [of 6 "drop 4 data"] by simp
  then have "data = take 4 data @ take 6 (drop 4 data) @ drop 10 data"
    using append_take_drop_id [of 4 data] by (simp only:)
  moreover have "length data = ZL_HDR_SIZE + length (concat (map zl_wire_bytes ws) @ [ZL_END] @ trailing)"
    using arg_cong [OF tr, of length] len(1) by (simp add: ZL_HDR_SIZE_def)
  ultimately have "data = zl_blob (take 6 (drop 4 data)) ws trailing"
    using t by (simp only: zl_blob_eq Let_def tr)
  moreover have "length data < 2 ^ 32"
    using len(2) unsigned_less [of "from_le (take 4 data) :: u32", where ?'a = nat] by simp
  moreover have "length (take 6 (drop 4 data)) = 6"
    using len(1) by simp
  ultimately show ?thesis
    using that ws(1,2) by blast
qed

text \<open>
  C13. The ziplist decoder accepts exactly: a header whose byte count is the blob's own length
  (the other six header bytes are not checked), entries in one of the eight encodings each
  after a prevlen field, an end byte, and then any bytes at all.  The result is the values
  of the entries before the end byte.  In particular, unlike the listpack decoder, this one
  ignores whatever follows the first end byte.
\<close>

theorem zl_decode_iff:
  "zl_decode data = Ok es \<longleftrightarrow>
     length data < 2 ^ 32 \<and>
     (\<exists>hdr ws trailing. list_all zl_wire_ok ws \<and> length hdr = 6 \<and>
        data = zl_blob hdr ws trailing \<and> es = map zl_wire_value ws)"
  by (auto intro: zl_decode_blob elim!: zl_decode_inv)

lemma zl_decode_no_panic [no_panic, simp]: "zl_decode data \<noteq> Panic"
  by (simp add: zl_decode_def ZL_HDR_SIZE_def and_then_Panic_iff zl.walk_no_panic)

lemma zl_decode_length: "zl_decode data = Ok es \<Longrightarrow> length es + 10 \<le> length data"
  using zl.walk_length [of data 10 es]
  by (auto simp: zl_decode_def and_then_Ok_iff ZL_HDR_SIZE_def split: if_splits)

end
