(* ===== verification/Intset.thy ===== *)
theory Intset
  imports Rdb_Types
begin

text \<open>
  \<open>crates/rdb-parser/src/intset.rs\<close>: the decoder of integer sets.  The theorems: decoding
  never panics, it yields exactly the decimal members of every well-formed blob, and a blob
  that decodes is the encoding of those members.
\<close>

section \<open>The code\<close>

definition INTSET_HDR_SIZE :: usize where "INTSET_HDR_SIZE = 8"
definition MAX_INTSET_ELEMENTS :: usize where "MAX_INTSET_ELEMENTS = 10000000"

text \<open>
  The value at \<open>pos\<close> for a validated encoding; any other encoding is \<open>unreachable!\<close>.
\<close>

definition intset_value :: "u32 \<Rightarrow> bytes \<Rightarrow> usize \<Rightarrow> i64 parsed" where
  "intset_value encoding data pos =
     (if encoding = 2 then and_then (idxs data pos 2) (\<lambda>bs. Ok (sint (from_le bs :: u16)))
      else if encoding = 4 then and_then (idxs data pos 4) (\<lambda>bs. Ok (sint (from_le bs :: u32)))
      else if encoding = 8 then and_then (idxs data pos 8) (\<lambda>bs. Ok (sint (from_le bs :: u64)))
      else Panic)"

primrec intset_members :: "u32 \<Rightarrow> bytes \<Rightarrow> usize \<Rightarrow> nat \<Rightarrow> bytes list parsed" where
  "intset_members encoding data pos 0 = Ok []"
| "intset_members encoding data pos (Suc n) =
     and_then (intset_value encoding data pos) (\<lambda>val.
     if pos + unat encoding > usize_max then Err (CorruptData ''intset position overflow'')
     else and_then (intset_members encoding data (pos + unat encoding) n)
            (\<lambda>ms. Ok (dec_int val # ms)))"

definition intset_decode :: "bytes \<Rightarrow> bytes list parsed" where
  "intset_decode data =
     (if length data < INTSET_HDR_SIZE then Err (CorruptData ''intset too short for header'')
      else and_then (idxs data 0 4) (\<lambda>eb. and_then (idxs data 4 4) (\<lambda>lb.
        let encoding = (from_le eb :: u32); len = unat (from_le lb :: u32) in
        if len > MAX_INTSET_ELEMENTS then
          Err (CorruptData ''intset element count {} exceeds limit {}'')
        else if encoding = 2 \<or> encoding = 4 \<or> encoding = 8 then
          let elem_size = unat encoding in
          if len * elem_size > usize_max then Err (CorruptData ''intset data size overflow'')
          else if INTSET_HDR_SIZE + len * elem_size > usize_max then
            Err (CorruptData ''intset data size overflow'')
          else if length data \<noteq> INTSET_HDR_SIZE + len * elem_size then
            Err (CorruptData ''intset size mismatch: expected {} bytes, have {}'')
          else intset_members encoding data INTSET_HDR_SIZE len
        else Err (CorruptData ''intset unknown encoding: {}''))))"

section \<open>The format\<close>

text \<open>
  An integer set of element width \<open>w\<close> (2, 4 or 8 bytes): the width, the count, and the
  members in two's complement, all little-endian.
\<close>

definition intset_encode_body :: "nat \<Rightarrow> int list \<Rightarrow> bytes" where
  "intset_encode_body w ns = concat (map (int_le w) ns)"

definition intset_encode :: "nat \<Rightarrow> int list \<Rightarrow> bytes" where
  "intset_encode w ns = to_le 4 w @ to_le 4 (length ns) @ intset_encode_body w ns"

definition intset_ok :: "nat \<Rightarrow> int list \<Rightarrow> bool" where
  "intset_ok w ns \<longleftrightarrow> w \<in> {2, 4, 8} \<and> length ns \<le> 10000000 \<and>
     (\<forall>n \<in> set ns. - (256 ^ w) \<le> 2 * n \<and> 2 * n < 256 ^ w)"

lemma intset_ok_iff:
  "intset_ok w ns \<longleftrightarrow> w \<in> {2, 4, 8} \<and> length ns \<le> MAX_INTSET_ELEMENTS \<and>
     (\<forall>n \<in> set ns. - (256 ^ w) \<le> 2 * n \<and> 2 * n < 256 ^ w)"
  by (simp add: intset_ok_def MAX_INTSET_ELEMENTS_def)

lemma length_intset_body [simp]: "length (intset_encode_body w ns) = w * length ns"
  by (induction ns) (auto simp: intset_encode_body_def)

text \<open>Reading one member, at any of the three widths.\<close>

lemma intset_value_eq:
  assumes "pos + unat enc \<le> length data" "enc = 2 \<or> enc = 4 \<or> enc = 8"
    "take (unat enc) (drop pos data) = int_le (unat enc) n"
    "- (256 ^ unat enc) \<le> 2 * n" "2 * n < 256 ^ unat enc"
  shows "intset_value enc data pos = Ok n"
  using assms(2) by (elim disjE) (use assms in
    \<open>simp_all add: intset_value_def sint_from_le\<close>)

lemma intset_value_inv:
  assumes "pos + unat enc \<le> length data" "enc = 2 \<or> enc = 4 \<or> enc = 8"
  obtains n where "intset_value enc data pos = Ok n"
    "int_le (unat enc) n = take (unat enc) (drop pos data)"
    "- (256 ^ unat enc) \<le> 2 * n" "2 * n < 256 ^ unat enc"
proof -
  let ?bs = "take (unat enc) (drop pos data)"
  have l: "length ?bs = unat enc"
    using assms(1) by simp
  from assms(2) show ?thesis
  proof (elim disjE)
    assume e: "enc = 2"
    show ?thesis
      by (rule that [of "sint (from_le ?bs :: u16)"])
        (use assms(1) l e int_le_sint [of ?bs, where ?'a = 16]
           sint_from_le_range [where w = 2 and ?'a = 16 and bs = ?bs]
         in \<open>simp_all add: intset_value_def\<close>)
  next
    assume e: "enc = 4"
    show ?thesis
      by (rule that [of "sint (from_le ?bs :: u32)"])
        (use assms(1) l e int_le_sint [of ?bs, where ?'a = 32]
           sint_from_le_range [where w = 4 and ?'a = 32 and bs = ?bs]
         in \<open>simp_all add: intset_value_def\<close>)
  next
    assume e: "enc = 8"
    show ?thesis
      by (rule that [of "sint (from_le ?bs :: u64)"])
        (use assms(1) l e int_le_sint [of ?bs, where ?'a = 64]
           sint_from_le_range [where w = 8 and ?'a = 64 and bs = ?bs]
         in \<open>simp_all add: intset_value_def\<close>)
  qed
qed

lemma intset_members_total:
  assumes "enc = 2 \<or> enc = 4 \<or> enc = 8" "length data = pos + n * unat enc"
    "length data \<le> usize_max"
  obtains ns where "intset_members enc data pos n = Ok (map dec_int ns)" "length ns = n"
    "intset_encode_body (unat enc) ns = drop pos data"
    "\<forall>n \<in> set ns. - (256 ^ unat enc) \<le> 2 * n \<and> 2 * n < 256 ^ unat enc"
  using assms(2)
proof (induction n arbitrary: pos thesis)
  case 0
  then show ?case
    by (intro "0.prems"(1) [of "[]"]) (simp_all add: intset_encode_body_def)
next
  case (Suc n)
  let ?w = "unat enc"
  have "pos + ?w \<le> length data" "length data = (pos + ?w) + n * ?w"
    using Suc.prems(2) by simp_all
  moreover from this(1) obtain v where v: "intset_value enc data pos = Ok v"
    "int_le ?w v = take ?w (drop pos data)" "- (256 ^ ?w) \<le> 2 * v" "2 * v < 256 ^ ?w"
    using intset_value_inv assms(1) by blast
  moreover obtain ns where "intset_members enc data (pos + ?w) n = Ok (map dec_int ns)"
    "length ns = n" "intset_encode_body ?w ns = drop (pos + ?w) data"
    "\<forall>n \<in> set ns. - (256 ^ ?w) \<le> 2 * n \<and> 2 * n < 256 ^ ?w"
    using Suc.IH calculation(2) by blast
  moreover have "take ?w (drop pos data) @ drop (pos + ?w) data = drop pos data"
    by (metis append_take_drop_id drop_drop add.commute)
  ultimately show ?case
    using assms(3) by (intro Suc.prems(1) [of "v # ns"])
      (simp_all add: intset_encode_body_def del: drop_drop)
qed

lemma int_le_inj:
  assumes "w \<in> {2, 4, 8}" "int_le w m = int_le w n"
    "- (256 ^ w) \<le> 2 * m" "2 * m < 256 ^ w" "- (256 ^ w) \<le> 2 * n" "2 * n < 256 ^ w"
  shows "m = n"
proof -
  have "256 ^ w = (2 ^ LENGTH(16) :: nat) \<or> 256 ^ w = (2 ^ LENGTH(32) :: nat) \<or>
      256 ^ w = (2 ^ LENGTH(64) :: nat)"
    using assms(1) by auto
  then show ?thesis
    using assms(2-6) by (metis sint_from_le)
qed

lemma intset_body_inj:
  "w \<in> {2, 4, 8} \<Longrightarrow> intset_encode_body w ms = intset_encode_body w ns \<Longrightarrow>
   length ms = length ns \<Longrightarrow>
   \<forall>n \<in> set ms. - (256 ^ w) \<le> 2 * n \<and> 2 * n < 256 ^ w \<Longrightarrow>
   \<forall>n \<in> set ns. - (256 ^ w) \<le> 2 * n \<and> 2 * n < 256 ^ w \<Longrightarrow> ms = ns"
proof (induction ms ns rule: list_induct2')
  case (4 m ms n ns)
  then have "int_le w m = int_le w n" "intset_encode_body w ms = intset_encode_body w ns"
    by (simp_all add: intset_encode_body_def)
  with 4 int_le_inj [of w m n] show ?case by simp
qed simp_all

lemma intset_size_small:
  "len \<le> MAX_INTSET_ELEMENTS \<Longrightarrow> enc = 2 \<or> enc = 4 \<or> enc = 8 \<Longrightarrow>
   8 + len * unat (enc :: u32) \<le> usize_max"
  by (auto simp: MAX_INTSET_ELEMENTS_def usize_max_def)

text \<open>
  The header guards leave exactly the blobs of the right size.
\<close>

lemma intset_decode_shape:
  assumes "8 \<le> length data" "from_le (take 4 data) = (enc :: u32)"
    "unat (from_le (take 4 (drop 4 data)) :: u32) = len"
  shows "intset_decode data =
    (if len \<le> MAX_INTSET_ELEMENTS \<and> (enc = 2 \<or> enc = 4 \<or> enc = 8) \<and>
        length data = 8 + len * unat enc
     then intset_members enc data 8 len
     else Err (CorruptData
       (if len > MAX_INTSET_ELEMENTS then ''intset element count {} exceeds limit {}''
        else if enc = 2 \<or> enc = 4 \<or> enc = 8
        then ''intset size mismatch: expected {} bytes, have {}''
        else ''intset unknown encoding: {}'')))"
proof -
  have ix: "idxs data 0 4 = Ok (take 4 data)" "idxs data 4 4 = Ok (take 4 (drop 4 data))"
    using assms(1) by simp_all
  have ovf: "len * unat enc \<le> usize_max \<and> 8 + len * unat enc \<le> usize_max"
    if "\<not> len > MAX_INTSET_ELEMENTS" "enc = 2 \<or> enc = 4 \<or> enc = 8"
    using intset_size_small [of len enc] that by (simp add: not_less)
  show ?thesis
    unfolding intset_decode_def ix INTSET_HDR_SIZE_def Let_def and_then_simps assms(2,3)
    using assms(1) ovf
    by (cases "MAX_INTSET_ELEMENTS < len"; cases "enc = 2 \<or> enc = 4 \<or> enc = 8")
      (simp_all add: not_less)
qed

text \<open>
  C15. The intset decoder is the exact inverse of the format: it returns a list of members if
  and only if they are the decimal texts of integers that fit the element width (2, 4 or 8
  bytes), at most ten million of them, and the blob is the little-endian encoding of that
  width, their count and their two's complement bytes, with nothing missing or left over.
\<close>

theorem intset_decode_iff:
  "intset_decode data = Ok ms \<longleftrightarrow>
     (\<exists>w ns. intset_ok w ns \<and> data = intset_encode w ns \<and> ms = map dec_int ns)"
proof
  assume ok: "intset_decode data = Ok ms"
  then have len: "8 \<le> length data"
    by (simp add: intset_decode_def INTSET_HDR_SIZE_def split: if_splits)
  obtain e l where e: "from_le (take 4 data) = (e :: u32)"
    and l: "unat (from_le (take 4 (drop 4 data)) :: u32) = l" by blast
  from ok have c: "l \<le> MAX_INTSET_ELEMENTS" "e = 2 \<or> e = 4 \<or> e = 8"
    "length data = 8 + l * unat e" and m: "intset_members e data 8 l = Ok ms"
    unfolding intset_decode_shape [OF len e l] by (metis res.distinct(1))+
  have "length data \<le> usize_max"
    using intset_size_small [OF c(1,2)] c(3) by (simp only:)
  then obtain ns where ns: "intset_members e data 8 l = Ok (map dec_int ns)"
    "length ns = l" "intset_encode_body (unat e) ns = drop 8 data"
    "\<forall>n \<in> set ns. - (256 ^ unat e) \<le> 2 * n \<and> 2 * n < 256 ^ unat e"
    by (rule intset_members_total [OF c(2,3)])
  have "to_le 4 (unat e) = take 4 data" "to_le 4 l = take 4 (drop 4 data)"
    using len to_le_le_nat [of "take 4 data"] to_le_le_nat [of "take 4 (drop 4 data)"]
    by (simp_all add: unat_from_le flip: e l)
  then have "data = intset_encode (unat e) ns"
    unfolding intset_encode_def ns(2,3) by (metis append_take_drop_id drop_drop numeral_Bit0)
  moreover have "unat e \<in> {2, 4, 8}"
    using c(2) by auto
  ultimately show "\<exists>w ns. intset_ok w ns \<and> data = intset_encode w ns \<and> ms = map dec_int ns"
    using ns m c(1) by (intro exI [of _ "unat e"] exI [of _ ns]) (simp add: intset_ok_iff)
next
  assume "\<exists>w ns. intset_ok w ns \<and> data = intset_encode w ns \<and> ms = map dec_int ns"
  then obtain w ns where w: "intset_ok w ns" "data = intset_encode w ns" "ms = map dec_int ns"
    by blast
  let ?b = "intset_encode_body w ns"
  from w(1) have v: "w = 2 \<or> w = 4 \<or> w = 8" and n: "length ns \<le> 10000000"
    by (auto simp: intset_ok_iff MAX_INTSET_ELEMENTS_def)
  have d: "take 4 data = to_le 4 w" "take 4 (drop 4 data) = to_le 4 (length ns)"
    "drop 8 data = ?b" "8 \<le> length data" "length data = 8 + length ns * w"
    by (simp_all add: w(2) intset_encode_def)
  have e: "(from_le (to_le 4 w) :: u32) = word_of_nat w"
    "unat (from_le (to_le 4 (length ns)) :: u32) = length ns"
    using n by (simp_all add: from_le_to_le unat_of_nat)
  then have f: "from_le (take 4 data) = (word_of_nat w :: u32)"
    "unat (from_le (take 4 (drop 4 data)) :: u32) = length ns"
    unfolding d(1,2) by this+
  have u: "unat (word_of_nat w :: u32) = w"
    "(word_of_nat w :: u32) = 2 \<or> (word_of_nat w :: u32) = 4 \<or> (word_of_nat w :: u32) = 8"
    using v by auto
  have "length data \<le> usize_max"
    using v n by (auto simp: d(5) usize_max_def)
  moreover have "length data = 8 + length ns * unat (word_of_nat w :: u32)"
    by (simp add: u d)
  ultimately obtain ns' where ns': "intset_members (word_of_nat w) data 8 (length ns)
      = Ok (map dec_int ns')" "length ns' = length ns" "intset_encode_body w ns' = ?b"
    "\<forall>n \<in> set ns'. - (256 ^ w) \<le> 2 * n \<and> 2 * n < 256 ^ w"
    using intset_members_total [OF u(2), of data 8 "length ns"] u(1) d(3) by metis
  have "ns' = ns"
    using ns' w(1) by (intro intset_body_inj [of w]) (auto simp: intset_ok_iff)
  with ns'(1) show "intset_decode data = Ok ms"
    using n u(2) ns'(1) \<open>length data = 8 + length ns * unat _\<close>
    unfolding intset_decode_shape [OF d(4) f]
    by (simp add: MAX_INTSET_ELEMENTS_def w(3))
qed

lemma intset_value_no_panic:
  "pos + unat enc \<le> length data \<Longrightarrow> enc = 2 \<or> enc = 4 \<or> enc = 8 \<Longrightarrow>
   intset_value enc data pos \<noteq> Panic"
  by (auto elim!: intset_value_inv [of pos enc data])

lemma intset_decode_no_panic [no_panic, simp]: "intset_decode data \<noteq> Panic"
proof (cases "8 \<le> length data")
  case True
  obtain e l where e: "from_le (take 4 data) = (e :: u32)"
    and l: "unat (from_le (take 4 (drop 4 data)) :: u32) = l" by blast
  have "intset_members e data 8 l \<noteq> Panic"
    if c: "l \<le> MAX_INTSET_ELEMENTS" "e = 2 \<or> e = 4 \<or> e = 8" "length data = 8 + l * unat e"
  proof -
    have "length data \<le> usize_max"
      using intset_size_small [OF c(1,2)] c(3) by (simp only:)
    then obtain ns where "intset_members e data 8 l = Ok (map dec_int ns)"
      by (rule intset_members_total [OF c(2,3)])
    then show ?thesis by simp
  qed
  then show ?thesis
    unfolding intset_decode_shape [OF True e l] by simp
next
  case False
  then show ?thesis by (simp add: intset_decode_def INTSET_HDR_SIZE_def)
qed

end
