(* ===== verification/Reader_Iter.thy ===== *)
theory Reader_Iter
  imports Reader_Values
begin

text \<open>
  \<open>crates/rdb-parser/src/reader.rs\<close>, third part: the reader itself.  \<open>RdbReader\<close> is a
  record of the CRC reader and the state carried between calls of \<open>next\<close>; its methods pass
  that record along and return it in every outcome.  The opcode loop is a function whose
  measure is the input left (plus a byte held back by the preamble).
\<close>

section \<open>State\<close>

record chunked_state =
  ch_db :: u32
  ch_key :: bytes
  ch_type_code :: u8
  ch_expiry_ms :: "i64 option"
  ch_lru_idle_secs :: "u64 option"
  ch_lfu_frequency :: "u8 option"
  ch_total_count :: usize
  ch_remaining :: usize
  ch_element_offset :: u64

record rdb_reader =
  reader :: crc_reader
  header :: rdb_header
  metadata :: rdb_metadata
  current_db :: u32
  pending_expiry_ms :: "i64 option"
  pending_lru_idle :: "u64 option"
  pending_lfu_freq :: "u8 option"
  preamble_byte :: "u8 option"
  finished :: bool
  max_key_elements :: "usize option"
  chunked :: "chunked_state option"
  crc_checked :: bool

type_synonym 'a rr = "(rdb_reader, 'a, rdb_error) st"

definition DEFAULT_MAX_KEY_ELEMENTS :: usize where "DEFAULT_MAX_KEY_ELEMENTS = 50000"
definition RDB_VERSION_MAX_REDIS_NATIVE :: u32 where "RDB_VERSION_MAX_REDIS_NATIVE = 11"
definition RDB_VERSION_VALKEY :: u32 where "RDB_VERSION_VALKEY = 80"

text \<open>Run an operation on the CRC reader inside the whole reader.\<close>

definition on_reader :: "'a rd \<Rightarrow> 'a rr" where
  "on_reader m r = (case m (reader r) of (res, s) \<Rightarrow> (res, r\<lparr>reader := s\<rparr>))"

definition modify :: "(rdb_reader \<Rightarrow> rdb_reader) \<Rightarrow> unit rr" where
  "modify f r = (Ok (), f r)"

definition gets :: "(rdb_reader \<Rightarrow> 'a) \<Rightarrow> 'a rr" where
  "gets f r = (Ok (f r), r)"

section \<open>Header and construction\<close>

definition read_header :: "rdb_header rd" where
  "read_header = st_bind (read_exact 9) (\<lambda>buf.
     st_bind
       (if take 6 buf = str_bytes ''REDIS0'' then st_ret Redis
        else if take 6 buf = str_bytes ''VALKEY'' then st_ret Valkey
        else st_err InvalidMagic) (\<lambda>magic.
     st_bind (st_lift (slice buf 6 9)) (\<lambda>v.
     st_bind (st_lift (ok_or InvalidMagic (from_utf8 v))) (\<lambda>version_str.
     st_bind (st_lift (ok_or InvalidMagic (parse_unsigned 32 version_str))) (\<lambda>n.
     let version = word_of_nat n;
         valid = (case magic of
             Redis \<Rightarrow> 1 \<le> version \<and> version \<le> RDB_VERSION_MAX_REDIS_NATIVE
           | Valkey \<Rightarrow> version = RDB_VERSION_VALKEY) in
     if \<not> valid then st_err (UnsupportedVersion version)
     else st_ret \<lparr>magic = magic, version = version\<rparr>)))))"

definition read_aux_field :: "unit rr" where
  "read_aux_field =
     st_bind (on_reader read_string) (\<lambda>key. st_bind (on_reader read_string) (\<lambda>value.
     st_bind (st_lift (ok_or (CorruptData ''AUX key is not valid UTF-8'') (from_utf8 key)))
       (\<lambda>key_str.
     let val_str = (case from_utf8 value of Some v \<Rightarrow> v | None \<Rightarrow> from_utf8_lossy value) in
     modify (\<lambda>r. r\<lparr>metadata := (metadata r)\<lparr>aux := (aux (metadata r))(key_str \<mapsto> val_str)\<rparr>\<rparr>))))"

text \<open>The bytes a loop of the reader may still consume.\<close>

definition left :: "rdb_reader \<Rightarrow> nat" where
  "left r = length (inner (reader r)) + (if preamble_byte r = None then 0 else 1)"

lemma on_reader_simps:
  "on_reader m r = (res, r') \<longleftrightarrow> (\<exists>s. m (reader r) = (res, s) \<and> r' = r\<lparr>reader := s\<rparr>)"
  by (auto simp: on_reader_def split: prod.splits)

lemma read_aux_field_left:
  "read_aux_field r = (Ok u, r') \<Longrightarrow>
     length (inner (reader r')) \<le> length (inner (reader r)) \<and> preamble_byte r' = preamble_byte r"
  by (auto simp: read_aux_field_def st_bind_Ok_iff on_reader_simps Let_def modify_def
      dest!: reader_ok_shrinks [OF reader_ok_read_string])

function read_preamble :: "unit rr" where
  "read_preamble r =
     st_bind (on_reader read_u8) (\<lambda>byte r.
       if byte = RDB_OPCODE_AUX then st_bind read_aux_field (\<lambda>_ r. read_preamble r) r
       else (Ok (), r\<lparr>preamble_byte := Some byte\<rparr>)) r"
  by pat_completeness auto
termination
proof (relation "measure (\<lambda>r. length (inner (reader r)))", goal_cases)
  case 2
  then show ?case
    using progressesD [OF progresses_read_u8] read_aux_field_left
    by (fastforce simp: on_reader_simps)
qed simp

declare read_preamble.simps [simp del]

text \<open>\<open>RdbReader::new\<close> on a source that holds \<open>input\<close> and then ends with \<open>src_end\<close>.\<close>

definition initial_reader :: "bytes \<Rightarrow> io_error \<Rightarrow> crc_reader" where
  "initial_reader input ending = \<lparr>inner = input, src_end = ending, crc = 0\<rparr>"

definition reader_new :: "bytes \<Rightarrow> io_error \<Rightarrow> rdb_reader parsed" where
  "reader_new input ending =
     (case read_header (initial_reader input ending) of
        (Ok hdr, s) \<Rightarrow>
          (let rdr = \<lparr>reader = s, header = hdr, metadata = \<lparr>aux = Map.empty\<rparr>, current_db = 0,
               pending_expiry_ms = None, pending_lru_idle = None, pending_lfu_freq = None,
               preamble_byte = None, finished = False,
               max_key_elements = Some DEFAULT_MAX_KEY_ELEMENTS, chunked = None,
               crc_checked = False\<rparr>
           in (case read_preamble rdr of
                 (Ok _, rdr) \<Rightarrow> Ok rdr
               | (Err e, _) \<Rightarrow> Err e
               | (Panic, _) \<Rightarrow> Panic))
      | (Err e, _) \<Rightarrow> Err e
      | (Panic, _) \<Rightarrow> Panic)"

definition with_max_key_elements :: "usize \<Rightarrow> rdb_reader \<Rightarrow> rdb_reader parsed" where
  "with_max_key_elements limit r =
     (if limit > 0 then Ok (r\<lparr>max_key_elements := Some limit\<rparr>) else Panic)"

definition without_chunking :: "rdb_reader \<Rightarrow> rdb_reader" where
  "without_chunking r = r\<lparr>max_key_elements := None\<rparr>"

section \<open>One key\<close>

definition make_entry :: "u32 \<Rightarrow> bytes \<Rightarrow> rdb_value \<Rightarrow> u8 \<Rightarrow> i64 option \<Rightarrow> u64 option \<Rightarrow> u8 option \<Rightarrow>
  u64 option \<Rightarrow> u64 option \<Rightarrow> rdb_entry" where
  "make_entry db key value type_code expiry lru lfu tot off =
     \<lparr>e_db = db, e_key = key, e_value = value, e_type_code = type_code, e_expiry_ms = expiry,
      e_lru_idle_secs = lru, e_lfu_frequency = lfu, e_total_elements = tot,
      e_element_offset = off\<rparr>"

definition take_pending :: "(i64 option \<times> u64 option \<times> u8 option) rr" where
  "take_pending r =
     (Ok (pending_expiry_ms r, pending_lru_idle r, pending_lfu_freq r),
      r\<lparr>pending_expiry_ms := None, pending_lru_idle := None, pending_lfu_freq := None\<rparr>)"

definition read_entry :: "u8 \<Rightarrow> rdb_entry rr" where
  "read_entry type_code =
     st_bind take_pending (\<lambda>(expiry_ms, lru_idle_secs, lfu_frequency).
     st_bind (on_reader read_string) (\<lambda>key.
     st_bind (gets current_db) (\<lambda>db.
     st_bind (gets max_key_elements) (\<lambda>max_elements.
     case max_elements of
       Some limit \<Rightarrow>
         if is_plain_type type_code then
           st_bind (on_reader read_count) (\<lambda>count.
           if count > limit then
             st_bind (on_reader (read_n_elements type_code limit)) (\<lambda>value.
             let remaining = count - limit in
             st_bind
               (if remaining > 0 then
                  modify (\<lambda>r. r\<lparr>chunked := Some
                    \<lparr>ch_db = db, ch_key = key, ch_type_code = type_code,
                     ch_expiry_ms = expiry_ms, ch_lru_idle_secs = lru_idle_secs,
                     ch_lfu_frequency = lfu_frequency, ch_total_count = count,
                     ch_remaining = remaining, ch_element_offset = word_of_nat limit\<rparr>\<rparr>)
                else st_ret ()) (\<lambda>_.
             st_ret (make_entry db key value type_code expiry_ms lru_idle_secs lfu_frequency
                       (Some (word_of_nat count)) (Some 0))))
           else
             st_bind (on_reader (read_n_elements type_code count)) (\<lambda>value.
             st_ret (make_entry db key value type_code expiry_ms lru_idle_secs lfu_frequency
                       None None)))
         else
           st_bind (on_reader (read_value type_code)) (\<lambda>value.
           st_ret (make_entry db key value type_code expiry_ms lru_idle_secs lfu_frequency
                     None None))
     | None \<Rightarrow>
         st_bind (on_reader (read_value type_code)) (\<lambda>value.
         st_ret (make_entry db key value type_code expiry_ms lru_idle_secs lfu_frequency
                   None None))))))"

text \<open>
  \<open>state.element_offset += chunk_size as u64\<close> is checked arithmetic in a debug build; the
  subtraction from \<open>remaining\<close> cannot underflow because the chunk is at most that.
\<close>

definition read_chunk :: "rdb_entry rr" where
  "read_chunk r =
     (case chunked r of
        None \<Rightarrow> (Err (CorruptData ''read_chunk called without chunked state''), r)
      | Some st \<Rightarrow>
        (case max_key_elements r of
           None \<Rightarrow> (Err (CorruptData ''chunked state without max_key_elements''), r)
         | Some limit \<Rightarrow>
             let chunk_size = min limit (ch_remaining st) in
             st_bind (on_reader (read_n_elements (ch_type_code st) chunk_size)) (\<lambda>value r.
               (case chunked r of
                  None \<Rightarrow> (Err (CorruptData ''internal: chunked state missing after read_n_elements''), r)
                | Some st' \<Rightarrow>
                    if unat (ch_element_offset st') + chunk_size \<ge> 2 ^ 64 then (Panic, r)
                    else
                    let st' = st'\<lparr>ch_remaining := ch_remaining st' - chunk_size,
                          ch_element_offset := ch_element_offset st' + word_of_nat chunk_size\<rparr>;
                        r = r\<lparr>chunked := (if ch_remaining st' = 0 then None else Some st')\<rparr>
                    in (Ok (make_entry (ch_db st) (ch_key st) value (ch_type_code st)
                              (ch_expiry_ms st) (ch_lru_idle_secs st) (ch_lfu_frequency st)
                              (Some (word_of_nat (ch_total_count st)))
                              (Some (ch_element_offset st))), r))) r))"

section \<open>The opcode loop\<close>

definition take_byte :: "u8 rr" where
  "take_byte r =
     (case preamble_byte r of
        Some b \<Rightarrow> (Ok b, r\<lparr>preamble_byte := None\<rparr>)
      | None \<Rightarrow> on_reader read_u8 r)"

text \<open>
  The arm of \<open>RDB_OPCODE_EOF\<close>: the trailer is read past the CRC, and compared when the
  version and the trailer ask for it.
\<close>

definition read_eof :: "rdb_entry option rr" where
  "read_eof =
     st_bind (gets (\<lambda>r. crc (reader r))) (\<lambda>computed_crc.
     st_bind (on_reader (read_exact_raw 8)) (\<lambda>crc_buf.
     let stored_crc = from_le crc_buf in
     st_bind (gets (\<lambda>r. version (header r))) (\<lambda>version.
     st_bind
       (if version \<ge> 5 \<and> stored_crc \<noteq> 0 then
          if computed_crc \<noteq> stored_crc then
            st_err (CorruptData ''CRC64 mismatch: computed 0x{:016x}, stored 0x{:016x}'')
          else modify (\<lambda>r. r\<lparr>crc_checked := True\<rparr>)
        else st_ret ()) (\<lambda>_.
     st_bind (modify (\<lambda>r. r\<lparr>finished := True\<rparr>)) (\<lambda>_.
     st_ret None)))))"

definition skip_slot_range :: "unit rd" where
  "skip_slot_range = st_bind read_length_value (\<lambda>_. st_bind read_length_value (\<lambda>_. st_ret ()))"

text \<open>
  The arms that only read and go on.  \<open>i32 * 1000\<close> always fits an \<open>i64\<close>; the check is the
  code's \<open>checked_mul\<close>.
\<close>

definition select_db :: "unit rr" where
  "select_db =
     st_bind (on_reader read_length_value) (\<lambda>db.
     st_bind (st_lift (if unat db < 2 ^ 32 then Ok (ucast db)
                       else Err (CorruptData ''db index {} exceeds u32''))) (\<lambda>db.
     modify (\<lambda>r. r\<lparr>current_db := db\<rparr>)))"

definition expire_seconds :: "unit rr" where
  "expire_seconds =
     st_bind (on_reader read_i32_le) (\<lambda>secs.
     st_bind (st_lift (if i64_range (secs * 1000) then Ok (secs * 1000)
                       else Err (CorruptData ''EXPIRETIME overflow: {secs} seconds''))) (\<lambda>ms.
     modify (\<lambda>r. r\<lparr>pending_expiry_ms := Some ms\<rparr>)))"

text \<open>
  One turn of the loop: \<open>None\<close> is \<open>continue\<close>, \<open>Some x\<close> is \<open>return Ok(x)\<close>.
\<close>

definition continue :: "unit rr \<Rightarrow> rdb_entry option option rr" where
  "continue m = st_bind m (\<lambda>_. st_ret None)"

definition opcode_step :: "u8 \<Rightarrow> rdb_entry option option rr" where
  "opcode_step byte =
     (if byte = RDB_OPCODE_AUX then continue read_aux_field
      else if byte = RDB_OPCODE_SELECTDB then continue select_db
      else if byte = RDB_OPCODE_RESIZEDB then continue (on_reader skip_slot_range)
      else if byte = RDB_OPCODE_EXPIRETIME_MS then
        continue (st_bind (on_reader read_i64_le) (\<lambda>ms.
          modify (\<lambda>r. r\<lparr>pending_expiry_ms := Some ms\<rparr>)))
      else if byte = RDB_OPCODE_EXPIRETIME then continue expire_seconds
      else if byte = RDB_OPCODE_IDLE then
        continue (st_bind (on_reader read_length_value) (\<lambda>idle.
          modify (\<lambda>r. r\<lparr>pending_lru_idle := Some idle\<rparr>)))
      else if byte = RDB_OPCODE_FREQ then
        continue (st_bind (on_reader read_u8) (\<lambda>freq.
          modify (\<lambda>r. r\<lparr>pending_lfu_freq := Some freq\<rparr>)))
      else if byte = RDB_OPCODE_EOF then st_bind read_eof (\<lambda>x. st_ret (Some x))
      else if byte = RDB_OPCODE_FUNCTION2 then
        continue (on_reader (st_bind read_string (\<lambda>_. st_ret ())))
      else if byte = RDB_OPCODE_FUNCTION_PRE_GA then
        st_err (CorruptData ''FUNCTION_PRE_GA opcode is not supported'')
      else if byte = RDB_OPCODE_MODULE_AUX then
        continue (on_reader (st_bind (st_repeat 3 read_length_value) (\<lambda>_. skip_module_data)))
      else if byte = RDB_OPCODE_SLOT_INFO then
        continue (on_reader (st_bind (st_repeat 3 read_length_value) (\<lambda>_. st_ret ())))
      else if byte = RDB_OPCODE_SLOT_IMPORT then
        continue (on_reader (st_bind read_string (\<lambda>_. st_bind read_count (\<lambda>num_ranges.
          st_bind (st_repeat num_ranges skip_slot_range) (\<lambda>_. st_ret ())))))
      else if is_object_type byte then
        st_bind (read_entry byte) (\<lambda>e. st_ret (Some (Some e)))
      else st_err (CorruptData ''unexpected byte 0x{:02x} in opcode position''))"

section \<open>What every operation keeps\<close>

text \<open>
  A chunked read in progress: of a plain type, with something left, and with the offset and
  the remainder adding up to the announced count.
\<close>

definition chunk_ok :: "rdb_reader \<Rightarrow> bool" where
  "chunk_ok r \<longleftrightarrow> (case chunked r of None \<Rightarrow> True | Some c \<Rightarrow>
     is_plain_type (ch_type_code c) \<and> 0 < ch_remaining c \<and>
     unat (ch_element_offset c) + ch_remaining c = ch_total_count c \<and>
     ch_total_count c \<le> 536870912)"

definition calm :: "rdb_reader \<Rightarrow> rdb_reader \<Rightarrow> bool" where
  "calm r r' \<longleftrightarrow> frame (reader r) (reader r') \<and> header r' = header r \<and>
     preamble_byte r' = preamble_byte r \<and> finished r' = finished r \<and>
     crc_checked r' = crc_checked r \<and> max_key_elements r' = max_key_elements r"

definition rr_ok :: "'a rr \<Rightarrow> bool" where
  "rr_ok m \<longleftrightarrow> (\<forall>r. fst (m r) \<noteq> Panic \<and> calm r (snd (m r)) \<and>
     (chunk_ok r \<longrightarrow> chunk_ok (snd (m r))))"

named_theorems rr_intros \<open>operations on the whole reader keep its invariants\<close>

lemma rr_okD:
  assumes "rr_ok m" "m r = (res, r')"
  shows "res \<noteq> Panic" "calm r r'" "chunk_ok r \<Longrightarrow> chunk_ok r'"
  using assms by (auto simp: rr_ok_def dest!: spec [of _ r])

lemma rr_ok_no_panic: "rr_ok m \<Longrightarrow> m r \<noteq> (Panic, r')"
  by (auto dest: rr_okD(1))

lemma calm_refl [simp]: "calm r r"
  by (simp add: calm_def)

lemma calm_trans: "calm r s \<Longrightarrow> calm s t \<Longrightarrow> calm r t"
  by (auto simp: calm_def intro: frame_trans)

lemma rr_ok_ret [rr_intros]: "rr_ok (st_ret a)"
  and rr_ok_err [rr_intros]: "rr_ok (st_err e)"
  and rr_ok_gets [rr_intros]: "rr_ok (gets f)"
  by (simp_all add: rr_ok_def gets_def)

lemma rr_ok_lift [rr_intros]: "m \<noteq> Panic \<Longrightarrow> rr_ok (st_lift m)"
  by (simp add: rr_ok_def)

lemma rr_ok_modify [rr_intros]:
  "(\<And>r. calm r (f r)) \<Longrightarrow> (\<And>r. chunk_ok r \<Longrightarrow> chunk_ok (f r)) \<Longrightarrow> rr_ok (modify f)"
  by (simp add: rr_ok_def modify_def)

lemma rr_ok_on_reader [rr_intros]: "reader_ok m \<Longrightarrow> rr_ok (on_reader m)"
proof -
  assume m: "reader_ok m"
  show ?thesis
    unfolding rr_ok_def
  proof
    fix r :: rdb_reader
    obtain res s where e: "m (reader r) = (res, s)"
      by (cases "m (reader r)")
    with reader_okD(1) [OF m, of "reader r"] reader_okD(2) [OF m e]
    show "fst (on_reader m r) \<noteq> Panic \<and> calm r (snd (on_reader m r)) \<and>
        (chunk_ok r \<longrightarrow> chunk_ok (snd (on_reader m r)))"
      by (simp add: on_reader_def calm_def chunk_ok_def)
  qed
qed

lemma rr_ok_bind_dep:
  assumes m: "rr_ok m" and f: "\<And>a r r'. m r = (Ok a, r') \<Longrightarrow> rr_ok (f a)"
  shows "rr_ok (st_bind m f)"
  unfolding rr_ok_def
proof
  fix r
  obtain res r' where e: "m r = (res, r')"
    by (cases "m r")
  note m = rr_okD [OF m e]
  show "fst (st_bind m f r) \<noteq> Panic \<and> calm r (snd (st_bind m f r)) \<and>
      (chunk_ok r \<longrightarrow> chunk_ok (snd (st_bind m f r)))"
  proof (cases res)
    case (Ok a)
    obtain res2 r2 where e2: "f a r' = (res2, r2)"
      by (cases "f a r'")
    with rr_okD [OF f e2] e Ok m show ?thesis
      by (auto intro: calm_trans)
  qed (use e m in simp_all)
qed

lemma rr_ok_bind [rr_intros]: "rr_ok m \<Longrightarrow> (\<And>a. rr_ok (f a)) \<Longrightarrow> rr_ok (st_bind m f)"
  by (rule rr_ok_bind_dep)

lemma rr_ok_if [rr_intros]:
  "(c \<Longrightarrow> rr_ok m) \<Longrightarrow> (\<not> c \<Longrightarrow> rr_ok m') \<Longrightarrow> rr_ok (if c then m else m')"
  by simp

lemma rr_ok_option [rr_intros]:
  "rr_ok m \<Longrightarrow> (\<And>x. rr_ok (f x)) \<Longrightarrow> rr_ok (case v of None \<Rightarrow> m | Some x \<Rightarrow> f x)"
  by (cases v) simp_all

lemma rr_ok_prod [rr_intros]: "(\<And>a b. rr_ok (f a b)) \<Longrightarrow> rr_ok (case p of (a, b) \<Rightarrow> f a b)"
  by (cases p) simp

lemma rr_ok_take_pending [rr_intros]: "rr_ok take_pending"
  by (simp add: rr_ok_def take_pending_def calm_def chunk_ok_def)

lemma rr_ok_read_aux_field [rr_intros]: "rr_ok read_aux_field"
  unfolding read_aux_field_def Let_def
  by (intro rr_intros reader_intros) (simp_all add: calm_def chunk_ok_def)

lemma read_count_Ok:
  "on_reader read_count r = (Ok n, r') \<Longrightarrow> n \<le> 536870912"
  by (auto simp: on_reader_simps read_count_def st_bind_Ok_iff len_to_usize_Ok_iff
      MAX_ALLOC_BYTES_def word_le_nat_alt)

lemma rr_ok_read_entry [rr_intros]: "rr_ok (read_entry t)"
proof -
  have chunk: "rr_ok (modify (chunked_update (\<lambda>_. Some \<lparr>ch_db = db, ch_key = key, ch_type_code = t,
      ch_expiry_ms = ex, ch_lru_idle_secs = lru, ch_lfu_frequency = lfu, ch_total_count = count,
      ch_remaining = count - limit, ch_element_offset = word_of_nat limit\<rparr>)))"
    if "limit < count" "count \<le> 536870912" "is_plain_type t" for db key ex lru lfu limit count
    using that by (intro rr_intros) (simp_all add: calm_def chunk_ok_def unat_of_nat)
  have count: "rr_ok (st_bind (on_reader read_count) f)"
    if "\<And>n. n \<le> 536870912 \<Longrightarrow> rr_ok (f n)" for f :: "usize \<Rightarrow> rdb_entry rr"
    by (rule rr_ok_bind_dep [OF rr_ok_on_reader [OF reader_ok_read_count]])
      (auto dest: read_count_Ok intro: that)
  show ?thesis
    unfolding read_entry_def Let_def
    by (rule count chunk | assumption | rule rr_intros reader_intros)+
qed

lemma rr_ok_arms [rr_intros]:
  "rr_ok select_db" "rr_ok expire_seconds" "rr_ok m \<Longrightarrow> rr_ok (continue m)"
  unfolding select_db_def expire_seconds_def continue_def
  by (intro rr_intros reader_intros; simp add: calm_def chunk_ok_def)+

lemma rr_ok_opcode_step: "byte \<noteq> RDB_OPCODE_EOF \<Longrightarrow> rr_ok (opcode_step byte)"
  unfolding opcode_step_def
  by (intro rr_intros reader_intros; simp add: calm_def chunk_ok_def skip_slot_range_def reader_intros)

text \<open>The end of the file, in closed form.\<close>

definition wants_check :: "rdb_reader \<Rightarrow> bytes \<Rightarrow> bool" where
  "wants_check r trailer \<longleftrightarrow> version (header r) \<ge> 5 \<and> (from_le trailer :: u64) \<noteq> 0"

lemma read_eof_short:
  "length (inner (reader r)) < 8 \<Longrightarrow>
   read_eof r = (Err (Io (src_end (reader r))), r\<lparr>reader := (reader r)\<lparr>inner := []\<rparr>\<rparr>)"
  by (simp add: read_eof_def gets_def on_reader_def read_exact_raw_def st_bind_def)

lemma read_eof_full:
  assumes "inner (reader r) = trailer @ rest" "length trailer = 8"
  shows "read_eof r =
    (if wants_check r trailer \<and> from_le trailer \<noteq> crc (reader r) then
       (Err (CorruptData ''CRC64 mismatch: computed 0x{:016x}, stored 0x{:016x}''),
        r\<lparr>reader := (reader r)\<lparr>inner := rest\<rparr>\<rparr>)
     else (Ok None, r\<lparr>reader := (reader r)\<lparr>inner := rest\<rparr>, finished := True,
             crc_checked := crc_checked r \<or> wants_check r trailer\<rparr>))"
proof -
  have raw: "on_reader (read_exact_raw 8) r = (Ok trailer, r\<lparr>reader := (reader r)\<lparr>inner := rest\<rparr>\<rparr>)"
    using assms by (simp add: on_reader_def read_exact_raw_def)
  show ?thesis
    unfolding read_eof_def gets_def modify_def Let_def wants_check_def
    by (cases "5 \<le> version (header r)"; cases "(from_le trailer :: u64) = 0")
      (auto simp: raw st_bind_def intro!: rdb_reader.equality)
qed

lemma opcode_step_eof: "opcode_step RDB_OPCODE_EOF = st_bind read_eof (\<lambda>x. st_ret (Some x))"
  by (simp add: opcode_step_def)

lemma read_eof_cases:
  obtains (short) "length (inner (reader r)) < 8"
  | (full) trailer rest where "inner (reader r) = trailer @ rest" "length trailer = 8"
proof (cases "length (inner (reader r)) < 8")
  case False
  then show thesis
    by (intro full [of "take 8 (inner (reader r))" "drop 8 (inner (reader r))"]) auto
qed (rule short)

lemma read_eof_left: "read_eof r = (res, r') \<Longrightarrow> left r' \<le> left r \<and> res \<noteq> Panic"
  by (cases r rule: read_eof_cases)
    (auto simp: read_eof_short read_eof_full left_def split: if_splits)

lemma calm_left: "calm r r' \<Longrightarrow> left r' \<le> left r"
  by (auto simp: calm_def left_def frame_def)

lemma opcode_step_left: "opcode_step byte r = (res, r') \<Longrightarrow> left r' \<le> left r \<and> res \<noteq> Panic"
proof (cases "byte = RDB_OPCODE_EOF")
  case True
  assume "opcode_step byte r = (res, r')"
  moreover obtain q t where "read_eof r = (q, t)"
    by (cases "read_eof r")
  ultimately show ?thesis
    using read_eof_left [of r q t] unfolding True opcode_step_eof by (cases q) auto
next
  case False
  assume "opcode_step byte r = (res, r')"
  from rr_okD(1,2) [OF rr_ok_opcode_step [OF False] this] show ?thesis
    by (simp add: calm_left)
qed

lemma take_byte_Ok: "take_byte r = (Ok b, r') \<Longrightarrow> left r' < left r \<and> preamble_byte r' = None"
  using progressesD [OF progresses_read_u8]
  by (auto simp: take_byte_def left_def on_reader_simps split: option.splits)

function opcode_loop :: "rdb_entry option rr" where
  "opcode_loop r = st_bind take_byte (\<lambda>byte. st_bind (opcode_step byte) (\<lambda>returned r.
     (case returned of Some x \<Rightarrow> (Ok x, r) | None \<Rightarrow> opcode_loop r))) r"
  by pat_completeness auto
termination
proof (relation "measure left", goal_cases)
  case 2
  then show ?case
    by (auto dest!: take_byte_Ok opcode_step_left)
qed simp

declare opcode_loop.simps [simp del]

text \<open>\<open>Iterator::next\<close>; a panic inside is passed on as the item \<open>Panic\<close>.\<close>

definition next_inner :: "rdb_entry option rr" where
  "next_inner r =
     (if chunked r \<noteq> None then st_bind read_chunk (\<lambda>e. st_ret (Some e)) r else opcode_loop r)"

definition reader_next :: "rdb_reader \<Rightarrow> rdb_entry parsed option \<times> rdb_reader" where
  "reader_next r =
     (if finished r then (None, r)
      else (case next_inner r of
          (Ok None, r) \<Rightarrow> (None, r)
        | (Ok (Some e), r) \<Rightarrow> (Some (Ok e), r)
        | (Err e, r) \<Rightarrow>
            (case e of
               UnknownType t \<Rightarrow> (Some (Err (UnknownType t)), r)
             | _ \<Rightarrow> (Some (Err e), r\<lparr>finished := True\<rparr>))
        | (Panic, r) \<Rightarrow> (Some Panic, r)))"

text \<open>What a turn of the loop can do, as an induction rule.\<close>

lemma take_byte_cases:
  obtains (byte) b s where "take_byte r = (Ok b, s)"
  | (ended) e s where "take_byte r = (Err (Io e), s)" "calm r s"
proof (cases "preamble_byte r")
  case (Some b)
  then show thesis
    by (intro byte [of b "r\<lparr>preamble_byte := None\<rparr>"]) (simp add: take_byte_def)
next
  case None
  show thesis
  proof (cases "inner (reader r)")
    case Nil
    then have "take_byte r = (Err (Io (src_end (reader r))),
        r\<lparr>reader := (reader r)\<lparr>inner := [], crc := crc64 (crc (reader r)) []\<rparr>\<rparr>)"
      using None by (simp add: take_byte_def on_reader_def read_u8_def read_exact_def st_bind_def)
    moreover from this have "calm r (r\<lparr>reader := (reader r)\<lparr>inner := [],
        crc := crc64 (crc (reader r)) []\<rparr>\<rparr>)"
      using Nil by (auto simp: calm_def frame_def intro!: exI [of _ 0])
    ultimately show thesis
      by (rule ended)
  next
    case (Cons b bs)
    then show thesis
      using None
      by (intro byte [of b "r\<lparr>reader := (reader r)\<lparr>inner := bs, crc := crc64 (crc (reader r)) [b]\<rparr>\<rparr>"])
        (simp add: take_byte_def on_reader_def readsD [OF reads_read_u8, where rest = bs])
  qed
qed

lemma opcode_loop_induct [consumes 1, case_names ended returned failed go_on]:
  assumes "opcode_loop r = (res, r')"
    and "\<And>r e. take_byte r = (Err (Io e), r') \<Longrightarrow> calm r r' \<Longrightarrow> res = Err (Io e) \<Longrightarrow> P r"
    and "\<And>r b s x. take_byte r = (Ok b, s) \<Longrightarrow> opcode_step b s = (Ok (Some x), r') \<Longrightarrow>
      res = Ok x \<Longrightarrow> P r"
    and "\<And>r b s e. take_byte r = (Ok b, s) \<Longrightarrow> opcode_step b s = (Err e, r') \<Longrightarrow>
      res = Err e \<Longrightarrow> P r"
    and "\<And>r b s t. take_byte r = (Ok b, s) \<Longrightarrow> opcode_step b s = (Ok None, t) \<Longrightarrow> P t \<Longrightarrow> P r"
  shows "P r"
  using assms(1)
proof (induction r rule: opcode_loop.induct)
  case (1 r)
  show ?case
  proof (cases r rule: take_byte_cases)
    case (ended e s)
    with 1(2) assms(2) [of r e] show ?thesis
      by (subst (asm) opcode_loop.simps) simp
  next
    case (byte b s)
    obtain q t where q: "opcode_step b s = (q, t)"
      by (cases "opcode_step b s")
    with byte 1(2) have l: "(case q of Ok (Some x) \<Rightarrow> (Ok x, t) | Ok None \<Rightarrow> opcode_loop t
        | Err e \<Rightarrow> (Err e, t) | Panic \<Rightarrow> (Panic, t)) = (res, r')"
      by (subst (asm) opcode_loop.simps) (simp add: st_bind_def split: res.splits option.splits)
    show ?thesis
    proof (cases q)
      case (Ok x)
      show ?thesis
      proof (cases x)
        case None
        with Ok q byte l 1(1) [OF byte, of None t] show ?thesis
          by (intro assms(5) [of r b s t]) simp_all
      next
        case (Some y)
        with Ok q byte l show ?thesis
          by (intro assms(3) [of r b s y]) simp_all
      qed
    next
      case (Err e)
      with q byte l show ?thesis
        by (intro assms(4) [of r b s e]) simp_all
    next
      case Panic
      with q opcode_step_left [OF q] show ?thesis
        by simp
    qed
  qed
qed

section \<open>Chunks\<close>

text \<open>What \<open>read_chunk\<close> does when a chunk is due, without the checks that cannot fail.\<close>

definition after_chunk :: "chunked_state \<Rightarrow> nat \<Rightarrow> chunked_state option" where
  "after_chunk c n = (if ch_remaining c - n = 0 then None
     else Some (c\<lparr>ch_remaining := ch_remaining c - n,
                  ch_element_offset := ch_element_offset c + word_of_nat n\<rparr>))"

definition chunk_entry :: "chunked_state \<Rightarrow> rdb_value \<Rightarrow> rdb_entry" where
  "chunk_entry c value =
     make_entry (ch_db c) (ch_key c) value (ch_type_code c) (ch_expiry_ms c)
       (ch_lru_idle_secs c) (ch_lfu_frequency c) (Some (word_of_nat (ch_total_count c)))
       (Some (ch_element_offset c))"

lemma read_chunk_eq:
  assumes "chunk_ok r" "chunked r = Some c" "max_key_elements r = Some limit"
  shows "read_chunk r =
    (case read_n_elements (ch_type_code c) (min limit (ch_remaining c)) (reader r) of
       (Ok value, s) \<Rightarrow> (Ok (chunk_entry c value),
          r\<lparr>reader := s, chunked := after_chunk c (min limit (ch_remaining c))\<rparr>)
     | (Err e, s) \<Rightarrow> (Err e, r\<lparr>reader := s\<rparr>)
     | (Panic, s) \<Rightarrow> (Panic, r\<lparr>reader := s\<rparr>))"
proof -
  have "unat (ch_element_offset c) + min limit (ch_remaining c) < 2 ^ 64"
    using assms(1,2) by (auto simp: chunk_ok_def)
  then show ?thesis
    using assms(2,3)
    by (auto simp: read_chunk_def Let_def st_bind_def on_reader_def chunk_entry_def
        after_chunk_def split: prod.splits res.splits)
qed

lemma after_chunk_ok:
  assumes "chunk_ok r" "chunked r = Some c"
  shows "chunk_ok (r\<lparr>reader := s, chunked := after_chunk c (min limit (ch_remaining c))\<rparr>)"
proof (cases "ch_remaining c \<le> limit")
  case True
  then show ?thesis
    by (simp add: chunk_ok_def after_chunk_def min_def)
next
  case False
  have c: "unat (ch_element_offset c) + ch_remaining c = ch_total_count c"
    "ch_total_count c \<le> 536870912" "is_plain_type (ch_type_code c)"
    using assms by (simp_all add: chunk_ok_def)
  then have "unat (ch_element_offset c + word_of_nat limit) = unat (ch_element_offset c) + limit"
    using False by (simp add: unat_word_ariths unat_of_nat)
  with c False show ?thesis
    by (simp add: chunk_ok_def after_chunk_def)
qed

text \<open>A chunk reads at least one element, and an element takes at least a byte.\<close>

lemma progresses_read_string: "progresses read_string"
  unfolding read_string_def
  by (intro progresses_bind progresses_read_length) (auto split: len_result.split intro!: reader_intros)

lemma progresses_repeat: "0 < n \<Longrightarrow> progresses m \<Longrightarrow> reader_ok m \<Longrightarrow> progresses (st_repeat n m)"
  by (cases n) (auto intro!: progresses_bind reader_intros)

lemma progresses_read_n_elements: "0 < n \<Longrightarrow> progresses (read_n_elements t n)"
proof -
  assume n: "0 < n"
  have "progresses read_zset_pair" "progresses read_zset2_pair" "progresses read_hash_field"
    "progresses read_hash2_field"
    unfolding read_zset_pair_def read_zset2_pair_def read_hash_field_def read_hash2_field_def
    by (intro progresses_bind progresses_read_string reader_intros)+
  moreover have "progresses (st_err e :: rdb_value rd)" for e
    by (simp add: progresses_def)
  ultimately show ?thesis
    unfolding read_n_elements_def using n
    by (auto intro!: progresses_bind progresses_repeat progresses_read_string reader_intros)
qed

end
