(* ===== verification/Reader_Run.thy ===== *)
theory Reader_Run
  imports Reader_Iter
begin

text \<open>
  Whole runs of the reader of \<open>crates/rdb-parser/src/reader.rs\<close>: the states a caller can
  reach by construction, configuration and calls of \<open>next\<close>, and the loop \<open>for entry in reader\<close>.
  The lemmas establish the invariant of every reachable state and what one call of \<open>next\<close>
  does to it; \<open>Reader_Props\<close> states the consequences.
\<close>

section \<open>Reachable states\<close>

inductive reachable :: "bytes \<Rightarrow> io_error \<Rightarrow> rdb_reader \<Rightarrow> bool" for input ending where
  start: "reader_new input ending = Ok r \<Longrightarrow> reachable input ending r"
| chunking: "reachable input ending r \<Longrightarrow> with_max_key_elements n r = Ok r' \<Longrightarrow>
    reachable input ending r'"
| unchunked: "reachable input ending r \<Longrightarrow> reachable input ending (without_chunking r)"
| step: "reachable input ending r \<Longrightarrow> reader_next r = (item, r') \<Longrightarrow> reachable input ending r'"

definition limit_ok :: "rdb_reader \<Rightarrow> bool" where
  "limit_ok r \<longleftrightarrow> max_key_elements r \<noteq> Some 0"

text \<open>The reader has consumed a prefix of the input, and its CRC is the CRC of that prefix.\<close>

definition tracks :: "bytes \<Rightarrow> rdb_reader \<Rightarrow> bool" where
  "tracks input r \<longleftrightarrow> (\<exists>done_bytes. input = done_bytes @ inner (reader r) \<and>
     crc (reader r) = crc64 0 done_bytes \<and>
     (\<forall>b. preamble_byte r = Some b \<longrightarrow> (\<exists>ds. done_bytes = ds @ [b])))"

text \<open>How a file ends: a body with the EOF opcode last, a trailer, and whatever follows.\<close>

definition ended_at :: "bytes \<Rightarrow> rdb_reader \<Rightarrow> rdb_reader \<Rightarrow> bool" where
  "ended_at input r r' \<longleftrightarrow> (\<exists>body trailer.
     input = body @ [RDB_OPCODE_EOF] @ trailer @ inner (reader r') \<and> length trailer = 8 \<and>
     crc_checked r' = (crc_checked r \<or> wants_check r trailer) \<and>
     (wants_check r trailer \<longrightarrow> from_le trailer = crc64 0 (body @ [RDB_OPCODE_EOF])))"

lemma tracks_frame:
  assumes "tracks input r" "frame (reader r) (reader r')" "preamble_byte r' = None"
  shows "tracks input r'"
proof -
  obtain ds where ds: "input = ds @ inner (reader r)" "crc (reader r) = crc64 0 ds"
    using assms(1) by (auto simp: tracks_def)
  obtain k where "reader r' = reader r\<lparr>inner := drop k (inner (reader r)),
      crc := crc64 (crc (reader r)) (take k (inner (reader r)))\<rparr>"
    using assms(2) by (auto simp: frame_def)
  with ds assms(3) show ?thesis
    unfolding tracks_def
    by (intro exI [of _ "ds @ take k (inner (reader r))"]) (simp add: crc64_append)
qed

lemma take_byte_tracks:
  assumes "tracks input r" "take_byte r = (Ok b, s)"
  obtains ds where "input = (ds @ [b]) @ inner (reader s)" "crc (reader s) = crc64 0 (ds @ [b])"
    "preamble_byte s = None" "tracks input s"
proof -
  obtain ds where ds: "input = ds @ inner (reader r)" "crc (reader r) = crc64 0 ds"
    "\<And>b. preamble_byte r = Some b \<Longrightarrow> \<exists>es. ds = es @ [b]"
    using assms(1) by (auto simp: tracks_def)
  have "\<exists>es. input = (es @ [b]) @ inner (reader s) \<and> crc (reader s) = crc64 0 (es @ [b])"
  proof (cases "preamble_byte r")
    case (Some b')
    with assms(2) ds show ?thesis
      by (auto simp: take_byte_def)
  next
    case None
    then have "on_reader read_u8 r = (Ok b, s)"
      using assms(2) by (simp add: take_byte_def)
    then obtain t where t: "read_u8 (reader r) = (Ok b, t)" "s = r\<lparr>reader := t\<rparr>"
      by (auto simp: on_reader_simps)
    from t(1) have "inner (reader r) \<noteq> []"
      by (auto simp: read_u8_def read_exact_def st_bind_Ok_iff split: if_splits)
    then obtain c cs where "inner (reader r) = [c] @ cs"
      by (cases "inner (reader r)") auto
    with t readsD [OF reads_read_u8 this] ds(1,2) show ?thesis
      by (intro exI [of _ ds]) (auto simp: crc64_append)
  qed
  then obtain es where es: "input = (es @ [b]) @ inner (reader s)" "crc (reader s) = crc64 0 (es @ [b])"
    by blast
  moreover have "preamble_byte s = None"
    using take_byte_Ok [OF assms(2)] by simp
  ultimately show ?thesis
    by (intro that [of es]) (auto simp: tracks_def)
qed

lemma take_byte_keeps:
  "take_byte r = (Ok b, s) \<Longrightarrow> chunked s = chunked r \<and> header s = header r \<and>
     crc_checked s = crc_checked r \<and> finished s = finished r \<and>
     max_key_elements s = max_key_elements r"
  by (auto simp: take_byte_def on_reader_simps split: option.splits)

section \<open>One call of next\<close>

text \<open>What is left of the state when the opcode loop returns.\<close>

definition same_config :: "rdb_reader \<Rightarrow> rdb_reader \<Rightarrow> bool" where
  "same_config r r' \<longleftrightarrow> header r' = header r \<and> max_key_elements r' = max_key_elements r \<and>
     (chunk_ok r \<longrightarrow> chunk_ok r')"

fun returns_ok :: "bytes \<Rightarrow> rdb_reader \<Rightarrow> rdb_entry option parsed \<Rightarrow> rdb_reader \<Rightarrow> bool" where
  "returns_ok input r (Ok None) r' \<longleftrightarrow> finished r' \<and> ended_at input r r'"
| "returns_ok input r (Ok (Some e)) r' \<longleftrightarrow>
     tracks input r' \<and> crc_checked r' = crc_checked r \<and> finished r' = finished r"
| "returns_ok input r (Err (UnknownType t)) r' \<longleftrightarrow>
     tracks input r' \<and> crc_checked r' = crc_checked r \<and> finished r' = finished r"
| "returns_ok input r (Err e) r' \<longleftrightarrow> crc_checked r' = crc_checked r"
| "returns_ok input r Panic r' \<longleftrightarrow> False"

lemma returns_ok_calm:
  assumes "tracks input r" "calm r r'" "preamble_byte r = None" "res \<noteq> Panic" "res \<noteq> Ok None"
  shows "returns_ok input r res r'"
proof -
  have "tracks input r'" "crc_checked r' = crc_checked r" "finished r' = finished r"
    using assms(1-3) tracks_frame by (auto simp: calm_def)
  then show ?thesis
    using assms(4,5) by (cases "(input, r, res, r')" rule: returns_ok.cases) auto
qed

lemma returns_ok_cong:
  "header s = header r \<Longrightarrow> crc_checked s = crc_checked r \<Longrightarrow> finished s = finished r \<Longrightarrow>
   returns_ok input s res r' = returns_ok input r res r'"
  by (cases "(input, r, res, r')" rule: returns_ok.cases) (auto simp: ended_at_def wants_check_def)

lemma opcode_step_eof_only:
  "opcode_step b s = (Ok (Some None), r') \<Longrightarrow> b = RDB_OPCODE_EOF"
  by (auto simp: opcode_step_def continue_def st_bind_Ok_iff split: if_splits)

lemma opcode_step_eof_Ok:
  "opcode_step RDB_OPCODE_EOF s = (res, r') \<Longrightarrow> res \<noteq> Ok None \<and> (\<forall>e. res \<noteq> Ok (Some (Some e)))"
  unfolding opcode_step_eof
  by (cases s rule: read_eof_cases) (auto simp: read_eof_short read_eof_full st_bind_def split: if_splits)

lemma opcode_step_eof_returns:
  assumes "opcode_step RDB_OPCODE_EOF s = (res, r')"
    and "input = (ds @ [RDB_OPCODE_EOF]) @ inner (reader s)"
    "crc (reader s) = crc64 0 (ds @ [RDB_OPCODE_EOF])"
  shows "same_config s r'" "res = Ok (Some x) \<Longrightarrow> returns_ok input s (Ok x) r'"
    "res = Err e \<Longrightarrow> returns_ok input s (Err e) r'"
proof -
  note e = assms(1) [unfolded opcode_step_eof]
  have "same_config s r' \<and> (\<forall>x. res = Ok (Some x) \<longrightarrow> returns_ok input s (Ok x) r') \<and>
      (\<forall>e. res = Err e \<longrightarrow> returns_ok input s (Err e) r')"
  proof (cases s rule: read_eof_cases)
    case short
    with e show ?thesis
      by (auto simp: read_eof_short same_config_def chunk_ok_def st_bind_def)
  next
    case (full trailer rest)
    let ?t = "s\<lparr>reader := (reader s)\<lparr>inner := rest\<rparr>, finished := True,
      crc_checked := crc_checked s \<or> wants_check s trailer\<rparr>"
    have "ended_at input s ?t" if "wants_check s trailer \<longrightarrow> from_le trailer = crc (reader s)"
      unfolding ended_at_def
      by (intro exI [of _ ds] exI [of _ trailer]) (use that full assms(2,3) in simp)
    with e show ?thesis
      by (auto simp: read_eof_full [OF full] same_config_def chunk_ok_def st_bind_def split: if_splits)
  qed
  then show "same_config s r'" "res = Ok (Some x) \<Longrightarrow> returns_ok input s (Ok x) r'"
    "res = Err e \<Longrightarrow> returns_ok input s (Err e) r'"
    by simp_all
qed

lemma calm_same_config: "calm r r' \<Longrightarrow> (chunk_ok r \<Longrightarrow> chunk_ok r') \<Longrightarrow> same_config r r'"
  by (auto simp: calm_def same_config_def)

lemma same_config_trans: "same_config r s \<Longrightarrow> same_config s t \<Longrightarrow> same_config r t"
  by (simp add: same_config_def)

lemma take_byte_config: "take_byte r = (Ok b, s) \<Longrightarrow> same_config r s"
  using take_byte_keeps [of r b s] by (simp add: same_config_def chunk_ok_def)

text \<open>The step after a byte was taken, whatever the byte.\<close>

lemma step_returns:
  assumes "tracks input r" "take_byte r = (Ok b, s)" "opcode_step b s = (res, r')"
  shows "same_config r r'" "res = Ok (Some x) \<Longrightarrow> returns_ok input r (Ok x) r'"
    "res = Err e \<Longrightarrow> returns_ok input r (Err e) r'"
    "res = Ok None \<Longrightarrow> tracks input r' \<and> crc_checked r' = crc_checked r \<and> finished r' = finished r"
proof -
  from take_byte_tracks [OF assms(1,2)] obtain ds
    where ds: "input = (ds @ [b]) @ inner (reader s)" "crc (reader s) = crc64 0 (ds @ [b])"
      "preamble_byte s = None" "tracks input s"
    by blast
  note k = take_byte_keeps [OF assms(2)]
  have cong: "returns_ok input r q t = returns_ok input s q t" for q t
    using k by (intro returns_ok_cong) simp_all
  have "same_config s r' \<and> (\<forall>x. res = Ok (Some x) \<longrightarrow> returns_ok input s (Ok x) r') \<and>
      (\<forall>e. res = Err e \<longrightarrow> returns_ok input s (Err e) r') \<and>
      (res = Ok None \<longrightarrow> tracks input r' \<and> crc_checked r' = crc_checked s \<and> finished r' = finished s)"
  proof (cases "b = RDB_OPCODE_EOF")
    case True
    show ?thesis
      using opcode_step_eof_returns [OF assms(3) [unfolded True] ds(1,2) [unfolded True]]
        opcode_step_eof_Ok [OF assms(3) [unfolded True]]
      by blast
  next
    case False
    note ok = rr_okD [OF rr_ok_opcode_step [OF False] assms(3)]
    have "res = Ok (Some x) \<Longrightarrow> x \<noteq> None" for x
      using opcode_step_eof_only [of b s r'] assms(3) False by auto
    then show ?thesis
      using ok calm_same_config [of s r'] returns_ok_calm [OF ds(4) _ ds(3)]
        tracks_frame [OF ds(4), of r'] ds(3)
      by (auto simp: calm_def)
  qed
  then show "same_config r r'" "res = Ok (Some x) \<Longrightarrow> returns_ok input r (Ok x) r'"
    "res = Err e \<Longrightarrow> returns_ok input r (Err e) r'"
    "res = Ok None \<Longrightarrow> tracks input r' \<and> crc_checked r' = crc_checked r \<and> finished r' = finished r"
    using same_config_trans [OF take_byte_config [OF assms(2)]] k by (simp_all add: cong)
qed

lemma opcode_loop_returns:
  assumes "opcode_loop r = (res, r')" "tracks input r"
  shows "same_config r r' \<and> returns_ok input r res r'"
  using assms
proof (induction rule: opcode_loop_induct)
  case (ended r e)
  then show ?case
    by (auto simp: calm_def same_config_def take_byte_def on_reader_simps chunk_ok_def
        split: option.splits)
next
  case (returned r b s x)
  from step_returns(1,2) [OF returned(4,1,2)] returned(3) show ?case
    by simp
next
  case (failed r b s e)
  from step_returns(1,3) [OF failed(4,1,2)] failed(3) show ?case
    by simp
next
  case (go_on r b s t)
  from step_returns(1,4) [OF go_on(4,1,2)] go_on(3)
  have "same_config r t" "same_config t r'" "returns_ok input t res r'"
    "crc_checked t = crc_checked r" "finished t = finished r"
    by simp_all
  then show ?case
    using returns_ok_cong [of t r input res r'] same_config_trans [of r t r']
    by (simp add: same_config_def)
qed

lemma opcode_loop_left:
  "opcode_loop r = (res, r') \<Longrightarrow> left r' < left r \<or> (\<exists>e. res = Err (Io e))"
proof (induction rule: opcode_loop_induct)
  case (go_on r b s t)
  then show ?case
    using take_byte_Ok [of r b s] opcode_step_left [of b s "Ok None" t] by fastforce
qed (use take_byte_Ok opcode_step_left in fastforce)+

lemma opcode_loop_no_panic: "fst (opcode_loop r) \<noteq> Panic"
proof -
  obtain res r' where l: "opcode_loop r = (res, r')"
    by (cases "opcode_loop r")
  then have "res \<noteq> Panic"
    by (induction rule: opcode_loop_induct) auto
  with l show ?thesis by simp
qed

text \<open>Reading elements never reports an unknown type: that error is the opcode loop's alone.\<close>

definition never_unknown :: "('s, 'a, rdb_error) st \<Rightarrow> bool" where
  "never_unknown m \<longleftrightarrow> (\<forall>s t u. m s \<noteq> (Err (UnknownType t), u))"

named_theorems known_intros \<open>operations that never report an unknown type\<close>

lemma never_unknown_basic [known_intros]:
  "never_unknown (st_ret a)" "never_unknown (st_lift (Ok a))" "never_unknown (st_err (CorruptData c))"
  "never_unknown (read_exact n)" "never_unknown (read_exact_vec n)"
  by (auto simp: never_unknown_def read_exact_vec_def read_exact_def)

lemma never_unknown_lift [known_intros]:
  "(\<And>t. m \<noteq> Err (UnknownType t)) \<Longrightarrow> never_unknown (st_lift m)"
  by (simp add: never_unknown_def)

lemma never_unknown_bind [known_intros]:
  "never_unknown m \<Longrightarrow> (\<And>a. never_unknown (f a)) \<Longrightarrow> never_unknown (st_bind m f)"
  by (simp add: never_unknown_def st_bind_Err_iff)

lemma never_unknown_if [known_intros]:
  "(c \<Longrightarrow> never_unknown m) \<Longrightarrow> (\<not> c \<Longrightarrow> never_unknown m') \<Longrightarrow> never_unknown (if c then m else m')"
  by simp

lemma never_unknown_len [known_intros]:
  "(\<And>n. never_unknown (f n)) \<Longrightarrow> (\<And>b. never_unknown (g b)) \<Longrightarrow>
   never_unknown (case l of Len n \<Rightarrow> f n | Special b \<Rightarrow> g b)"
  by (cases l) simp_all

lemma never_unknown_repeat [known_intros]: "never_unknown m \<Longrightarrow> never_unknown (st_repeat n m)"
  by (induction n) (auto intro!: known_intros)

lemma copy_loop_known: "copy_loop start j n out \<noteq> Err e"
  by (induction n arbitrary: j out) (simp_all add: and_then_Err_iff)

lemma copy_backref_known: "copy_backref offset len out \<noteq> Err e"
  by (simp add: copy_backref_def Let_def and_then_Err_iff copy_loop_known)

lemma lzf_step_known: "lzf_step cs n i out \<noteq> Err (UnknownType t)"
  unfolding lzf_step_def Let_def
  by (auto simp: and_then_Err_iff copy_backref_known split: if_splits)

lemma lzf_loop_known: "lzf_loop cs n i out \<noteq> Err (UnknownType t)"
proof (induction cs n i out rule: lzf_loop.induct)
  case (1 cs n i out)
  then show ?case
    by (subst lzf_loop.simps) (auto simp: and_then_Err_iff lzf_step_known)
qed

lemma decompress_known: "decompress cs n \<noteq> Err (UnknownType t)"
  by (auto simp: decompress_def and_then_Err_iff lzf_loop_known split: if_splits)

lemma never_unknown_primitives [known_intros]:
  "never_unknown read_u8" "never_unknown read_length" "never_unknown read_length_value"
  "never_unknown read_count" "never_unknown read_string" "never_unknown read_double_value"
  "never_unknown read_i64_le"
proof -
  show u8: "never_unknown read_u8" and i64: "never_unknown read_i64_le"
    unfolding read_u8_def read_i64_le_def by (intro known_intros; simp)+
  show len: "never_unknown read_length"
    unfolding read_length_def Let_def by (intro known_intros u8; simp)
  show val: "never_unknown read_length_value"
    unfolding read_length_value_def by (intro known_intros len)
  show count: "never_unknown read_count"
    unfolding read_count_def by (intro known_intros val) (simp add: len_to_usize_def)
  show "never_unknown read_string"
    unfolding read_string_def
    by (intro known_intros len count u8) (simp_all add: len_to_usize_def decompress_known)
  show "never_unknown read_double_value"
    unfolding read_double_value_def by (intro known_intros u8) (simp_all add: ok_or_Err_iff)
qed

lemma never_unknown_elements [known_intros]: "never_unknown (read_n_elements t n)"
  unfolding read_n_elements_def read_zset_pair_def read_zset2_pair_def read_hash_field_def
    read_hash2_field_def
  by (intro known_intros)

text \<open>The invariant of the whole reader, and what one call of \<open>next\<close> does to it.\<close>

definition reader_inv :: "bytes \<Rightarrow> rdb_reader \<Rightarrow> bool" where
  "reader_inv input r \<longleftrightarrow> chunk_ok r \<and> limit_ok r \<and>
     (chunked r \<noteq> None \<longrightarrow> preamble_byte r = None) \<and>
     (\<not> finished r \<longrightarrow> tracks input r \<and> \<not> crc_checked r) \<and>
     (crc_checked r \<longrightarrow> (\<exists>body trailer rest. input = body @ trailer @ rest \<and>
        length trailer = 8 \<and> from_le trailer = crc64 0 body))"

lemma read_chunk_known: "read_chunk r \<noteq> (Err (UnknownType t), r')"
proof -
  have "on_reader (read_n_elements a b) r \<noteq> (Err (UnknownType t), u)" for a b r u
    using never_unknown_elements [of a b]
    by (auto simp: on_reader_simps never_unknown_def)
  then show ?thesis
    by (auto simp: read_chunk_def Let_def st_bind_Err_iff split: option.splits if_splits)
qed

lemma read_chunk_step:
  assumes "reader_inv input r" "\<not> finished r" "chunked r = Some c" "read_chunk r = (res, r')"
  shows "res \<noteq> Panic" "chunk_ok r'" "calm r r'"
    "res = Ok e \<Longrightarrow> left r' < left r"
proof -
  have ok: "chunk_ok r" "limit_ok r" "0 < ch_remaining c"
    using assms(1,3) by (auto simp: reader_inv_def chunk_ok_def)
  have "res \<noteq> Panic \<and> chunk_ok r' \<and> calm r r' \<and> (\<forall>e. res = Ok e \<longrightarrow> left r' < left r)"
  proof (cases "max_key_elements r")
    case None
    then show ?thesis
      using assms(3,4) ok by (auto simp: read_chunk_def)
  next
    case (Some limit)
    let ?n = "min limit (ch_remaining c)" and ?m = "read_n_elements (ch_type_code c)"
    from Some ok have n: "0 < ?n"
      by (auto simp: limit_ok_def)
    obtain q s where q: "?m ?n (reader r) = (q, s)"
      by (cases "?m ?n (reader r)")
    note rd = reader_okD(2) [OF reader_ok_read_n_elements q]
    have calm: "calm r (r\<lparr>reader := s\<rparr>)" "calm r (r\<lparr>reader := s, chunked := x\<rparr>)" for x
      using rd by (simp_all add: calm_def)
    have "res \<noteq> Panic"
      using assms(4) q reader_okD(1) [OF reader_ok_read_n_elements, of "ch_type_code c" ?n "reader r"]
      unfolding read_chunk_eq [OF ok(1) assms(3) Some]
      by (cases q) auto
    moreover have "chunk_ok (r\<lparr>reader := s\<rparr>)"
      using ok(1) by (simp add: chunk_ok_def)
    moreover have "left (r\<lparr>reader := s, chunked := x\<rparr>) < left r" if "q = Ok v" for v x
      using progressesD [OF progresses_read_n_elements [OF n]] q that by (auto simp: left_def)
    ultimately show ?thesis
      using assms(4) q calm after_chunk_ok [OF ok(1) assms(3)]
      unfolding read_chunk_eq [OF ok(1) assms(3) Some]
      by (cases q) auto
  qed
  then show "res \<noteq> Panic" "chunk_ok r'" "calm r r'" "res = Ok e \<Longrightarrow> left r' < left r"
    by blast+
qed

text \<open>
  One call: no panic, the invariant is kept, an item that does not end the iteration makes
  the input left smaller, and a clean end has passed the end of the file.
\<close>

definition next_ok :: "bytes \<Rightarrow> rdb_reader \<Rightarrow> rdb_entry parsed option \<Rightarrow> rdb_reader \<Rightarrow> bool" where
  "next_ok input r item r' \<longleftrightarrow> item \<noteq> Some Panic \<and> reader_inv input r' \<and>
     (item \<noteq> None \<longrightarrow> finished r' \<or> left r' < left r) \<and> header r' = header r \<and>
     (item = None \<longrightarrow> finished r' \<and> ended_at input r r')"

lemma opcode_loop_preamble: "opcode_loop r = (res, r') \<Longrightarrow> preamble_byte r' = None"
proof (induction rule: opcode_loop_induct)
  case (ended r e)
  then show ?case
    by (auto simp: take_byte_def on_reader_simps split: option.splits)
next
  have step: "preamble_byte r' = None"
    if "take_byte r = (Ok b, s)" "opcode_step b s = (q, r')" for r b s q
  proof (cases "b = RDB_OPCODE_EOF")
    case True
    then show ?thesis
      using that take_byte_Ok [OF that(1)] unfolding True opcode_step_eof
      by (cases s rule: read_eof_cases)
        (auto simp: read_eof_short read_eof_full st_bind_def split: if_splits)
  next
    case False
    then show ?thesis
      using rr_okD(2) [OF rr_ok_opcode_step that(2)] take_byte_Ok [OF that(1)]
      by (simp add: calm_def)
  qed
  { case (returned r b s x) then show ?case by (blast intro: step) }
  { case (failed r b s e) then show ?case by (blast intro: step) }
qed

lemma next_inner_step:
  assumes "reader_inv input r" "\<not> finished r" "next_inner r = (res, r')"
  shows "res \<noteq> Panic" "same_config r r'" "returns_ok input r res r'" "preamble_byte r' = None \<or> chunked r' = None"
    "left r' < left r \<or> (\<exists>e. res = Err e \<and> (\<forall>t. e \<noteq> UnknownType t))"
proof -
  have inv: "tracks input r" "chunk_ok r" "chunked r \<noteq> None \<longrightarrow> preamble_byte r = None"
    using assms(1,2) by (simp_all add: reader_inv_def)
  have "res \<noteq> Panic \<and> same_config r r' \<and> returns_ok input r res r' \<and>
      (preamble_byte r' = None \<or> chunked r' = None) \<and>
      (left r' < left r \<or> (\<exists>e. res = Err e \<and> (\<forall>t. e \<noteq> UnknownType t)))"
  proof (cases "chunked r")
    case None
    then have l: "opcode_loop r = (res, r')"
      using assms(3) by (simp add: next_inner_def)
    show ?thesis
      using opcode_loop_returns [OF l inv(1)] opcode_loop_left [OF l] opcode_loop_no_panic [of r]
        opcode_loop_preamble [OF l] l
      by auto
  next
    case (Some c)
    obtain q t where q: "read_chunk r = (q, t)"
      by (cases "read_chunk r")
    note step = read_chunk_step [OF assms(1,2) Some q]
    have p: "preamble_byte r = None"
      using inv(3) Some by simp
    have res: "r' = t" "res = (case q of Ok e \<Rightarrow> Ok (Some e) | Err e \<Rightarrow> Err e | Panic \<Rightarrow> Panic)"
      using assms(3) Some q by (auto simp: next_inner_def st_bind_def split: res.splits)
    have q': "res \<noteq> Panic" "res \<noteq> Ok None"
      using step(1) res(2) by (auto split: res.splits)
    have known: "q \<noteq> Err (UnknownType u)" for u
      using read_chunk_known [of r u t] q by auto
    have "left r' < left r \<or> (\<exists>e. res = Err e \<and> (\<forall>t. e \<noteq> UnknownType t))"
      using step(1,4) known res by (cases q) auto
    moreover have "same_config r r'"
      using step(2,3) res(1) by (auto simp: same_config_def calm_def)
    moreover have "preamble_byte r' = None"
      using step(3) res(1) p by (simp add: calm_def)
    ultimately show ?thesis
      using q' returns_ok_calm [OF inv(1) _ p q', of t] step(3) res(1) by blast
  qed
  then show "res \<noteq> Panic" "same_config r r'" "returns_ok input r res r'"
    "preamble_byte r' = None \<or> chunked r' = None"
    "left r' < left r \<or> (\<exists>e. res = Err e \<and> (\<forall>t. e \<noteq> UnknownType t))"
    by simp_all
qed

lemma ended_at_inv:
  assumes "ended_at input r r'" "crc_checked r'" "\<not> crc_checked r"
  obtains body trailer rest where "input = body @ trailer @ rest" "length trailer = 8"
    "from_le trailer = crc64 0 body"
proof -
  from assms obtain body trailer where
    "input = body @ [RDB_OPCODE_EOF] @ trailer @ inner (reader r')" "length trailer = 8"
    "from_le trailer = crc64 0 (body @ [RDB_OPCODE_EOF])"
    by (auto simp: ended_at_def)
  then show thesis
    by (intro that [of "body @ [RDB_OPCODE_EOF]" trailer "inner (reader r')"]) simp_all
qed

lemma reader_next_ok:
  assumes "reader_inv input r" "\<not> finished r" "reader_next r = (item, r')"
  shows "next_ok input r item r'"
proof -
  obtain res s where n: "next_inner r = (res, s)"
    by (cases "next_inner r")
  note step = next_inner_step [OF assms(1,2) n]
  have base: "chunk_ok s" "limit_ok s" "header s = header r" "\<not> crc_checked r" "chunk_ok r"
    using assms(1,2) step(2) by (simp_all add: reader_inv_def same_config_def limit_ok_def)
  note e = assms(3) [unfolded reader_next_def n, simplified assms(2) if_False]
  show ?thesis
  proof (cases res)
    case (Ok x)
    show ?thesis
    proof (cases x)
      case None
      then have s: "finished s" "ended_at input r s" "item = None" "r' = s"
        using Ok e step(3) by simp_all
      moreover have "\<exists>body trailer rest. input = body @ trailer @ rest \<and> length trailer = 8 \<and>
          from_le trailer = crc64 0 body" if "crc_checked s"
        using ended_at_inv [OF s(2) that base(4)] by metis
      ultimately show ?thesis
        using base step(4) by (auto simp: next_ok_def reader_inv_def)
    next
      case (Some y)
      with Ok e step(3-5) base show ?thesis
        by (auto simp: next_ok_def reader_inv_def)
    qed
  next
    case (Err er)
    show ?thesis
    proof (cases "\<exists>t. er = UnknownType t")
      case True
      then obtain t where "er = UnknownType t" ..
      with Err e step(3-5) base show ?thesis
        by (auto simp: next_ok_def reader_inv_def)
    next
      case False
      then have "item = Some (Err er)" "r' = s\<lparr>finished := True\<rparr>" "crc_checked s = crc_checked r"
        using Err e step(3) by (auto split: rdb_error.splits)
      with step(4) base show ?thesis
        by (auto simp: next_ok_def reader_inv_def chunk_ok_def limit_ok_def)
    qed
  next
    case Panic
    with step(1) show ?thesis by simp
  qed
qed

section \<open>Construction\<close>

lemma reader_ok_read_header: "reader_ok read_header"
proof -
  have "read_exact 9 s = (Ok buf, t) \<Longrightarrow> slice buf 6 9 \<noteq> (Panic :: bytes parsed)" for s buf t
    by (auto dest!: read_exact_Ok)
  then show ?thesis
    unfolding read_header_def Let_def
    by (intro reader_ok_bind_dep [OF reader_ok_read_exact] reader_intros) simp_all
qed

lemma read_preamble_inv:
  assumes "tracks input r" "preamble_byte r = None" "read_preamble r = (res, r')"
  shows "res \<noteq> Panic \<and> (\<forall>u. res = Ok u \<longrightarrow> tracks input r' \<and> chunked r' = chunked r \<and>
    max_key_elements r' = max_key_elements r \<and> finished r' = finished r \<and>
    crc_checked r' = crc_checked r \<and> header r' = header r \<and> left r' \<le> left r)"
  using assms
proof (induction r rule: read_preamble.induct)
  case (1 r)
  have tb: "take_byte r = on_reader read_u8 r"
    using 1(3) by (simp add: take_byte_def)
  show ?case
  proof (cases r rule: take_byte_cases)
    case (ended e s)
    with 1(4) show ?thesis
      by (subst (asm) read_preamble.simps) (auto simp add: tb)
  next
    case (byte b s)
    from take_byte_tracks [OF 1(2) byte] obtain ds
      where ds: "input = (ds @ [b]) @ inner (reader s)" "crc (reader s) = crc64 0 (ds @ [b])"
        "preamble_byte s = None" "tracks input s"
      by blast
    note k = take_byte_keeps [OF byte] take_byte_Ok [OF byte]
    show ?thesis
    proof (cases "b = RDB_OPCODE_AUX")
      case False
      with 1(4) byte have "(res, r') = (Ok (), s\<lparr>preamble_byte := Some b\<rparr>)"
        by (subst (asm) read_preamble.simps) (simp add: tb)
      with ds k show ?thesis
        by (auto simp: tracks_def left_def)
    next
      case True
      obtain q t where q: "read_aux_field s = (q, t)"
        by (cases "read_aux_field s")
      note aux = rr_okD(1,2) [OF rr_ok_read_aux_field q]
      have e: "(case q of Ok _ \<Rightarrow> read_preamble t | Err e \<Rightarrow> (Err e, t) | Panic \<Rightarrow> (Panic, t)) = (res, r')"
        using 1(4) byte q True by (subst (asm) read_preamble.simps) (simp add: tb st_bind_def)
      show ?thesis
      proof (cases q)
        case (Ok u)
        have "tracks input t" "preamble_byte t = None"
          using tracks_frame [OF ds(4), of t] aux(2) ds(3) by (simp_all add: calm_def)
        moreover have "chunked t = chunked s"
          using q Ok by (auto simp: read_aux_field_def st_bind_Ok_iff on_reader_simps modify_def Let_def)
        moreover have "left t \<le> left s"
          by (rule calm_left [OF aux(2)])
        ultimately show ?thesis
          using 1(1) [OF byte [unfolded tb] True q [unfolded Ok]] e Ok aux(2) k by (auto simp: calm_def)
      qed (use e aux in auto)
    qed
  qed
qed

lemma reader_new_inv:
  "reader_new input ending \<noteq> Panic"
  "reader_new input ending = Ok r \<Longrightarrow> reader_inv input r \<and> left r \<le> length input \<and> \<not> finished r"
  "reader_new input ending = Ok r \<Longrightarrow> max_key_elements r = Some DEFAULT_MAX_KEY_ELEMENTS"
proof -
  obtain hd s where h: "read_header (initial_reader input ending) = (hd, s)"
    by (cases "read_header (initial_reader input ending)")
  note frame = reader_okD(2) [OF reader_ok_read_header h]
  have hd: "hd \<noteq> Panic"
    using reader_okD(1) [OF reader_ok_read_header, of "initial_reader input ending"] h by simp
  define start where "start hdr = \<lparr>reader = s, header = hdr, metadata = \<lparr>aux = Map.empty\<rparr>,
    current_db = 0, pending_expiry_ms = None, pending_lru_idle = None, pending_lfu_freq = None,
    preamble_byte = None, finished = False, max_key_elements = Some DEFAULT_MAX_KEY_ELEMENTS,
    chunked = None, crc_checked = False\<rparr>" for hdr
  have t: "tracks input (start hdr)" "left (start hdr) \<le> length input" for hdr
  proof -
    from frame obtain k where "s = \<lparr>inner = drop k input, src_end = ending,
        crc = crc64 0 (take k input)\<rparr>"
      by (auto simp: frame_def initial_reader_def)
    then show "tracks input (start hdr)" "left (start hdr) \<le> length input"
      by (auto simp: tracks_def start_def left_def intro: exI [of _ "take k input"])
  qed
  have e: "reader_new input ending = (case hd of
      Ok hdr \<Rightarrow> (case fst (read_preamble (start hdr)) of
          Ok _ \<Rightarrow> Ok (snd (read_preamble (start hdr))) | Err e \<Rightarrow> Err e | Panic \<Rightarrow> Panic)
    | Err e \<Rightarrow> Err e | Panic \<Rightarrow> Panic)"
    by (auto simp: reader_new_def h start_def Let_def split: res.split prod.split)
  have p: "fst (read_preamble (start hdr)) \<noteq> Panic \<and> (\<forall>u. fst (read_preamble (start hdr)) = Ok u \<longrightarrow>
      reader_inv input (snd (read_preamble (start hdr))) \<and>
      left (snd (read_preamble (start hdr))) \<le> length input \<and>
      max_key_elements (snd (read_preamble (start hdr))) = Some DEFAULT_MAX_KEY_ELEMENTS \<and>
      \<not> finished (snd (read_preamble (start hdr))))" for hdr
  proof -
    obtain q u where q: "read_preamble (start hdr) = (q, u)"
      by (cases "read_preamble (start hdr)")
    have "preamble_byte (start hdr) = None"
      by (simp add: start_def)
    from read_preamble_inv [OF t(1) this q] t(2) [of hdr] show ?thesis
      unfolding q by (auto simp: reader_inv_def start_def chunk_ok_def limit_ok_def DEFAULT_MAX_KEY_ELEMENTS_def)
  qed
  show "reader_new input ending \<noteq> Panic"
    using p hd by (auto simp: e split: res.splits)
  show "reader_inv input r \<and> left r \<le> length input \<and> \<not> finished r" if "reader_new input ending = Ok r"
    using that p hd by (fastforce simp: e split: res.splits)
  show "max_key_elements r = Some DEFAULT_MAX_KEY_ELEMENTS" if "reader_new input ending = Ok r"
    using that p hd by (fastforce simp: e split: res.splits)
qed

section \<open>Everything reachable\<close>

lemma reachable_inv: "reachable input ending r \<Longrightarrow> reader_inv input r"
proof (induction rule: reachable.induct)
  case (start r)
  then show ?case
    using reader_new_inv(2) by blast
next
  case (chunking r n r')
  have "reader_inv input (r\<lparr>max_key_elements := Some n\<rparr>)" if "0 < n"
    using chunking(3) that unfolding reader_inv_def chunk_ok_def limit_ok_def tracks_def by simp
  then show ?case
    using chunking(2) by (auto simp: with_max_key_elements_def split: if_splits)
next
  case (unchunked r)
  then show ?case
    unfolding without_chunking_def reader_inv_def chunk_ok_def limit_ok_def tracks_def by simp
next
  case (step r item r')
  show ?case
  proof (cases "finished r")
    case True
    with step show ?thesis by (simp add: reader_next_def)
  next
    case False
    with reader_next_ok [OF step(3) False step(2)] show ?thesis
      by (simp add: next_ok_def)
  qed
qed

lemma reachable_next:
  "reachable input ending r \<Longrightarrow> \<not> finished r \<Longrightarrow> reader_next r = (item, r') \<Longrightarrow>
   next_ok input r item r'"
  by (blast intro: reader_next_ok reachable_inv)

text \<open>The loop \<open>for entry in reader\<close>: every item, and the reader afterwards.\<close>

partial_function (option) collect ::
  "rdb_reader \<Rightarrow> (rdb_entry parsed list \<times> rdb_reader) option" where
  "collect r = (case reader_next r of
      (None, r') \<Rightarrow> Some ([], r')
    | (Some item, r') \<Rightarrow>
        Option.bind (collect r') (\<lambda>(items, r'). Some (item # items, r')))"

definition todo :: "rdb_reader \<Rightarrow> nat" where
  "todo r = (if finished r then 0 else Suc (left r))"

lemma collect_terminates:
  "reachable input ending r \<Longrightarrow> \<exists>items r'. collect r = Some (items, r') \<and> length items \<le> todo r \<and>
     Panic \<notin> set items \<and> finished r' \<and> reachable input ending r'"
proof (induction "todo r" arbitrary: r rule: less_induct)
  case less
  obtain x t where n: "reader_next r = (x, t)"
    by (cases "reader_next r")
  then have t: "reachable input ending t"
    using less(2) reachable.step by blast
  show ?case
  proof (cases "finished r")
    case True
    with n less(2) show ?thesis
      by (subst collect.simps) (auto simp: reader_next_def todo_def)
  next
    case False
    note ok = reachable_next [OF less(2) False n]
    show ?thesis
    proof (cases x)
      case None
      with ok n t show ?thesis
        by (subst collect.simps) (simp add: next_ok_def)
    next
      case (Some item)
      then have "todo t < todo r" "item \<noteq> Panic"
        using ok False by (auto simp: next_ok_def todo_def)
      with less(1) [OF this(1) t] show ?thesis
        unfolding collect.simps [of r] n Some by auto
    qed
  qed
qed

end
