(* ===== verification/Rdb_Nested.thy ===== *)
theory Rdb_Nested
  imports Reader_Values
begin

text \<open>
  The part of the grammar of RDB files for the values that nest other formats: quicklists,
  module values and streams with their consumer groups; with their meaning, and the proof
  that the value readers of \<open>crates/rdb-parser/src/reader.rs\<close> read them (\<open>reads\<close>).
\<close>

lemma reads_repeat_map:
  "(\<And>x. x \<in> set xs \<Longrightarrow> reads m (f x) (g x)) \<Longrightarrow>
   reads (st_repeat (length xs) m) (concat (map f xs)) (map g xs)"
  using reads_repeat [of m "map f xs" "map g xs"] by (simp add: list_all2_conv_all_nth)

text \<open>A count and as many elements.\<close>

definition counted :: "('a \<Rightarrow> bytes) \<Rightarrow> 'a list \<Rightarrow> bytes" where
  "counted f xs = enc_len (length xs) @ concat (map f xs)"

lemma reads_counted:
  assumes "length xs \<le> 536870912" "\<And>x. x \<in> set xs \<Longrightarrow> reads m (f x) (g x)"
    and "reads (k (map g xs)) ys a"
  shows "reads (st_bind read_count (\<lambda>n. st_bind (st_repeat n m) k)) (counted f xs @ ys) a"
proof -
  have "reads (st_repeat (length xs) m) (concat (map f xs)) (map g xs)"
    by (rule reads_repeat_map) (rule assms(2))
  then have "reads (st_bind (st_repeat (length xs) m) k) (concat (map f xs) @ ys) a"
    by (rule reads_bind [where f = k, OF _ assms(3)])
  then show ?thesis
    unfolding counted_def append_assoc
    by (rule reads_bind [where f = "\<lambda>n. st_bind (st_repeat n m) k", OF reads_read_count [OF assms(1)]])
qed

section \<open>Quicklists\<close>

text \<open>A node of the first version is a ziplist, one of the second a plain element or a listpack.\<close>

datatype node_enc = ZiplistNode string_enc | PlainNode string_enc | PackedNode string_enc

fun node_bytes :: "node_enc \<Rightarrow> bytes" where
  "node_bytes (ZiplistNode s) = string_enc_bytes s"
| "node_bytes (PlainNode s) = enc_len 1 @ string_enc_bytes s"
| "node_bytes (PackedNode s) = enc_len 2 @ string_enc_bytes s"

fun node_elems :: "node_enc \<Rightarrow> bytes list" where
  "node_elems (ZiplistNode s) =
     (case zl_decode (string_enc_value s) of Ok es \<Rightarrow> map into_bytes es | _ \<Rightarrow> [])"
| "node_elems (PlainNode s) = [string_enc_value s]"
| "node_elems (PackedNode s) =
     (case lp_decode (string_enc_value s) of Ok es \<Rightarrow> map into_bytes es | _ \<Rightarrow> [])"

fun node_ok :: "u8 \<Rightarrow> node_enc \<Rightarrow> bool" where
  "node_ok t (ZiplistNode s) \<longleftrightarrow> t = RDB_TYPE_LIST_QUICKLIST \<and> string_enc_ok s \<and>
     (\<exists>es. zl_decode (string_enc_value s) = Ok es)"
| "node_ok t (PlainNode s) \<longleftrightarrow> t = RDB_TYPE_LIST_QUICKLIST_2 \<and> string_enc_ok s"
| "node_ok t (PackedNode s) \<longleftrightarrow> t = RDB_TYPE_LIST_QUICKLIST_2 \<and> string_enc_ok s \<and>
     (\<exists>es. lp_decode (string_enc_value s) = Ok es)"

lemma reads_lift_then: "m = Ok a \<Longrightarrow> reads (f a) ys b \<Longrightarrow> reads (st_bind (st_lift m) f) ys b"
  using reads_bind [OF reads_lift, of m a f ys b] by simp

lemma reads_quicklist_node:
  assumes "node_ok RDB_TYPE_LIST_QUICKLIST n"
  shows "reads read_quicklist_node (node_bytes n) (node_elems n)"
proof (cases n)
  case (ZiplistNode s)
  then obtain es where "string_enc_ok s" "zl_decode (string_enc_value s) = Ok es" using assms by auto
  then show ?thesis
    unfolding read_quicklist_node_def ZiplistNode node_bytes.simps node_elems.simps
    by (intro reads_bind_eq [OF reads_read_string, where ys = "[]"]) (simp_all add: reads_lift_then reads_ret)
qed (use assms in simp_all)

lemma reads_quicklist2_node:
  assumes "node_ok RDB_TYPE_LIST_QUICKLIST_2 n"
  shows "reads read_quicklist2_node (node_bytes n) (node_elems n)"
proof (cases n)
  case (PlainNode s)
  then have "string_enc_ok s" using assms by simp
  then show ?thesis
    unfolding read_quicklist2_node_def PlainNode node_bytes.simps node_elems.simps
    by (intro reads_bind [OF reads_read_length_value]
        reads_bind_eq [OF reads_read_string, where ys = "[]"]) (simp_all add: reads_ret)
next
  case (PackedNode s)
  then obtain es where s: "string_enc_ok s" "lp_decode (string_enc_value s) = Ok es" using assms by auto
  then show ?thesis
    unfolding read_quicklist2_node_def PackedNode node_bytes.simps node_elems.simps
    by (intro reads_bind [OF reads_read_length_value]
        reads_bind_eq [OF reads_read_string, where ys = "[]"]) (simp_all add: reads_lift_then reads_ret)
qed (use assms in simp)

lemma reads_quicklist:
  assumes "length ns \<le> 536870912" "t \<in> {RDB_TYPE_LIST_QUICKLIST, RDB_TYPE_LIST_QUICKLIST_2}"
    and "\<forall>n \<in> set ns. node_ok t n"
  shows "reads (read_value t) (counted node_bytes ns) (VList (concat (map node_elems ns)))"
proof -
  have "reads (st_bind read_count (\<lambda>n. st_bind (st_repeat n m) (\<lambda>nodes. st_ret (VList (concat nodes)))))
      (counted node_bytes ns @ []) (VList (concat (map node_elems ns)))"
    if "\<And>n. n \<in> set ns \<Longrightarrow> reads m (node_bytes n) (node_elems n)" for m
    by (rule reads_counted [OF assms(1) that reads_ret])
  then show ?thesis
    using assms(2,3) reads_quicklist_node reads_quicklist2_node by (auto simp: read_value_def)
qed

section \<open>Modules\<close>

text \<open>
  The identifier of a module: nine characters of six bits and a version of ten.
\<close>

definition module_id :: "nat list \<Rightarrow> nat \<Rightarrow> nat" where
  "module_id cs ver = foldl (\<lambda>n c. 64 * n + c) 0 cs * 1024 + ver"

definition module_id_ok :: "nat list \<Rightarrow> nat \<Rightarrow> bool" where
  "module_id_ok cs ver \<longleftrightarrow> length cs = 9 \<and> (\<forall>c \<in> set cs. c < 64) \<and> ver < 1024"

lemma fold64_bound: "\<forall>c \<in> set cs. c < 64 \<Longrightarrow> foldl (\<lambda>n c. 64 * n + c) 0 cs < (64 :: nat) ^ length cs"
proof (induction cs rule: rev_induct)
  case (snoc c cs)
  then have "Suc (foldl (\<lambda>n c. 64 * n + c) 0 cs) \<le> 64 ^ length cs" "c < 64" by auto
  then have "64 * Suc (foldl (\<lambda>n c. 64 * n + c) 0 cs) \<le> 64 * 64 ^ length cs" by (intro mult_le_mono2)
  then show ?case using \<open>c < 64\<close> by simp
qed simp

lemma split_low:
  assumes "c < 2 ^ k" "2 ^ k * n + c < 2 ^ 64"
  shows "drop_bit k (word_of_nat (2 ^ k * n + c) :: u64) = word_of_nat n"
    "(word_of_nat (2 ^ k * n + c) :: u64) AND mask k = word_of_nat c"
proof -
  have n: "n < 2 ^ 64"
  proof -
    have "n * 1 \<le> 2 ^ k * n" by simp
    then show ?thesis using assms(2) by linarith
  qed
  have small: "unat (word_of_nat x :: u64) = x" if "x < 2 ^ 64" for x
    using that by (simp add: unat_of_nat)
  have "c \<le> 2 ^ k * n + c" by simp
  then have c: "c < 2 ^ 64" using assms(2) by linarith
  note w = small [OF assms(2)] small [OF c] small [OF n]
  show "drop_bit k (word_of_nat (2 ^ k * n + c) :: u64) = word_of_nat n"
    unfolding word_unat_eq_iff unat_drop_bit_eq w using assms(1) by (simp add: drop_bit_eq_div)
  show "(word_of_nat (2 ^ k * n + c) :: u64) AND mask k = word_of_nat c"
    unfolding word_unat_eq_iff take_bit_eq_mask [symmetric] unsigned_take_bit_eq w
    using assms(1) by (simp add: take_bit_eq_mod)
qed

lemma module_name_chars_fold:
  assumes "\<forall>c \<in> set cs. c < 64" "length cs \<le> 10"
  shows "module_name_chars (length cs) (word_of_nat (foldl (\<lambda>n c. 64 * n + c) 0 cs)) =
    map ((!) MODULE_TYPE_NAME_CHARSET) cs"
  using assms
proof (induction cs rule: rev_induct)
  case (snoc c cs)
  let ?n = "foldl (\<lambda>n c. 64 * n + c) 0 cs"
  have "?n < 64 ^ length cs" using fold64_bound snoc.prems(1) by simp
  also have "(64 :: nat) ^ length cs \<le> 64 ^ 9" using snoc.prems(2) by (intro power_increasing) simp_all
  finally have b: "c < 2 ^ 6" "2 ^ 6 * ?n + c < 2 ^ 64" using snoc.prems(1) by simp_all
  have "mask 6 = (63 :: u64)" by (simp add: mask_eq_exp_minus_1)
  then show ?case
    using split_low [OF b] snoc b(1) by (simp add: unat_of_nat)
qed simp

lemma charset_ascii: "c < 64 \<Longrightarrow> MODULE_TYPE_NAME_CHARSET ! c < 128"
proof -
  assume "c < 64"
  then have "MODULE_TYPE_NAME_CHARSET ! c \<in> set MODULE_TYPE_NAME_CHARSET"
    by (intro nth_mem) (simp add: MODULE_TYPE_NAME_CHARSET_def str_bytes_def)
  moreover have "\<forall>b \<in> set MODULE_TYPE_NAME_CHARSET. b < 128"
    by (simp add: MODULE_TYPE_NAME_CHARSET_def str_bytes_def)
  ultimately show ?thesis by blast
qed

lemma decode_module_id_encode:
  assumes "module_id_ok cs ver"
  shows "module_id cs ver < 2 ^ 64"
    "decode_module_id (word_of_nat (module_id cs ver)) =
      (map ((!) MODULE_TYPE_NAME_CHARSET) cs, word_of_nat ver)"
proof -
  let ?n = "foldl (\<lambda>n c. 64 * n + c) 0 cs"
  have ok: "length cs = 9" "\<forall>c \<in> set cs. c < 64" "ver < 2 ^ 10"
    using assms by (simp_all add: module_id_ok_def)
  have id: "module_id cs ver = 2 ^ 10 * ?n + ver" by (simp add: module_id_def)
  have "?n < 64 ^ 9" using fold64_bound [OF ok(2)] ok(1) by simp
  then show b: "module_id cs ver < 2 ^ 64" using ok(3) by (simp add: id)
  have "mask 10 = (1023 :: u64)" by (simp add: mask_eq_exp_minus_1)
  then have low: "(word_of_nat (module_id cs ver) :: u64) AND 1023 = word_of_nat ver"
    "drop_bit 10 (word_of_nat (module_id cs ver) :: u64) = word_of_nat ?n"
    using split_low [OF ok(3) b [unfolded id]] unfolding id by simp_all
  have "module_name_chars 9 (word_of_nat ?n) = map ((!) MODULE_TYPE_NAME_CHARSET) cs"
    using module_name_chars_fold [OF ok(2)] ok(1) by simp
  moreover have "from_utf8_lossy (map ((!) MODULE_TYPE_NAME_CHARSET) cs) = map ((!) MODULE_TYPE_NAME_CHARSET) cs"
    using ok(2) charset_ascii by (intro from_utf8_lossy_valid valid_utf8_ascii) auto
  moreover have "ucast (word_of_nat ver :: u64) = (word_of_nat ver :: u32)"
    using ok(3) by (simp add: word_unat_eq_iff unat_of_nat unsigned_ucast_eq take_bit_nat_eq_self)
  ultimately show "decode_module_id (word_of_nat (module_id cs ver)) =
      (map ((!) MODULE_TYPE_NAME_CHARSET) cs, word_of_nat ver)"
    by (simp add: decode_module_id_def low)
qed

text \<open>The values of a module, each behind its opcode, and an end.\<close>

datatype module_enc =
    ModInt int
  | ModUint nat
  | ModFloat f32
  | ModDouble f64
  | ModString string_enc

fun module_enc_bytes :: "module_enc \<Rightarrow> bytes" where
  "module_enc_bytes (ModInt n) = enc_len 1 @ enc_len (nat (n mod 2 ^ 64))"
| "module_enc_bytes (ModUint n) = enc_len 2 @ enc_len n"
| "module_enc_bytes (ModFloat x) = enc_len 3 @ to_le 4 (unat x)"
| "module_enc_bytes (ModDouble x) = enc_len 4 @ to_le 8 (unat x)"
| "module_enc_bytes (ModString s) = enc_len 5 @ string_enc_bytes s"

fun module_enc_value :: "module_enc \<Rightarrow> module_value" where
  "module_enc_value (ModInt n) = SignedInt n"
| "module_enc_value (ModUint n) = UnsignedInt (word_of_nat n)"
| "module_enc_value (ModFloat x) = MFloat x"
| "module_enc_value (ModDouble x) = MDouble x"
| "module_enc_value (ModString s) = MString (string_enc_value s)"

fun module_enc_ok :: "module_enc \<Rightarrow> bool" where
  "module_enc_ok (ModInt n) \<longleftrightarrow> - (2 ^ 63) \<le> n \<and> n < 2 ^ 63"
| "module_enc_ok (ModUint n) \<longleftrightarrow> n < 2 ^ 64"
| "module_enc_ok (ModString s) \<longleftrightarrow> string_enc_ok s"
| "module_enc_ok _ \<longleftrightarrow> True"

fun module_string_bytes :: "module_enc \<Rightarrow> nat" where
  "module_string_bytes (ModString s) = length (string_enc_value s)"
| "module_string_bytes _ = 0"

definition module_stream :: "module_enc list \<Rightarrow> bytes" where
  "module_stream vs = concat (map module_enc_bytes vs) @ enc_len 0"

lemma reads_module_value:
  assumes "module_enc_ok v"
  shows "\<exists>k \<noteq> 0. \<exists>bs. module_enc_bytes v = enc_len k @ bs \<and> k < 2 ^ 64 \<and>
    (word_of_nat k :: u64) \<noteq> 0 \<and> reads (read_module_value (word_of_nat k)) bs (module_enc_value v)"
proof (cases v)
  case (ModInt n)
  have "nat (n mod 2 ^ 64) < 2 ^ 64" by (simp add: nat_less_iff)
  moreover have "sint (word_of_nat (nat (n mod 2 ^ 64)) :: u64) = n"
  proof -
    have "(word_of_nat (nat (n mod 2 ^ 64)) :: u64) = word_of_int n"
      by (simp add: of_nat_nat word_of_int_eq_iff take_bit_eq_mod)
    then show ?thesis
      using assms ModInt by (simp add: signed_of_int signed_take_bit_int_eq_self)
  qed
  ultimately show ?thesis
    using reads_bind_ret [OF reads_read_length_value, of "nat (n mod 2 ^ 64)" "\<lambda>raw. SignedInt (sint raw)"]
    by (intro exI [of _ 1]) (simp add: ModInt read_module_value_def)
next
  case (ModUint n)
  then show ?thesis
    using assms reads_bind_ret [OF reads_read_length_value, of n UnsignedInt]
    by (intro exI [of _ 2]) (simp add: read_module_value_def)
next
  case (ModFloat x)
  show ?thesis
    using reads_bind_ret [OF reads_read_exact [of "to_le 4 (unat x)" 4], of "\<lambda>buf. MFloat (from_le buf)"]
    by (intro exI [of _ 3]) (simp add: ModFloat read_module_value_def from_le_to_le)
next
  case (ModDouble x)
  show ?thesis
    using reads_bind_ret [OF reads_read_exact [of "to_le 8 (unat x)" 8], of "\<lambda>buf. MDouble (from_le buf)"]
    by (intro exI [of _ 4]) (simp add: ModDouble read_module_value_def from_le_to_le)
next
  case (ModString s)
  then show ?thesis
    using assms reads_bind_ret [OF reads_read_string, of s MString]
    by (intro exI [of _ 5]) (simp add: read_module_value_def)
qed

fun emits :: "(module_value \<Rightarrow> 'acc \<Rightarrow> 'acc parsed) \<Rightarrow> module_value list \<Rightarrow> 'acc \<Rightarrow> 'acc parsed" where
  "emits emit [] acc = Ok acc"
| "emits emit (v # vs) acc = and_then (emit v acc) (emits emit vs)"

lemma reads_module_stream:
  assumes "\<forall>v \<in> set vs. module_enc_ok v" "emits emit (map module_enc_value vs) acc = Ok acc'"
  shows "reads (for_each_module_value emit acc) (module_stream vs) acc'"
  using assms
proof (induction vs arbitrary: acc)
  case Nil
  then show ?case
    unfolding for_each_module_value_eq [of emit acc] module_stream_def
    by (intro reads_bind_eq [OF reads_read_length_value, where ys = "[]"]) (simp_all add: reads_ret)
next
  case (Cons v vs)
  obtain acc1 where acc1: "emit (module_enc_value v) acc = Ok acc1"
    "emits emit (map module_enc_value vs) acc1 = Ok acc'"
    using Cons.prems(2) by (auto simp: and_then_Ok_iff)
  obtain k bs where k: "module_enc_bytes v = enc_len k @ bs" "k < 2 ^ 64" "(word_of_nat k :: u64) \<noteq> 0"
    "reads (read_module_value (word_of_nat k)) bs (module_enc_value v)"
    using reads_module_value [of v] Cons.prems(1) by auto
  have tail: "reads (for_each_module_value emit acc1) (module_stream vs) acc'"
    by (rule Cons.IH) (use Cons.prems(1) acc1(2) in simp_all)
  have bytes: "module_stream (v # vs) = enc_len k @ bs @ module_stream vs"
    by (simp add: module_stream_def k(1))
  have "reads (st_bind (read_module_value (word_of_nat k)) (\<lambda>v.
      st_bind (st_lift (emit v acc)) (\<lambda>acc. for_each_module_value emit acc))) (bs @ module_stream vs) acc'"
    by (rule reads_bind [where f = "\<lambda>v. st_bind (st_lift (emit v acc)) (\<lambda>acc. for_each_module_value emit acc)",
        OF k(4) reads_lift_then [where f = "\<lambda>acc. for_each_module_value emit acc", OF acc1(1) tail]])
  then show ?case
    unfolding for_each_module_value_eq [of emit acc] bytes
    by (intro reads_bind [OF reads_read_length_value [OF k(2)]]) (simp add: k(3))
qed

definition module_values_ok :: "module_enc list \<Rightarrow> bool" where
  "module_values_ok vs \<longleftrightarrow> (\<forall>v \<in> set vs. module_enc_ok v) \<and> length vs \<le> MAX_MODULE_VALUES \<and>
     sum_list (map module_string_bytes vs) \<le> MAX_MODULE_STRING_BYTES"

lemma emits_module:
  assumes "length acc + length vs \<le> MAX_MODULE_VALUES"
    "n + sum_list (map module_string_bytes vs) \<le> MAX_MODULE_STRING_BYTES"
  shows "\<exists>m. emits module_emit (map module_enc_value vs) (acc, n) = Ok (acc @ map module_enc_value vs, m)"
  using assms
proof (induction vs arbitrary: acc n)
  case (Cons v vs)
  have "MAX_MODULE_STRING_BYTES \<le> usize_max" by (simp add: MAX_MODULE_STRING_BYTES_def usize_max_def)
  then have "module_emit (module_enc_value v) (acc, n) =
      Ok (acc @ [module_enc_value v], n + module_string_bytes v)"
    using Cons.prems by (cases v) (auto simp: module_emit_def Let_def min_def)
  then show ?case
    using Cons.IH [of "acc @ [module_enc_value v]" "n + module_string_bytes v"] Cons.prems by simp
qed simp

lemma reads_module_data: "module_values_ok vs \<Longrightarrow>
  reads read_module_data (module_stream vs) (map module_enc_value vs)"
  using emits_module [of "[]" vs 0] reads_module_stream [of vs module_emit "([], 0)"]
    reads_bind_ret [of "for_each_module_value module_emit ([], 0)" "module_stream vs" _ fst]
  unfolding read_module_data_def module_values_ok_def
  by (auto simp: case_prod_unfold)

lemma emits_skip: "emits (\<lambda>_ _. Ok ()) vs () = Ok ()"
  by (induction vs) simp_all

lemma reads_skip_module: "\<forall>v \<in> set vs. module_enc_ok v \<Longrightarrow> reads skip_module_data (module_stream vs) ()"
  unfolding skip_module_data_def by (rule reads_module_stream [OF _ emits_skip])

lemma reads_module:
  assumes "module_id_ok cs ver" "module_values_ok vs"
  shows "reads (read_value RDB_TYPE_MODULE_2) (enc_len (module_id cs ver) @ module_stream vs)
    (VModule \<lparr>m_name = map ((!) MODULE_TYPE_NAME_CHARSET) cs, m_version = word_of_nat ver,
       m_values = map module_enc_value vs\<rparr>)"
proof -
  have rv: "read_value RDB_TYPE_MODULE_2 = st_bind read_length_value (\<lambda>module_id.
      st_bind read_module_data (\<lambda>values. st_ret (VModule \<lparr>m_name = fst (decode_module_id module_id),
        m_version = snd (decode_module_id module_id), m_values = values\<rparr>)))"
    by (simp add: read_value_def)
  show ?thesis
    unfolding rv
    by (rule reads_bind [OF reads_read_length_value [OF decode_module_id_encode(1) [OF assms(1)]]],
        unfold decode_module_id_encode(2) [OF assms(1)] fst_conv snd_conv)
      (rule reads_bind_ret [OF reads_module_data [OF assms(2)]])
qed

section \<open>Streams\<close>

text \<open>
  A node is the sixteen bytes of its master ID and a listpack of entries, which is decoded as
  far as the budget of entries goes.
\<close>

fun stream_entries :: "(string_enc \<times> string_enc) list \<Rightarrow> stream_entry list \<Rightarrow> stream_entry list option" where
  "stream_entries [] acc = Some acc"
| "stream_entries ((i, d) # ns) acc =
     (if length (string_enc_value i) \<noteq> 16 then None
      else (case decode_stream_listpack (from_be (take 8 (string_enc_value i)))
              (from_be (drop 8 (string_enc_value i))) (string_enc_value d) (MAX_STREAM_ENTRIES - length acc) of
          Ok es \<Rightarrow> stream_entries ns (acc @ es)
        | _ \<Rightarrow> None))"

text \<open>A pending entry, a consumer with its pending IDs, and a group.\<close>

datatype pel_enc = Pel bytes int nat

datatype consumer_enc = Consumer string_enc int int "bytes list"

datatype group_enc = Group string_enc nat nat nat "pel_enc list" "consumer_enc list"

datatype stream_enc = Stream "(string_enc \<times> string_enc) list" nat nat "nat list" "group_enc list"

definition stream_node_bytes :: "string_enc \<times> string_enc \<Rightarrow> bytes" where
  "stream_node_bytes n = string_enc_bytes (fst n) @ string_enc_bytes (snd n)"

fun pel_bytes :: "pel_enc \<Rightarrow> bytes" where
  "pel_bytes (Pel i time n) = i @ int_le 8 time @ enc_len n"

fun consumer_bytes :: "u8 \<Rightarrow> consumer_enc \<Rightarrow> bytes" where
  "consumer_bytes t (Consumer name seen active ids) =
     string_enc_bytes name @ int_le 8 seen @
     (if t \<ge> RDB_TYPE_STREAM_LISTPACKS_3 then int_le 8 active else []) @ counted (\<lambda>i. i) ids"

fun group_bytes :: "u8 \<Rightarrow> group_enc \<Rightarrow> bytes" where
  "group_bytes t (Group name ms seq entries_read ps cs) =
     string_enc_bytes name @ enc_len ms @ enc_len seq @
     (if t \<ge> RDB_TYPE_STREAM_LISTPACKS_2 then enc_len entries_read else []) @
     counted pel_bytes ps @ counted (consumer_bytes t) cs"

fun stream_bytes :: "u8 \<Rightarrow> stream_enc \<Rightarrow> bytes" where
  "stream_bytes t (Stream ns ms seq extra gs) =
     counted stream_node_bytes ns @
     enc_len (length (the (stream_entries ns []))) @ enc_len ms @ enc_len seq @
     (if t \<ge> RDB_TYPE_STREAM_LISTPACKS_2 then concat (map enc_len extra) else []) @
     counted (group_bytes t) gs"

fun stream_value :: "stream_enc \<Rightarrow> rdb_value" where
  "stream_value (Stream ns ms seq extra gs) =
     VStream \<lparr>sd_entries = the (stream_entries ns []),
       sd_length = word_of_nat (length (the (stream_entries ns []))),
       sd_last_id = stream_id (word_of_nat ms) (word_of_nat seq)\<rparr>"

fun pel_ok :: "pel_enc \<Rightarrow> bool" where
  "pel_ok (Pel i time n) \<longleftrightarrow> length i = 16 \<and> i64_range time \<and> n < 2 ^ 64"

fun consumer_ok :: "consumer_enc \<Rightarrow> bool" where
  "consumer_ok (Consumer name seen active ids) \<longleftrightarrow>
     string_enc_ok name \<and> i64_range seen \<and> i64_range active \<and> length ids \<le> 536870912 \<and>
     (\<forall>i \<in> set ids. length i = 16)"

fun group_ok :: "group_enc \<Rightarrow> bool" where
  "group_ok (Group name ms seq entries_read ps cs) \<longleftrightarrow>
     string_enc_ok name \<and> ms < 2 ^ 64 \<and> seq < 2 ^ 64 \<and> entries_read < 2 ^ 64 \<and>
     length ps \<le> 536870912 \<and> (\<forall>p \<in> set ps. pel_ok p) \<and>
     length cs \<le> 536870912 \<and> (\<forall>c \<in> set cs. consumer_ok c)"

fun stream_ok :: "stream_enc \<Rightarrow> bool" where
  "stream_ok (Stream ns ms seq extra gs) \<longleftrightarrow>
     length ns \<le> 536870912 \<and> (\<forall>n \<in> set ns. string_enc_ok (fst n) \<and> string_enc_ok (snd n)) \<and>
     (\<exists>es. stream_entries ns [] = Some es \<and> length es < 2 ^ 64) \<and>
     ms < 2 ^ 64 \<and> seq < 2 ^ 64 \<and> length extra = 5 \<and> (\<forall>n \<in> set extra. n < 2 ^ 64) \<and>
     length gs \<le> 536870912 \<and> (\<forall>g \<in> set gs. group_ok g)"

lemma stream_node_ok:
  assumes "length i = 16" "decode_stream_listpack (from_be (take 8 i)) (from_be (drop 8 i)) d
      (MAX_STREAM_ENTRIES - length acc) = Ok es"
  shows "stream_node i d (acc, None) = Ok (acc @ es, None)"
  using assms by (simp add: stream_node_def slice_def)

lemma reads_stream_nodes:
  assumes "\<forall>n \<in> set ns. string_enc_ok (fst n) \<and> string_enc_ok (snd n)" "stream_entries ns acc = Some es"
  shows "reads (stream_nodes (length ns) (acc, None)) (concat (map stream_node_bytes ns)) (es, None)"
  using assms
proof (induction ns arbitrary: acc)
  case Nil
  then show ?case by (simp add: reads_def)
next
  case (Cons n ns)
  obtain i d where n: "n = (i, d)" by (cases n)
  have "length (string_enc_value i) = 16" using Cons.prems(2) by (simp add: n split: if_splits)
  moreover obtain es1 where es1: "decode_stream_listpack (from_be (take 8 (string_enc_value i)))
      (from_be (drop 8 (string_enc_value i))) (string_enc_value d) (MAX_STREAM_ENTRIES - length acc) = Ok es1"
    "stream_entries ns (acc @ es1) = Some es"
    using Cons.prems(2) by (auto simp: n split: if_splits res.splits)
  ultimately have node: "stream_node (string_enc_value i) (string_enc_value d) (acc, None) = Ok (acc @ es1, None)"
    by (intro stream_node_ok)
  have tail: "reads (stream_nodes (length ns) (acc @ es1, None)) (concat (map stream_node_bytes ns)) (es, None)"
    by (rule Cons.IH) (use Cons.prems(1) es1(2) in simp_all)
  have ok: "string_enc_ok i" "string_enc_ok d" using Cons.prems(1) n by simp_all
  note last = reads_lift_then [where f = "stream_nodes (length ns)", OF node tail]
  show ?case
    unfolding list.size stream_nodes.simps(2) add_0_right add_Suc_right list.map concat.simps
      stream_node_bytes_def [of "(i, d)"] n fst_conv snd_conv append_assoc
    by (rule reads_bind [where f = "\<lambda>i. st_bind read_string (\<lambda>d. st_bind (st_lift (stream_node i d (acc, None)))
          (stream_nodes (length ns)))", OF reads_read_string [OF ok(1)]
        reads_bind [where f = "\<lambda>d. st_bind (st_lift (stream_node (string_enc_value i) d (acc, None)))
          (stream_nodes (length ns))", OF reads_read_string [OF ok(2)] last]])
qed

lemma reads_then: "reads m xs a \<Longrightarrow> reads k ys b \<Longrightarrow> reads (st_bind m (\<lambda>_. k)) (xs @ ys) b"
  by (rule reads_bind)

lemma reads_guard:
  "reads (if b then st_bind m (\<lambda>_. st_ret ()) else st_ret ()) (if b then xs else []) ()"
  if "b \<Longrightarrow> reads m xs a"
  using that reads_bind_ret [of m xs a "\<lambda>_. ()"] by (simp add: reads_ret)

lemma reads_pel:
  assumes "pel_ok p" shows "reads skip_pel_entry (pel_bytes p) ()"
proof (cases p)
  case (Pel i time n)
  then have ok: "length i = 16" "- (2 ^ 63) \<le> time" "time < 2 ^ 63" "n < 2 ^ 64" using assms by simp_all
  have "reads (read_exact_vec 16) i i"
    unfolding read_exact_vec_def by (rule reads_read_exact [OF ok(1)])
  then show ?thesis
    unfolding skip_pel_entry_def Pel pel_bytes.simps
    by (rule reads_then [OF _ reads_then [OF reads_read_i64 [OF ok(2,3)]
          reads_bind_ret [OF reads_read_length_value [OF ok(4)]]]])
qed

lemma reads_consumer:
  assumes "consumer_ok c" shows "reads (skip_consumer t) (consumer_bytes t c) ()"
proof (cases c)
  case (Consumer name seen active ids)
  then have ok: "string_enc_ok name" "- (2 ^ 63) \<le> seen" "seen < 2 ^ 63" "- (2 ^ 63) \<le> active"
      "active < 2 ^ 63" "length ids \<le> 536870912" "\<forall>i \<in> set ids. length i = 16"
    using assms by simp_all
  have ids: "reads (st_bind read_count (\<lambda>n. st_bind (st_repeat n (read_exact_vec 16)) (\<lambda>_. st_ret ())))
      (counted (\<lambda>i. i) ids @ []) ()"
    by (rule reads_counted [where g = "\<lambda>i. i", OF ok(6) _ reads_ret])
      (use ok(7) in \<open>simp add: read_exact_vec_def reads_read_exact\<close>)
  have act: "reads (if t \<ge> RDB_TYPE_STREAM_LISTPACKS_3 then st_bind read_i64_le (\<lambda>_. st_ret ()) else st_ret ())
      (if t \<ge> RDB_TYPE_STREAM_LISTPACKS_3 then int_le 8 active else []) ()"
    by (rule reads_guard) (rule reads_read_i64 [OF ok(4,5)])
  show ?thesis
    unfolding skip_consumer_def Consumer consumer_bytes.simps
    by (rule reads_then [OF reads_read_string [OF ok(1)] reads_then [OF reads_read_i64 [OF ok(2,3)]
          reads_then [OF act ids [unfolded append_Nil2]]]])
qed

lemma reads_group:
  assumes "group_ok g" shows "reads (skip_cgroup t) (group_bytes t g) ()"
proof (cases g)
  case (Group name ms seq entries_read ps cs)
  then have ok: "string_enc_ok name" "ms < 2 ^ 64" "seq < 2 ^ 64" "entries_read < 2 ^ 64"
      "length ps \<le> 536870912" "\<forall>p \<in> set ps. pel_ok p" "length cs \<le> 536870912" "\<forall>c \<in> set cs. consumer_ok c"
    using assms by simp_all
  have "reads (st_bind read_count (\<lambda>n. st_bind (st_repeat n (skip_consumer t)) (\<lambda>_. st_ret ())))
      (counted (consumer_bytes t) cs @ []) ()"
    by (rule reads_counted [where g = "\<lambda>_. ()", OF ok(7) _ reads_ret]) (use ok(8) reads_consumer in blast)
  then have cs: "reads (st_bind read_count (\<lambda>num_consumers.
      st_bind (st_repeat num_consumers (skip_consumer t)) (\<lambda>_. st_ret ()))) (counted (consumer_bytes t) cs) ()"
    by simp
  have ps: "reads (st_bind read_count (\<lambda>num_pel. st_bind (st_repeat num_pel skip_pel_entry) (\<lambda>_.
      st_bind read_count (\<lambda>num_consumers. st_bind (st_repeat num_consumers (skip_consumer t)) (\<lambda>_. st_ret ())))))
      (counted pel_bytes ps @ counted (consumer_bytes t) cs) ()"
    by (rule reads_counted [where g = "\<lambda>_. ()", OF ok(5) _ cs]) (use ok(6) reads_pel in blast)
  have er: "reads (if t \<ge> RDB_TYPE_STREAM_LISTPACKS_2 then st_bind read_length_value (\<lambda>_. st_ret ()) else st_ret ())
      (if t \<ge> RDB_TYPE_STREAM_LISTPACKS_2 then enc_len entries_read else []) ()"
    by (rule reads_guard) (rule reads_read_length_value [OF ok(4)])
  show ?thesis
    unfolding skip_cgroup_def Group group_bytes.simps
    by (rule reads_then [OF reads_read_string [OF ok(1)] reads_then [OF reads_read_length_value [OF ok(2)]
          reads_then [OF reads_read_length_value [OF ok(3)] reads_then [OF er ps]]]])
qed

lemma reads_stream:
  assumes "stream_ok s"
    "t \<in> {RDB_TYPE_STREAM_LISTPACKS, RDB_TYPE_STREAM_LISTPACKS_2, RDB_TYPE_STREAM_LISTPACKS_3}"
  shows "reads (read_value t) (stream_bytes t s) (stream_value s)"
proof (cases s)
  case (Stream ns ms seq extra gs)
  then obtain es where ok: "length ns \<le> 536870912"
      "\<forall>n \<in> set ns. string_enc_ok (fst n) \<and> string_enc_ok (snd n)" "length es < 2 ^ 64"
      "stream_entries ns [] = Some es" "ms < 2 ^ 64" "seq < 2 ^ 64" "length extra = 5"
      "\<forall>n \<in> set extra. n < 2 ^ 64" "length gs \<le> 536870912" "\<forall>g \<in> set gs. group_ok g"
    using assms(1) by auto
  have extra: "reads (if t \<ge> RDB_TYPE_STREAM_LISTPACKS_2
        then st_bind (st_repeat 5 read_length_value) (\<lambda>_. st_ret ()) else st_ret ())
      (if t \<ge> RDB_TYPE_STREAM_LISTPACKS_2 then concat (map enc_len extra) else []) ()"
  proof (rule reads_guard)
    show "reads (st_repeat 5 read_length_value) (concat (map enc_len extra)) (map word_of_nat extra)"
      using reads_repeat_map [of extra read_length_value enc_len word_of_nat] ok(7,8) reads_read_length_value
      by simp
  qed
  have trailer: "reads (read_stream_trailer t) (enc_len (length es) @ enc_len ms @ enc_len seq @
      (if t \<ge> RDB_TYPE_STREAM_LISTPACKS_2 then concat (map enc_len extra) else []))
      (word_of_nat (length es), word_of_nat ms, word_of_nat seq)"
    unfolding read_stream_trailer_def
    by (rule reads_bind [OF reads_read_length_value [OF ok(3)] reads_bind [OF reads_read_length_value [OF ok(5)]
          reads_bind [OF reads_read_length_value [OF ok(6)] reads_bind_ret [OF extra]]]])
  have "reads (skip_stream_consumer_groups t) (counted (group_bytes t) gs @ []) ()"
    unfolding skip_stream_consumer_groups_def
    by (rule reads_counted [where g = "\<lambda>_. ()", OF ok(9) _ reads_ret]) (use ok(10) reads_group in blast)
  then have groups: "reads (skip_stream_consumer_groups t) (counted (group_bytes t) gs) ()" by simp
  let ?final = "\<lambda>(len, last_ms, last_seq). st_bind (skip_stream_consumer_groups t) (\<lambda>_.
      (case None of
         Some e \<Rightarrow> st_err e
       | None \<Rightarrow>
           if len \<noteq> word_of_nat (length es) then
             st_err (CorruptData ''stream length metadata ({length}) does not match decoded entry count ({decoded})'')
           else st_ret (VStream \<lparr>sd_entries = es, sd_length = len,
                                 sd_last_id = stream_id last_ms last_seq\<rparr>)))"
  have "reads (?final (word_of_nat (length es), word_of_nat ms, word_of_nat seq))
      (counted (group_bytes t) gs) (stream_value s)"
    using reads_bind_ret [OF groups, of "\<lambda>_. stream_value s"] by (simp add: Stream ok(4))
  note final = reads_bind [where f = ?final, OF trailer this]
  have "reads (read_stream t) (stream_bytes t s) (stream_value s)"
    unfolding read_stream_def Stream stream_bytes.simps counted_def [of stream_node_bytes] append_assoc ok(4) option.sel
    by (rule reads_bind [OF reads_read_count [OF ok(1)]], rule reads_bind [OF reads_stream_nodes [OF ok(2,4)]])
      (use final in \<open>simp add: Stream\<close>)
  then show ?thesis using assms(2) by (auto simp: read_value_def)
qed

section \<open>The three kinds together\<close>

text \<open>The type code of a stream says which of its fields are written.\<close>

datatype nested_enc =
    NestNodes "node_enc list"
  | NestModule "nat list" nat "module_enc list"
  | NestStream u8 stream_enc

fun nested_bytes :: "nested_enc \<Rightarrow> bytes" where
  "nested_bytes (NestNodes ns) = counted node_bytes ns"
| "nested_bytes (NestModule cs ver vs) = enc_len (module_id cs ver) @ module_stream vs"
| "nested_bytes (NestStream t s) = stream_bytes t s"

fun nested_value :: "nested_enc \<Rightarrow> rdb_value" where
  "nested_value (NestNodes ns) = VList (concat (map node_elems ns))"
| "nested_value (NestModule cs ver vs) =
     VModule \<lparr>m_name = map ((!) MODULE_TYPE_NAME_CHARSET) cs, m_version = word_of_nat ver,
       m_values = map module_enc_value vs\<rparr>"
| "nested_value (NestStream t s) = stream_value s"

fun nested_ok :: "u8 \<Rightarrow> nested_enc \<Rightarrow> bool" where
  "nested_ok t (NestNodes ns) \<longleftrightarrow> t \<in> {RDB_TYPE_LIST_QUICKLIST, RDB_TYPE_LIST_QUICKLIST_2} \<and>
     length ns \<le> 536870912 \<and> (\<forall>n \<in> set ns. node_ok t n)"
| "nested_ok t (NestModule cs ver vs) \<longleftrightarrow>
     t = RDB_TYPE_MODULE_2 \<and> module_id_ok cs ver \<and> module_values_ok vs"
| "nested_ok t (NestStream u s) \<longleftrightarrow> u = t \<and>
     t \<in> {RDB_TYPE_STREAM_LISTPACKS, RDB_TYPE_STREAM_LISTPACKS_2, RDB_TYPE_STREAM_LISTPACKS_3} \<and> stream_ok s"

lemma reads_nested:
  assumes "nested_ok t v" shows "reads (read_value t) (nested_bytes v) (nested_value v)"
  using assms reads_quicklist reads_module reads_stream by (cases v) auto

end
