(* ===== verification/Rdb_Format.thy ===== *)
theory Rdb_Format
  imports Rdb_Nested
begin

text \<open>
  A grammar of the RDB files a server writes and their meaning, stated without the reader;
  the values that nest other formats are in \<open>Rdb_Nested\<close>.  A file is a header, a sequence of opcode records and keys, the EOF opcode and a
  trailer; the meaning of a key under a chunk limit is the list of entries it must yield.
  The lemmas show that the value readers read each encoding (\<open>reads\<close>); the file as a whole is
  treated in \<open>Reader_File\<close>.
\<close>

section \<open>Elements of plain collections\<close>

text \<open>A textual score is one of three marks or the text of a number behind its length.\<close>

datatype score_enc = SNan | SInf | SNegInf | SText bytes

fun score_bytes :: "score_enc \<Rightarrow> bytes" where
  "score_bytes SNan = [253]"
| "score_bytes SInf = [254]"
| "score_bytes SNegInf = [255]"
| "score_bytes (SText s) = word_of_nat (length s) # s"

fun score_value :: "score_enc \<Rightarrow> f64" where
  "score_value SNan = F64_NAN"
| "score_value SInf = F64_INFINITY"
| "score_value SNegInf = F64_NEG_INFINITY"
| "score_value (SText s) = (case parse_f64 s of Some x \<Rightarrow> x | None \<Rightarrow> F64_NAN)"

fun score_ok :: "score_enc \<Rightarrow> bool" where
  "score_ok (SText s) \<longleftrightarrow> length s < 253 \<and> valid_utf8 s \<and> parse_f64 s \<noteq> None"
| "score_ok _ \<longleftrightarrow> True"

lemma reads_double_value:
  assumes "score_ok sc" shows "reads read_double_value (score_bytes sc) (score_value sc)"
proof -
  have mark: "reads read_double_value [b] x"
    if "(if b = 255 then F64_NEG_INFINITY else if b = 254 then F64_INFINITY else F64_NAN) = x"
      "b \<in> {253, 254, 255}" for b x
    unfolding read_double_value_def
    by (rule reads_bind_eq [OF reads_read_u8, where ys = "[]"]) (use that in \<open>auto simp: reads_ret\<close>)
  show ?thesis
  proof (cases sc)
    case (SText s)
    then obtain x where s: "length s < 253" "valid_utf8 s" "parse_f64 s = Some x" using assms by auto
    have len: "unat (word_of_nat (length s) :: u8) = length s" using s(1) by (simp add: unat_of_nat)
    have "reads (st_bind (read_exact_vec (length s)) (\<lambda>buf.
       st_bind (st_lift (ok_or (CorruptData ''invalid UTF-8 in double value'') (from_utf8 buf)))
         (\<lambda>s. st_lift (ok_or (CorruptData ''invalid double string: {}'') (parse_f64 s))))) s x"
      unfolding read_exact_vec_def
      by (rule reads_bind_eq [OF reads_read_exact, where ys = "[]"])
        (use s in \<open>simp_all add: from_utf8_def ok_or_def reads_lift_then reads_lift\<close>)
    moreover have "(word_of_nat (length s) :: u8) \<notin> {253, 254, 255}"
    proof
      assume "(word_of_nat (length s) :: u8) \<in> {253, 254, 255}"
      then have "unat (word_of_nat (length s) :: u8) \<in> {253, 254, 255}" by auto
      then show False using s(1) len by auto
    qed
    ultimately show ?thesis
      using s(3) unfolding read_double_value_def SText score_bytes.simps score_value.simps
      by (intro reads_bind_eq [OF reads_read_u8, where ys = s]) (simp_all add: len)
  qed (use mark [of 253] mark [of 254] mark [of 255] in simp_all)
qed

datatype elem =
    EStr string_enc
  | EText string_enc score_enc
  | EField string_enc string_enc
  | EScore string_enc f64
  | ETtl string_enc string_enc int

fun elem_bytes :: "elem \<Rightarrow> bytes" where
  "elem_bytes (EStr s) = string_enc_bytes s"
| "elem_bytes (EText m x) = string_enc_bytes m @ score_bytes x"
| "elem_bytes (EField f v) = string_enc_bytes f @ string_enc_bytes v"
| "elem_bytes (EScore m x) = string_enc_bytes m @ to_le 8 (unat x)"
| "elem_bytes (ETtl f v t) = string_enc_bytes f @ string_enc_bytes v @ int_le 8 t"

fun elem_ok :: "u8 \<Rightarrow> elem \<Rightarrow> bool" where
  "elem_ok t (EStr s) \<longleftrightarrow> t \<in> {RDB_TYPE_LIST, RDB_TYPE_SET} \<and> string_enc_ok s"
| "elem_ok t (EText m x) \<longleftrightarrow> t = RDB_TYPE_ZSET \<and> string_enc_ok m \<and> score_ok x"
| "elem_ok t (EField f v) \<longleftrightarrow> t = RDB_TYPE_HASH \<and> string_enc_ok f \<and> string_enc_ok v"
| "elem_ok t (EScore m x) \<longleftrightarrow> t = RDB_TYPE_ZSET_2 \<and> string_enc_ok m"
| "elem_ok t (ETtl f v ms) \<longleftrightarrow> t = RDB_TYPE_HASH_2 \<and> string_enc_ok f \<and> string_enc_ok v \<and> i64_range ms"

fun elem_string :: "elem \<Rightarrow> bytes" where
  "elem_string (EStr s) = string_enc_value s"
| "elem_string (EText m x) = string_enc_value m"
| "elem_string (EField f v) = string_enc_value f"
| "elem_string (EScore m x) = string_enc_value m"
| "elem_string (ETtl f v t) = string_enc_value f"

fun elem_pair :: "elem \<Rightarrow> bytes \<times> f64" where
  "elem_pair (EScore m x) = (string_enc_value m, x)"
| "elem_pair (EText m x) = (string_enc_value m, score_value x)"
| "elem_pair e = (elem_string e, 0)"

text \<open>A time to live of \<open>-1\<close> stands for none.\<close>

fun elem_field :: "elem \<Rightarrow> hash_field" where
  "elem_field (EField f v) =
     \<lparr>hf_field = string_enc_value f, hf_value = string_enc_value v, hf_expiry_ms = None\<rparr>"
| "elem_field (ETtl f v t) =
     \<lparr>hf_field = string_enc_value f, hf_value = string_enc_value v,
      hf_expiry_ms = (if t = -1 then None else Some t)\<rparr>"
| "elem_field e = \<lparr>hf_field = elem_string e, hf_value = [], hf_expiry_ms = None\<rparr>"

definition plain_value :: "u8 \<Rightarrow> elem list \<Rightarrow> rdb_value" where
  "plain_value t es =
     (if t = RDB_TYPE_LIST then VList (map elem_string es)
      else if t = RDB_TYPE_SET then VSet (map elem_string es)
      else if t \<in> {RDB_TYPE_ZSET, RDB_TYPE_ZSET_2} then VSortedSet (map elem_pair es)
      else VHash (map elem_field es))"

lemma reads_read_f64: "reads (read_exact 8) (to_le 8 (unat x)) (to_le 8 (unat x))"
  by (rule reads_read_exact) simp

lemma reads_str: "elem_ok t (EStr s) \<Longrightarrow> reads read_string (elem_bytes (EStr s)) (elem_string (EStr s))"
  by (simp add: reads_read_string)

lemma reads_field: "elem_ok t (EField f v) \<Longrightarrow>
  reads read_hash_field (elem_bytes (EField f v)) (elem_field (EField f v))"
  unfolding read_hash_field_def elem_bytes.simps elem_field.simps
  by (rule reads_bind [OF reads_read_string reads_bind_ret [OF reads_read_string]]) simp_all

lemma reads_score: "reads read_zset2_pair (elem_bytes (EScore m x)) (elem_pair (EScore m x))"
  if "elem_ok t (EScore m x)"
proof -
  have "reads (st_bind (read_exact 8) (\<lambda>buf. st_ret (string_enc_value m, from_le buf)))
      (to_le 8 (unat x)) (string_enc_value m, from_le (to_le 8 (unat x)) :: f64)"
    by (rule reads_bind_ret [OF reads_read_f64])
  then show ?thesis
    unfolding read_zset2_pair_def elem_bytes.simps elem_pair.simps
    by (intro reads_bind [OF reads_read_string]) (use that in \<open>simp_all add: from_le_to_le\<close>)
qed

lemma reads_text: "reads read_zset_pair (elem_bytes (EText m x)) (elem_pair (EText m x))"
  if "elem_ok t (EText m x)"
  unfolding read_zset_pair_def elem_bytes.simps elem_pair.simps
  by (rule reads_bind [OF reads_read_string reads_bind_ret [OF reads_double_value]]) (use that in simp_all)

lemma reads_ttl: "elem_ok t (ETtl f v ms) \<Longrightarrow>
  reads read_hash2_field (elem_bytes (ETtl f v ms)) (elem_field (ETtl f v ms))"
  unfolding read_hash2_field_def elem_bytes.simps elem_field.simps
  by (rule reads_bind [OF reads_read_string reads_bind [OF reads_read_string
        reads_bind_ret [OF reads_read_i64]]]) simp_all

text \<open>Any number of elements of a plain type reads back, so a collection can be cut anywhere.\<close>

lemma reads_read_n_elements:
  assumes "is_plain_type t" "\<forall>e \<in> set es. elem_ok t e"
  shows "reads (read_n_elements t (length es)) (concat (map elem_bytes es)) (plain_value t es)"
proof -
  have str: "reads (st_repeat (length es) read_string) (concat (map elem_bytes es)) (map elem_string es)"
    if "t \<in> {RDB_TYPE_LIST, RDB_TYPE_SET}"
  proof (rule reads_repeat_map)
    fix e
    assume e: "e \<in> set es"
    with assms(2) that obtain x where "e = EStr x"
      by (cases e) auto
    with e assms(2) that reads_str [of t x] show "reads read_string (elem_bytes e) (elem_string e)"
      by auto
  qed
  have field: "reads (st_repeat (length es) read_hash_field) (concat (map elem_bytes es))
      (map elem_field es)" if "t = RDB_TYPE_HASH"
  proof (rule reads_repeat_map)
    fix e
    assume e: "e \<in> set es"
    with assms(2) that obtain f v where "e = EField f v"
      by (cases e) auto
    with e assms(2) that reads_field [of t f v] show "reads read_hash_field (elem_bytes e) (elem_field e)"
      by auto
  qed
  have score: "reads (st_repeat (length es) read_zset2_pair) (concat (map elem_bytes es))
      (map elem_pair es)" if "t = RDB_TYPE_ZSET_2"
  proof (rule reads_repeat_map)
    fix e
    assume e: "e \<in> set es"
    with assms(2) that obtain m x where "e = EScore m x"
      by (cases e) auto
    with e assms(2) that reads_score [of t m x] show "reads read_zset2_pair (elem_bytes e) (elem_pair e)"
      by auto
  qed
  have textual: "reads (st_repeat (length es) read_zset_pair) (concat (map elem_bytes es))
      (map elem_pair es)" if "t = RDB_TYPE_ZSET"
  proof (rule reads_repeat_map)
    fix e
    assume e: "e \<in> set es"
    with assms(2) that obtain m x where "e = EText m x"
      by (cases e) auto
    with e assms(2) that reads_text [of t m x] show "reads read_zset_pair (elem_bytes e) (elem_pair e)"
      by auto
  qed
  have ttl: "reads (st_repeat (length es) read_hash2_field) (concat (map elem_bytes es))
      (map elem_field es)" if "t = RDB_TYPE_HASH_2"
  proof (rule reads_repeat_map)
    fix e
    assume e: "e \<in> set es"
    with assms(2) that obtain f v ms where "e = ETtl f v ms"
      by (cases e) auto
    with e assms(2) that reads_ttl [of t f v ms] show "reads read_hash2_field (elem_bytes e) (elem_field e)"
      by auto
  qed
  show ?thesis
    using assms(1) unfolding is_plain_type_def read_n_elements_def plain_value_def
    by (auto intro: reads_bind_ret str field textual score ttl)
qed

section \<open>Values\<close>

datatype value_enc =
    PlainEnc "elem list"
  | BlobEnc string_enc
  | NestEnc nested_enc

text \<open>What the single-blob types must decode to; the inner formats have their own theories.\<close>

definition blob_value :: "u8 \<Rightarrow> bytes \<Rightarrow> rdb_value parsed" where
  "blob_value t b =
     (let hash = (\<lambda>es. and_then (decode_hash_pairs es) (\<lambda>fs. Ok (VHash fs)));
          zset = (\<lambda>es. and_then (decode_zset_pairs es) (\<lambda>ps. Ok (VSortedSet ps)))
      in
      if t = RDB_TYPE_STRING then Ok (VString b)
      else if t = RDB_TYPE_SET_LISTPACK then
        and_then (lp_decode b) (\<lambda>es. Ok (VSet (map into_bytes es)))
      else if t = RDB_TYPE_HASH_LISTPACK then and_then (lp_decode b) hash
      else if t = RDB_TYPE_ZSET_LISTPACK then and_then (lp_decode b) zset
      else if t = RDB_TYPE_LIST_ZIPLIST then
        and_then (zl_decode b) (\<lambda>es. Ok (VList (map into_bytes es)))
      else if t = RDB_TYPE_HASH_ZIPLIST then and_then (zl_decode b) hash
      else if t = RDB_TYPE_ZSET_ZIPLIST then and_then (zl_decode b) zset
      else if t = RDB_TYPE_SET_INTSET then and_then (intset_decode b) (\<lambda>ms. Ok (VSet ms))
      else Err (UnknownType t))"

fun value_bytes :: "value_enc \<Rightarrow> bytes" where
  "value_bytes (PlainEnc es) = enc_len (length es) @ concat (map elem_bytes es)"
| "value_bytes (BlobEnc s) = string_enc_bytes s"
| "value_bytes (NestEnc v) = nested_bytes v"

definition is_blob_type :: "u8 \<Rightarrow> bool" where
  "is_blob_type t \<longleftrightarrow> t \<in> {RDB_TYPE_STRING, RDB_TYPE_SET_LISTPACK, RDB_TYPE_HASH_LISTPACK,
     RDB_TYPE_ZSET_LISTPACK, RDB_TYPE_LIST_ZIPLIST, RDB_TYPE_HASH_ZIPLIST, RDB_TYPE_ZSET_ZIPLIST,
     RDB_TYPE_SET_INTSET}"

fun value_ok :: "u8 \<Rightarrow> value_enc \<Rightarrow> bool" where
  "value_ok t (PlainEnc es) \<longleftrightarrow> is_plain_type t \<and> length es \<le> 536870912 \<and> (\<forall>e \<in> set es. elem_ok t e)"
| "value_ok t (BlobEnc s) \<longleftrightarrow> string_enc_ok s \<and>
     (t = RDB_TYPE_HASH_ZIPMAP \<or> is_blob_type t \<and> (\<exists>v. blob_value t (string_enc_value s) = Ok v))"
| "value_ok t (NestEnc v) \<longleftrightarrow> nested_ok t v"

lemma reads_read_value_plain:
  assumes "value_ok t (PlainEnc es)"
  shows "reads (read_value t) (value_bytes (PlainEnc es)) (plain_value t es)"
proof -
  have "reads (st_bind read_count (read_n_elements t)) (value_bytes (PlainEnc es)) (plain_value t es)"
    unfolding value_bytes.simps
    by (rule reads_bind [where f = "read_n_elements t", OF reads_read_count reads_read_n_elements])
      (use assms in simp_all)
  moreover have "read_value t = st_bind read_count (read_n_elements t)"
    using assms by (auto simp: read_value_def is_plain_type_def)
  ultimately show ?thesis by simp
qed

lemma reads_string_then:
  "string_enc_ok s \<Longrightarrow> f (string_enc_value s) = Ok v \<Longrightarrow>
   reads (st_bind read_string (\<lambda>b. st_lift (f b))) (string_enc_bytes s) v"
  by (rule reads_bind_lift [OF reads_read_string])

lemma read_value_blob:
  assumes "is_blob_type t"
  shows "read_value t = st_bind read_string (\<lambda>b. st_lift (blob_value t b))"
proof -
  have lift: "st_bind (st_lift m) f s = (case m of Ok a \<Rightarrow> f a s | Err e \<Rightarrow> (Err e, s) | Panic \<Rightarrow> (Panic, s))"
    for m :: "'b parsed" and f :: "'b \<Rightarrow> 'c rd" and s
    by (simp add: st_bind_def split: res.split)
  show ?thesis
    using assms unfolding is_blob_type_def
    by (auto simp: read_value_def blob_value_def read_blob_def st_bind_assoc fun_eq_iff and_then_def lift
        intro!: arg_cong [where f = "\<lambda>k. st_bind read_string k _"] split: res.split)
qed

lemma reads_read_value_blob:
  assumes "string_enc_ok s" "is_blob_type t" "blob_value t (string_enc_value s) = Ok v"
  shows "reads (read_value t) (value_bytes (BlobEnc s)) v"
  unfolding read_value_blob [OF assms(2)] value_bytes.simps
  by (rule reads_string_then [where f = "blob_value t", OF assms(1) assms(3)])

section \<open>Files\<close>

datatype file_op =
    OAux string_enc string_enc
  | OSelectDb nat
  | OResizeDb nat nat
  | OFunction string_enc
  | OSlotInfo nat nat nat
  | OSlotImport string_enc "(nat \<times> nat) list"
  | OModuleAux nat nat nat "module_enc list"
  | OExpireMs int
  | OExpire int
  | OIdle nat
  | OFreq u8

datatype item = Op file_op | Key u8 string_enc value_enc

fun op_bytes :: "file_op \<Rightarrow> bytes" where
  "op_bytes (OAux k v) = RDB_OPCODE_AUX # string_enc_bytes k @ string_enc_bytes v"
| "op_bytes (OSelectDb n) = RDB_OPCODE_SELECTDB # enc_len n"
| "op_bytes (OResizeDb n m) = RDB_OPCODE_RESIZEDB # enc_len n @ enc_len m"
| "op_bytes (OFunction s) = RDB_OPCODE_FUNCTION2 # string_enc_bytes s"
| "op_bytes (OSlotInfo a b c) = RDB_OPCODE_SLOT_INFO # enc_len a @ enc_len b @ enc_len c"
| "op_bytes (OSlotImport s rs) =
     RDB_OPCODE_SLOT_IMPORT # string_enc_bytes s @ counted (\<lambda>(a, b). enc_len a @ enc_len b) rs"
| "op_bytes (OModuleAux a b c vs) =
     RDB_OPCODE_MODULE_AUX # enc_len a @ enc_len b @ enc_len c @ module_stream vs"
| "op_bytes (OExpireMs ms) = RDB_OPCODE_EXPIRETIME_MS # int_le 8 ms"
| "op_bytes (OExpire secs) = RDB_OPCODE_EXPIRETIME # int_le 4 secs"
| "op_bytes (OIdle n) = RDB_OPCODE_IDLE # enc_len n"
| "op_bytes (OFreq f) = [RDB_OPCODE_FREQ, f]"

fun op_ok :: "file_op \<Rightarrow> bool" where
  "op_ok (OAux k v) \<longleftrightarrow> string_enc_ok k \<and> string_enc_ok v \<and> valid_utf8 (string_enc_value k)"
| "op_ok (OSelectDb n) \<longleftrightarrow> n < 2 ^ 32"
| "op_ok (OResizeDb n m) \<longleftrightarrow> n < 2 ^ 64 \<and> m < 2 ^ 64"
| "op_ok (OFunction s) \<longleftrightarrow> string_enc_ok s"
| "op_ok (OSlotInfo a b c) \<longleftrightarrow> a < 2 ^ 64 \<and> b < 2 ^ 64 \<and> c < 2 ^ 64"
| "op_ok (OSlotImport s rs) \<longleftrightarrow> string_enc_ok s \<and> length rs \<le> 536870912 \<and>
     (\<forall>(a, b) \<in> set rs. a < 2 ^ 64 \<and> b < 2 ^ 64)"
| "op_ok (OModuleAux a b c vs) \<longleftrightarrow> a < 2 ^ 64 \<and> b < 2 ^ 64 \<and> c < 2 ^ 64 \<and>
     (\<forall>v \<in> set vs. module_enc_ok v)"
| "op_ok (OExpireMs ms) \<longleftrightarrow> i64_range ms"
| "op_ok (OExpire secs) \<longleftrightarrow> - (2 ^ 31) \<le> secs \<and> secs < 2 ^ 31"
| "op_ok (OIdle n) \<longleftrightarrow> n < 2 ^ 64"
| "op_ok (OFreq f) \<longleftrightarrow> True"

text \<open>What the reader carries from an opcode to the key it belongs to.\<close>

record db_ctx =
  c_db :: u32
  c_expiry :: "i64 option"
  c_idle :: "u64 option"
  c_freq :: "u8 option"

fun op_ctx :: "file_op \<Rightarrow> db_ctx \<Rightarrow> db_ctx" where
  "op_ctx (OSelectDb n) c = c\<lparr>c_db := word_of_nat n\<rparr>"
| "op_ctx (OExpireMs ms) c = c\<lparr>c_expiry := Some ms\<rparr>"
| "op_ctx (OExpire secs) c = c\<lparr>c_expiry := Some (secs * 1000)\<rparr>"
| "op_ctx (OIdle n) c = c\<lparr>c_idle := Some (word_of_nat n)\<rparr>"
| "op_ctx (OFreq f) c = c\<lparr>c_freq := Some f\<rparr>"
| "op_ctx _ c = c"

fun op_aux :: "file_op \<Rightarrow> (bytes \<rightharpoonup> bytes) \<Rightarrow> (bytes \<rightharpoonup> bytes)" where
  "op_aux (OAux k v) m = m(string_enc_value k \<mapsto> from_utf8_lossy (string_enc_value v))"
| "op_aux _ m = m"

definition after_key :: "db_ctx \<Rightarrow> db_ctx" where
  "after_key c = c\<lparr>c_expiry := None, c_idle := None, c_freq := None\<rparr>"

text \<open>The pieces a long collection is cut into, each with the index of its first element.\<close>

function pieces :: "nat \<Rightarrow> nat \<Rightarrow> 'a list \<Rightarrow> (nat \<times> 'a list) list" where
  "pieces n off xs =
     (if xs = [] \<or> n = 0 then [] else (off, take n xs) # pieces n (off + n) (drop n xs))"
  by pat_completeness auto
termination by (relation "measure (\<lambda>(n, off, xs). length xs)") auto

declare pieces.simps [simp del]

lemma pieces_concat: "0 < n \<Longrightarrow> concat (map snd (pieces n off xs)) = xs"
  by (induction n off xs rule: pieces.induct) (subst pieces.simps; auto)

lemma pieces_Nil [simp]: "pieces n off [] = []"
  by (subst pieces.simps) simp

definition ctx_entry :: "db_ctx \<Rightarrow> u8 \<Rightarrow> bytes \<Rightarrow> u64 option \<Rightarrow> u64 option \<Rightarrow> rdb_value \<Rightarrow> rdb_entry" where
  "ctx_entry c t key tot off value =
     \<lparr>e_db = c_db c, e_key = key, e_value = value, e_type_code = t, e_expiry_ms = c_expiry c,
      e_lru_idle_secs = c_idle c, e_lfu_frequency = c_freq c, e_total_elements = tot,
      e_element_offset = off\<rparr>"

fun key_entries :: "usize option \<Rightarrow> db_ctx \<Rightarrow> u8 \<Rightarrow> bytes \<Rightarrow> value_enc \<Rightarrow> rdb_entry parsed list" where
  "key_entries limit c t key (PlainEnc es) =
     (case limit of
        Some n \<Rightarrow>
          if length es > n then
            map (\<lambda>(off, part). Ok (ctx_entry c t key (Some (word_of_nat (length es)))
                   (Some (word_of_nat off)) (plain_value t part))) (pieces n 0 es)
          else [Ok (ctx_entry c t key None None (plain_value t es))]
      | None \<Rightarrow> [Ok (ctx_entry c t key None None (plain_value t es))])"
| "key_entries limit c t key (BlobEnc s) =
     [and_then (blob_value t (string_enc_value s)) (\<lambda>v. Ok (ctx_entry c t key None None v))]"
| "key_entries limit c t key (NestEnc v) = [Ok (ctx_entry c t key None None (nested_value v))]"

fun entries :: "usize option \<Rightarrow> db_ctx \<Rightarrow> item list \<Rightarrow> rdb_entry parsed list" where
  "entries limit c [] = []"
| "entries limit c (Op op # xs) = entries limit (op_ctx op c) xs"
| "entries limit c (Key t k v # xs) =
     key_entries limit c t (string_enc_value k) v @ entries limit (after_key c) xs"

fun item_bytes :: "item \<Rightarrow> bytes" where
  "item_bytes (Op op) = op_bytes op"
| "item_bytes (Key t k v) = t # string_enc_bytes k @ value_bytes v"

fun item_ok :: "item \<Rightarrow> bool" where
  "item_ok (Op op) \<longleftrightarrow> op_ok op"
| "item_ok (Key t k v) \<longleftrightarrow> string_enc_ok k \<and> value_ok t v"

fun items_aux :: "item list \<Rightarrow> (bytes \<rightharpoonup> bytes) \<Rightarrow> (bytes \<rightharpoonup> bytes)" where
  "items_aux [] m = m"
| "items_aux (Op op # xs) m = items_aux xs (op_aux op m)"
| "items_aux (Key t k v # xs) m = items_aux xs m"

definition items_bytes :: "item list \<Rightarrow> bytes" where
  "items_bytes xs = concat (map item_bytes xs)"

definition header_bytes :: "rdb_magic \<Rightarrow> nat \<Rightarrow> bytes" where
  "header_bytes m v =
     (case m of Redis \<Rightarrow> str_bytes ''REDIS0'' | Valkey \<Rightarrow> str_bytes ''VALKEY'') @
     [48 + word_of_nat (v div 100), 48 + word_of_nat (v div 10 mod 10), 48 + word_of_nat (v mod 10)]"

definition version_ok :: "rdb_magic \<Rightarrow> nat \<Rightarrow> bool" where
  "version_ok m v \<longleftrightarrow> (case m of Redis \<Rightarrow> 1 \<le> v \<and> v \<le> 11 | Valkey \<Rightarrow> v = 80)"

text \<open>Everything the checksum covers, and a whole file.\<close>

definition file_body :: "rdb_magic \<Rightarrow> nat \<Rightarrow> item list \<Rightarrow> bytes" where
  "file_body m v xs = header_bytes m v @ items_bytes xs @ [RDB_OPCODE_EOF]"

definition file_bytes :: "rdb_magic \<Rightarrow> nat \<Rightarrow> item list \<Rightarrow> bytes" where
  "file_bytes m v xs = file_body m v xs @ to_le 8 (unat (crc64 0 (file_body m v xs)))"

lemma items_bytes_simps [simp]:
  "items_bytes [] = []" "items_bytes (x # xs) = item_bytes x @ items_bytes xs"
  by (simp_all add: items_bytes_def)

end
