(* ===== verification/Reader_File.thy ===== *)
theory Reader_File
  imports Reader_Run Rdb_Format
begin

text \<open>
  Reading back whole files: the reader of \<open>crates/rdb-parser/src/reader.rs\<close> on the files that
  \<open>Rdb_Format\<close> describes.  The lemmas follow the reader through a file, one opcode record, key
  or chunk at a time; the theorem is the round trip, with and without chunking.
\<close>

section \<open>Following the reader\<close>

definition advance :: "bytes \<Rightarrow> bytes \<Rightarrow> rdb_reader \<Rightarrow> rdb_reader" where
  "advance bs rest r =
     r\<lparr>reader := (reader r)\<lparr>inner := rest, crc := crc64 (crc (reader r)) bs\<rparr>\<rparr>"

lemma advance_fields [simp]:
  "inner (reader (advance bs rest r)) = rest"
  "src_end (reader (advance bs rest r)) = src_end (reader r)"
  "crc (reader (advance bs rest r)) = crc64 (crc (reader r)) bs"
  "header (advance bs rest r) = header r" "metadata (advance bs rest r) = metadata r"
  "current_db (advance bs rest r) = current_db r"
  "pending_expiry_ms (advance bs rest r) = pending_expiry_ms r"
  "pending_lru_idle (advance bs rest r) = pending_lru_idle r"
  "pending_lfu_freq (advance bs rest r) = pending_lfu_freq r"
  "preamble_byte (advance bs rest r) = preamble_byte r" "finished (advance bs rest r) = finished r"
  "max_key_elements (advance bs rest r) = max_key_elements r"
  "chunked (advance bs rest r) = chunked r" "crc_checked (advance bs rest r) = crc_checked r"
  by (simp_all add: advance_def)

lemma on_reader_reads:
  "reads m bs a \<Longrightarrow> inner (reader r) = bs @ rest \<Longrightarrow> on_reader m r = (Ok a, advance bs rest r)"
  by (simp add: on_reader_def readsD advance_def)

lemma advance_advance [simp]: "advance ys rest (advance xs mid r) = advance (xs @ ys) rest r"
  by (simp add: advance_def crc64_append)

lemma crc_chain: "crc64 (crc64 c xs) ys = crc64 c (xs @ ys)"
  by (simp add: crc64_append)

lemma take_byte_reads:
  "preamble_byte r = None \<Longrightarrow> inner (reader r) = b # rest \<Longrightarrow>
   take_byte r = (Ok b, advance [b] rest r)"
  using on_reader_reads [OF reads_read_u8, of r b rest] by (simp add: take_byte_def)

lemma opcode_loop_go_on:
  "take_byte r = (Ok b, s) \<Longrightarrow> opcode_step b s = (Ok None, t) \<Longrightarrow> opcode_loop r = opcode_loop t"
  by (subst opcode_loop.simps) simp

lemma opcode_loop_return:
  "take_byte r = (Ok b, s) \<Longrightarrow> opcode_step b s = (Ok (Some x), t) \<Longrightarrow> opcode_loop r = (Ok x, t)"
  by (subst opcode_loop.simps) simp

lemma opcode_loop_fail:
  "take_byte r = (Ok b, s) \<Longrightarrow> opcode_step b s = (Err e, t) \<Longrightarrow> opcode_loop r = (Err e, t)"
  by (subst opcode_loop.simps) simp

definition ctx_of :: "rdb_reader \<Rightarrow> db_ctx" where
  "ctx_of r = \<lparr>c_db = current_db r, c_expiry = pending_expiry_ms r, c_idle = pending_lru_idle r,
     c_freq = pending_lfu_freq r\<rparr>"

definition set_ctx :: "db_ctx \<Rightarrow> rdb_reader \<Rightarrow> rdb_reader" where
  "set_ctx c r = r\<lparr>current_db := c_db c, pending_expiry_ms := c_expiry c,
     pending_lru_idle := c_idle c, pending_lfu_freq := c_freq c\<rparr>"

definition set_aux :: "(bytes \<rightharpoonup> bytes) \<Rightarrow> rdb_reader \<Rightarrow> rdb_reader" where
  "set_aux m r = r\<lparr>metadata := (metadata r)\<lparr>aux := m\<rparr>\<rparr>"

text \<open>The reader after an opcode record.\<close>

definition after_op :: "file_op \<Rightarrow> bytes \<Rightarrow> rdb_reader \<Rightarrow> rdb_reader" where
  "after_op op rest r =
     set_aux (op_aux op (aux (metadata r))) (set_ctx (op_ctx op (ctx_of r))
       (advance (op_bytes op) rest r))"

lemmas ctx_defs = ctx_of_def set_ctx_def set_aux_def crc_chain

lemma reads_lengths:
  "a < 2 ^ 64 \<Longrightarrow> b < 2 ^ 64 \<Longrightarrow> reads skip_slot_range (enc_len a @ enc_len b) ()"
  unfolding skip_slot_range_def
  by (intro reads_bind [OF reads_read_length_value reads_bind_ret [OF reads_read_length_value]])

lemma reads_three:
  assumes "a < 2 ^ 64" "b < 2 ^ 64" "c < 2 ^ 64"
  shows "reads (st_repeat 3 read_length_value) (enc_len a @ enc_len b @ enc_len c)
    [word_of_nat a, word_of_nat b, word_of_nat c]"
proof -
  have "reads (st_repeat (length [a, b, c]) read_length_value) (concat (map enc_len [a, b, c]))
      (map word_of_nat [a, b, c])"
    by (rule reads_repeat_map) (use assms in \<open>auto intro: reads_read_length_value\<close>)
  then show ?thesis by (simp add: numeral_3_eq_3)
qed

text \<open>One opcode record: the loop goes on from the state its meaning prescribes.\<close>

lemma opcode_loop_op:
  assumes "op_ok op" "inner (reader r) = op_bytes op @ rest" "preamble_byte r = None"
  shows "opcode_loop r = opcode_loop (after_op op rest r)"
proof -
  obtain b xs where b: "op_bytes op = b # xs"
    by (cases op) auto
  then have tb: "take_byte r = (Ok b, advance [b] (xs @ rest) r)"
    using assms(2,3) by (intro take_byte_reads) simp_all
  let ?s = "advance [b] (xs @ rest) r"
  have "opcode_step b ?s = (Ok None, after_op op rest r)"
  proof (cases op)
    case (OAux k v)
    have "on_reader read_string ?s = (Ok (string_enc_value k),
        advance (string_enc_bytes k) (string_enc_bytes v @ rest) ?s)"
      by (rule on_reader_reads [OF reads_read_string]) (use OAux b assms(1) in auto)
    moreover have "on_reader read_string (advance (string_enc_bytes k) (string_enc_bytes v @ rest) ?s) =
        (Ok (string_enc_value v), advance (string_enc_bytes v) rest
           (advance (string_enc_bytes k) (string_enc_bytes v @ rest) ?s))"
      by (rule on_reader_reads [OF reads_read_string]) (use OAux b assms(1) in auto)
    ultimately show ?thesis
      using OAux b assms(1)
      by (auto simp: opcode_step_def continue_def read_aux_field_def after_op_def ctx_defs
          from_utf8_def modify_def from_utf8_lossy_valid advance_def Let_def)
  next
    case (OSelectDb n)
    have "on_reader read_length_value ?s = (Ok (word_of_nat n), advance (enc_len n) rest ?s)"
      by (rule on_reader_reads [OF reads_read_length_value]) (use OSelectDb b assms(1) in auto)
    then show ?thesis
      using OSelectDb b assms(1)
      by (auto simp: opcode_step_def continue_def select_db_def after_op_def ctx_defs modify_def
          unat_of_nat advance_def unsigned_of_nat take_bit_nat_eq_self)
  next
    case (OResizeDb n m)
    have "on_reader skip_slot_range ?s = (Ok (), advance (enc_len n @ enc_len m) rest ?s)"
      by (rule on_reader_reads [OF reads_lengths]) (use OResizeDb b assms(1) in auto)
    then show ?thesis
      using OResizeDb b by (auto simp: opcode_step_def continue_def after_op_def ctx_defs advance_def)
  next
    case (OFunction x)
    have "on_reader (st_bind read_string (\<lambda>_. st_ret ())) ?s = (Ok (), advance (string_enc_bytes x) rest ?s)"
      by (rule on_reader_reads [OF reads_bind_ret [OF reads_read_string]]) (use OFunction b assms(1) in auto)
    then show ?thesis
      using OFunction b by (auto simp: opcode_step_def continue_def after_op_def ctx_defs advance_def)
  next
    case (OSlotInfo i j k)
    have "on_reader (st_bind (st_repeat 3 read_length_value) (\<lambda>_. st_ret ())) ?s =
        (Ok (), advance (enc_len i @ enc_len j @ enc_len k) rest ?s)"
      by (rule on_reader_reads [OF reads_bind_ret [OF reads_three]]) (use OSlotInfo b assms(1) in auto)
    then show ?thesis
      using OSlotInfo b by (auto simp: opcode_step_def continue_def after_op_def ctx_defs advance_def)
  next
    case (OSlotImport s rs)
    let ?slots = "\<lambda>(a, b). enc_len a @ enc_len b"
    have slot: "reads skip_slot_range (?slots x) ()" if "x \<in> set rs" for x
      using that OSlotImport assms(1) by (cases x) (auto intro!: reads_lengths)
    have "reads (st_bind read_count (\<lambda>num_ranges. st_bind (st_repeat num_ranges skip_slot_range) (\<lambda>_. st_ret ())))
        (counted ?slots rs @ []) ()"
      by (rule reads_counted [where g = "\<lambda>_. ()", OF _ slot reads_ret]) (use OSlotImport assms(1) in simp)
    then have ranges: "reads (st_bind read_count (\<lambda>num_ranges.
        st_bind (st_repeat num_ranges skip_slot_range) (\<lambda>_. st_ret ()))) (counted ?slots rs) ()"
      by simp
    have "on_reader (st_bind read_string (\<lambda>_. st_bind read_count (\<lambda>num_ranges.
          st_bind (st_repeat num_ranges skip_slot_range) (\<lambda>_. st_ret ())))) ?s =
        (Ok (), advance (string_enc_bytes s @ counted ?slots rs) rest ?s)"
      by (rule on_reader_reads [OF reads_then [OF reads_read_string ranges]])
        (use OSlotImport b assms(1) in auto)
    then show ?thesis
      using OSlotImport b by (auto simp: opcode_step_def continue_def after_op_def ctx_defs advance_def)
  next
    case (OModuleAux i j k vs)
    have "on_reader (st_bind (st_repeat 3 read_length_value) (\<lambda>_. skip_module_data)) ?s =
        (Ok (), advance ((enc_len i @ enc_len j @ enc_len k) @ module_stream vs) rest ?s)"
      by (rule on_reader_reads [OF reads_then [OF reads_three reads_skip_module]])
        (use OModuleAux b assms(1) in auto)
    then show ?thesis
      using OModuleAux b by (auto simp: opcode_step_def continue_def after_op_def ctx_defs advance_def)
  next
    case (OExpireMs ms)
    have "on_reader read_i64_le ?s = (Ok ms, advance (int_le 8 ms) rest ?s)"
      by (rule on_reader_reads [OF reads_read_i64]) (use OExpireMs b assms(1) in auto)
    then show ?thesis
      using OExpireMs b
      by (auto simp: opcode_step_def continue_def modify_def after_op_def ctx_defs advance_def)
  next
    case (OExpire secs)
    have "on_reader read_i32_le ?s = (Ok secs, advance (int_le 4 secs) rest ?s)"
      by (rule on_reader_reads [OF reads_read_i32]) (use OExpire b assms(1) in auto)
    then show ?thesis
      using OExpire b assms(1)
      by (auto simp: opcode_step_def continue_def expire_seconds_def modify_def after_op_def
          ctx_defs advance_def)
  next
    case (OIdle n)
    have "on_reader read_length_value ?s = (Ok (word_of_nat n), advance (enc_len n) rest ?s)"
      by (rule on_reader_reads [OF reads_read_length_value]) (use OIdle b assms(1) in auto)
    then show ?thesis
      using OIdle b
      by (auto simp: opcode_step_def continue_def modify_def after_op_def ctx_defs advance_def)
  next
    case (OFreq f)
    have "on_reader read_u8 ?s = (Ok f, advance [f] rest ?s)"
      by (rule on_reader_reads [OF reads_read_u8]) (use OFreq b in auto)
    then show ?thesis
      using OFreq b
      by (auto simp: opcode_step_def continue_def modify_def after_op_def ctx_defs advance_def)
  qed
  then show ?thesis
    by (rule opcode_loop_go_on [OF tb])
qed

section \<open>Keys\<close>

definition key_state :: "bytes \<Rightarrow> bytes \<Rightarrow> rdb_reader \<Rightarrow> rdb_reader" where
  "key_state bs rest r = set_ctx (after_key (ctx_of r)) (advance bs rest r)"

lemma opcode_step_object:
  "is_object_type t \<Longrightarrow> opcode_step t = st_bind (read_entry t) (\<lambda>e. st_ret (Some (Some e)))"
  unfolding opcode_step_def by (auto simp: is_object_type_cases)

text \<open>Up to the value, an entry is its pending metadata and its key.\<close>

lemma read_entry_key:
  assumes "string_enc_ok k" "inner (reader r) = string_enc_bytes k @ rest"
  shows "read_entry t r =
    (let r' = key_state (string_enc_bytes k) rest r; c = ctx_of r; key = string_enc_value k in
     case max_key_elements r of
       Some limit \<Rightarrow>
         if is_plain_type t then
           st_bind (on_reader read_count) (\<lambda>count.
           if count > limit then
             st_bind (on_reader (read_n_elements t limit)) (\<lambda>value.
             st_bind (modify (\<lambda>r. r\<lparr>chunked := Some
                    \<lparr>ch_db = c_db c, ch_key = key, ch_type_code = t,
                     ch_expiry_ms = c_expiry c, ch_lru_idle_secs = c_idle c,
                     ch_lfu_frequency = c_freq c, ch_total_count = count,
                     ch_remaining = count - limit, ch_element_offset = word_of_nat limit\<rparr>\<rparr>)) (\<lambda>_.
             st_ret (ctx_entry c t key (Some (word_of_nat count)) (Some 0) value)))
           else st_bind (on_reader (read_n_elements t count)) (\<lambda>value.
             st_ret (ctx_entry c t key None None value))) r'
         else st_bind (on_reader (read_value t)) (\<lambda>value. st_ret (ctx_entry c t key None None value)) r'
     | None \<Rightarrow>
         st_bind (on_reader (read_value t)) (\<lambda>value. st_ret (ctx_entry c t key None None value)) r')"
proof -
  let ?s = "r\<lparr>pending_expiry_ms := None, pending_lru_idle := None, pending_lfu_freq := None\<rparr>"
  have take: "take_pending r = (Ok (c_expiry (ctx_of r), c_idle (ctx_of r), c_freq (ctx_of r)), ?s)"
    by (simp add: take_pending_def ctx_of_def)
  have "on_reader read_string ?s = (Ok (string_enc_value k), advance (string_enc_bytes k) rest ?s)"
    by (rule on_reader_reads [OF reads_read_string [OF assms(1)]]) (simp add: assms(2))
  moreover have "advance (string_enc_bytes k) rest ?s = key_state (string_enc_bytes k) rest r"
    by (simp add: key_state_def advance_def ctx_defs after_key_def)
  moreover have "current_db (key_state (string_enc_bytes k) rest r) = c_db (ctx_of r)"
    "max_key_elements (key_state (string_enc_bytes k) rest r) = max_key_elements r"
    by (simp_all add: key_state_def advance_def ctx_defs after_key_def)
  ultimately show ?thesis
    unfolding read_entry_def
    by (simp add: take gets_def st_bind_def [where m = "gets _"] Let_def make_entry_def ctx_entry_def
        cong: option.case_cong if_cong split: option.split)
qed

lemma nested_ok_cases: "nested_ok t v \<Longrightarrow> t \<in> {RDB_TYPE_LIST_QUICKLIST, RDB_TYPE_LIST_QUICKLIST_2,
  RDB_TYPE_MODULE_2, RDB_TYPE_STREAM_LISTPACKS, RDB_TYPE_STREAM_LISTPACKS_2, RDB_TYPE_STREAM_LISTPACKS_3}"
  by (cases v) auto

lemma value_ok_object: "value_ok t v \<Longrightarrow> is_object_type t"
  by (cases v) (auto simp: is_plain_type_def is_blob_type_def is_object_type_cases dest: nested_ok_cases)

lemma nested_not_plain: "nested_ok t v \<Longrightarrow> \<not> is_plain_type t"
  by (drule nested_ok_cases) (auto simp: is_plain_type_def)

lemma blob_not_plain: "value_ok t (BlobEnc s) \<Longrightarrow> \<not> is_plain_type t"
  by (auto simp: is_plain_type_def is_blob_type_def)

lemma key_state_fields [simp]:
  "inner (reader (key_state bs rest r)) = rest" "header (key_state bs rest r) = header r"
  "crc (reader (key_state bs rest r)) = crc64 (crc (reader r)) bs"
  "src_end (reader (key_state bs rest r)) = src_end (reader r)"
  "metadata (key_state bs rest r) = metadata r" "preamble_byte (key_state bs rest r) = preamble_byte r"
  "finished (key_state bs rest r) = finished r" "chunked (key_state bs rest r) = chunked r"
  "max_key_elements (key_state bs rest r) = max_key_elements r"
  "crc_checked (key_state bs rest r) = crc_checked r"
  "ctx_of (key_state bs rest r) = after_key (ctx_of r)"
  by (simp_all add: key_state_def ctx_defs after_key_def advance_def)

lemma advance_key_state [simp]: "advance ys rest (key_state xs mid r) = key_state (xs @ ys) rest r"
  by (simp add: key_state_def advance_def ctx_defs after_key_def)

lemma key_state_advance [simp]: "key_state ys rest (advance xs mid r) = key_state (xs @ ys) rest r"
  by (simp add: key_state_def advance_def ctx_defs after_key_def)

lemma ctx_of_advance [simp]: "ctx_of (advance bs rest r) = ctx_of r"
  by (simp add: ctx_of_def)

text \<open>A value that is cut in pieces, and one that is read in one go.\<close>

fun is_cut :: "usize option \<Rightarrow> value_enc \<Rightarrow> bool" where
  "is_cut (Some n) (PlainEnc es) \<longleftrightarrow> n < length es"
| "is_cut _ _ \<longleftrightarrow> False"

lemma read_entry_whole:
  assumes "string_enc_ok k" "inner (reader r) = string_enc_bytes k @ value_bytes v @ rest"
    and "value_ok t v" "key_entries (max_key_elements r) (ctx_of r) t (string_enc_value k) v = [x]"
    and "\<not> is_cut (max_key_elements r) v"
  shows "read_entry t r = (x, key_state (string_enc_bytes k @ value_bytes v) rest r)"
proof -
  let ?r = "key_state (string_enc_bytes k) (value_bytes v @ rest) r"
  note e = read_entry_key [OF assms(1,2), unfolded Let_def]
  show ?thesis
  proof (cases v)
    case (PlainEnc es)
    have val: "on_reader (read_value t) ?r = (Ok (plain_value t es), advance (value_bytes v) rest ?r)"
      unfolding PlainEnc
      by (rule on_reader_reads [OF reads_read_value_plain]) (use assms(3) PlainEnc in simp_all)
    have x: "x = Ok (ctx_entry (ctx_of r) t (string_enc_value k) None None (plain_value t es))"
      using assms(4,5) PlainEnc by (auto split: option.splits)
    show ?thesis
    proof (cases "max_key_elements r")
      case None
      with e val x show ?thesis by simp
    next
      case (Some n)
      have count: "on_reader read_count ?r = (Ok (length es),
          advance (enc_len (length es)) (concat (map elem_bytes es) @ rest) ?r)"
        by (rule on_reader_reads [OF reads_read_count]) (use assms(3) PlainEnc in simp_all)
      have elems: "on_reader (read_n_elements t (length es))
          (advance (enc_len (length es)) (concat (map elem_bytes es) @ rest) ?r) =
          (Ok (plain_value t es), advance (concat (map elem_bytes es)) rest
             (advance (enc_len (length es)) (concat (map elem_bytes es) @ rest) ?r))"
        by (rule on_reader_reads [OF reads_read_n_elements]) (use assms(3) PlainEnc in simp_all)
      have "is_plain_type t" "\<not> n < length es"
        using assms(3,5) PlainEnc Some by simp_all
      with Some e count elems x PlainEnc show ?thesis by simp
    qed
  next
    case (BlobEnc b)
    then have np: "\<not> is_plain_type t"
      using assms(3) blob_not_plain by blast
    then have e': "read_entry t r = st_bind (on_reader (read_value t)) (\<lambda>value. st_ret
        (ctx_entry (ctx_of r) t (string_enc_value k) None None value)) ?r"
      using e by (simp split: option.splits)
    have bs: "string_enc_ok b"
      using assms(3) BlobEnc by simp
    show ?thesis
    proof (cases "t = RDB_TYPE_HASH_ZIPMAP")
      case True
      have "on_reader (read_value t) ?r = (Err (UnknownType t), advance (string_enc_bytes b) rest ?r)"
        using readsD [OF reads_read_string [OF bs], of "reader ?r" rest] BlobEnc True
        by (simp add: read_value_def on_reader_def advance_def)
      moreover have "x = Err (UnknownType t)"
        using assms(4) BlobEnc True by (simp add: blob_value_def Let_def)
      ultimately show ?thesis
        using e' BlobEnc by simp
    next
      case False
      then obtain w where w: "is_blob_type t" "blob_value t (string_enc_value b) = Ok w"
        using assms(3) BlobEnc by auto
      have "on_reader (read_value t) ?r = (Ok w, advance (value_bytes v) rest ?r)"
        unfolding BlobEnc by (rule on_reader_reads [OF reads_read_value_blob [OF bs w]]) (simp add: BlobEnc)
      with e' w assms(4) BlobEnc show ?thesis by simp
    qed
  next
    case (NestEnc w)
    then have w: "nested_ok t w" using assms(3) by simp
    then have "read_entry t r = st_bind (on_reader (read_value t)) (\<lambda>value. st_ret
        (ctx_entry (ctx_of r) t (string_enc_value k) None None value)) ?r"
      using e nested_not_plain [OF w] by (simp split: option.splits)
    moreover have "on_reader (read_value t) ?r = (Ok (nested_value w), advance (value_bytes v) rest ?r)"
      unfolding NestEnc value_bytes.simps
      by (rule on_reader_reads [OF reads_nested [OF w]]) (simp add: NestEnc)
    ultimately show ?thesis using assms(4) NestEnc by simp
  qed
qed

lemma next_inner_loop: "chunked r = None \<Longrightarrow> next_inner r = opcode_loop r"
  by (simp add: next_inner_def)

lemma reader_next_whole:
  assumes "item_ok (Key t k v)" "inner (reader r) = item_bytes (Key t k v) @ rest"
    and "preamble_byte r = None" "chunked r = None" "\<not> finished r"
    and x: "key_entries (max_key_elements r) (ctx_of r) t (string_enc_value k) v = [x]"
    and "\<not> is_cut (max_key_elements r) v"
  shows "reader_next r = (Some x, key_state (item_bytes (Key t k v)) rest r)"
proof -
  let ?vs = "string_enc_bytes k @ value_bytes v @ rest"
  have tb: "take_byte r = (Ok t, advance [t] ?vs r)"
    using assms(2,3) by (intro take_byte_reads) simp_all
  have ok: "string_enc_ok k" "value_ok t v"
    using assms(1) by simp_all
  have re: "read_entry t (advance [t] ?vs r) =
      (x, key_state (string_enc_bytes k @ value_bytes v) rest (advance [t] ?vs r))"
    by (rule read_entry_whole [OF ok(1) _ ok(2)]) (use assms x in simp_all)
  have step: "opcode_step t = st_bind (read_entry t) (\<lambda>e. st_ret (Some (Some e)))"
    by (rule opcode_step_object [OF value_ok_object [OF ok(2)]])
  have "x = Err (UnknownType t) \<or> (\<exists>e. x = Ok e)"
    using x ok(2) assms(7)
    by (cases v) (auto simp: blob_value_def Let_def is_blob_type_def split: option.splits if_splits)
  then show ?thesis
  proof
    assume "x = Err (UnknownType t)"
    with re step have "opcode_loop r = (Err (UnknownType t), key_state (item_bytes (Key t k v)) rest r)"
      by (intro opcode_loop_fail [OF tb]) simp
    with assms(4,5) \<open>x = _\<close> show ?thesis
      by (simp add: reader_next_def next_inner_loop)
  next
    assume "\<exists>e. x = Ok e"
    then obtain e where "x = Ok e" ..
    with re step have "opcode_loop r = (Ok (Some e), key_state (item_bytes (Key t k v)) rest r)"
      by (intro opcode_loop_return [OF tb]) simp
    with assms(4,5) \<open>x = _\<close> show ?thesis
      by (simp add: reader_next_def next_inner_loop)
  qed
qed

section \<open>Keys cut in pieces\<close>

definition chunk_of :: "db_ctx \<Rightarrow> u8 \<Rightarrow> bytes \<Rightarrow> nat \<Rightarrow> nat \<Rightarrow> nat \<Rightarrow> chunked_state" where
  "chunk_of c t key count n off =
     \<lparr>ch_db = c_db c, ch_key = key, ch_type_code = t, ch_expiry_ms = c_expiry c,
      ch_lru_idle_secs = c_idle c, ch_lfu_frequency = c_freq c, ch_total_count = count,
      ch_remaining = n, ch_element_offset = word_of_nat off\<rparr>"

definition piece_entry :: "db_ctx \<Rightarrow> u8 \<Rightarrow> bytes \<Rightarrow> nat \<Rightarrow> nat \<times> elem list \<Rightarrow> rdb_entry parsed" where
  "piece_entry c t key count = (\<lambda>(off, part). Ok (ctx_entry c t key (Some (word_of_nat count))
     (Some (word_of_nat off)) (plain_value t part)))"

lemma chunk_entry_of:
  "chunk_entry (chunk_of c t key count n off) v =
     ctx_entry c t key (Some (word_of_nat count)) (Some (word_of_nat off)) v"
  by (simp add: chunk_entry_def chunk_of_def make_entry_def ctx_entry_def)

lemma after_chunk_of:
  "after_chunk (chunk_of c t key count n off) k =
     (if n - k = 0 then None else Some (chunk_of c t key count (n - k) (off + k)))"
  by (simp add: after_chunk_def chunk_of_def)

lemma chunk_of_ok:
  assumes "chunked r = Some (chunk_of c t key count n off)" "is_plain_type t" "0 < n"
    "off + n = count" "count \<le> 536870912"
  shows "chunk_ok r"
  using assms by (simp add: chunk_ok_def chunk_of_def unat_of_nat)

lemma reader_next_chunk:
  assumes "chunked r = Some (chunk_of c t key count (length es) off)" "\<not> finished r"
    and "max_key_elements r = Some n" "0 < n" "es \<noteq> []"
    and "inner (reader r) = concat (map elem_bytes es) @ rest"
    and "is_plain_type t" "\<forall>e \<in> set es. elem_ok t e"
    and "off + length es = count" "count \<le> 536870912"
  shows "reader_next r = (Some (piece_entry c t key count (off, take n es)),
    (advance (concat (map elem_bytes (take n es))) (concat (map elem_bytes (drop n es)) @ rest) r)
      \<lparr>chunked := (if length es \<le> n then None
         else Some (chunk_of c t key count (length es - n) (off + n)))\<rparr>)"
proof -
  let ?c = "chunk_of c t key count (length es) off"
  have f: "ch_remaining ?c = length es" "ch_type_code ?c = t"
    by (simp_all add: chunk_of_def)
  have len: "length (take n es) = min n (length es)"
    by (simp add: min.commute)
  have "inner (reader r) = concat (map elem_bytes (take n es)) @ concat (map elem_bytes (drop n es)) @ rest"
    unfolding assms(6) append_assoc [symmetric] concat_append [symmetric] map_append [symmetric]
      append_take_drop_id ..
  moreover have "reads (read_n_elements t (length (take n es))) (concat (map elem_bytes (take n es)))
      (plain_value t (take n es))"
    by (rule reads_read_n_elements) (use assms(7,8) in \<open>auto dest: in_set_takeD\<close>)
  ultimately have "read_n_elements t (min n (length es)) (reader r) = (Ok (plain_value t (take n es)),
      reader (advance (concat (map elem_bytes (take n es))) (concat (map elem_bytes (drop n es)) @ rest) r))"
    unfolding len by (simp add: readsD advance_def)
  moreover have "chunk_ok r"
    by (rule chunk_of_ok [OF assms(1)]) (use assms(5,7,9,10) in auto)
  ultimately have "read_chunk r = (Ok (chunk_entry ?c (plain_value t (take n es))),
      (advance (concat (map elem_bytes (take n es))) (concat (map elem_bytes (drop n es)) @ rest) r)
      \<lparr>chunked := after_chunk ?c (min n (length es))\<rparr>)"
    by (simp add: read_chunk_eq [OF _ assms(1,3)] f advance_def)
  moreover have "after_chunk ?c (min n (length es)) = (if length es \<le> n then None
         else Some (chunk_of c t key count (length es - n) (off + n)))"
    by (simp add: after_chunk_of)
  ultimately show ?thesis
    using assms(1,2)
    by (simp add: reader_next_def next_inner_def chunk_entry_of piece_entry_def)
qed

lemma collect_item:
  "reader_next r = (Some x, s) \<Longrightarrow> collect s = Some (xs, r') \<Longrightarrow> collect r = Some (x # xs, r')"
  by (subst collect.simps) simp

text \<open>The rest of a key, piece by piece.\<close>

lemma collect_pieces:
  assumes "0 < n" "is_plain_type t" "count \<le> 536870912"
    and "chunked r = Some (chunk_of c t key count (length es) off)" "\<not> finished r"
    and "max_key_elements r = Some n" "es \<noteq> []"
    and "inner (reader r) = concat (map elem_bytes es) @ rest" "\<forall>e \<in> set es. elem_ok t e"
    and "off + length es = count"
    and "collect ((advance (concat (map elem_bytes es)) rest r)\<lparr>chunked := None\<rparr>) = Some (xs, r')"
  shows "collect r = Some (map (piece_entry c t key count) (pieces n off es) @ xs, r')"
  using assms(4-)
proof (induction "length es" arbitrary: es off r rule: less_induct)
  case less
  let ?bs = "concat (map elem_bytes (take n es))" and ?rest = "concat (map elem_bytes (drop n es)) @ rest"
  let ?c = "if length es \<le> n then None else Some (chunk_of c t key count (length es - n) (off + n))"
  let ?s = "(advance ?bs ?rest r)\<lparr>chunked := ?c\<rparr>"
  have nxt: "reader_next r = (Some (piece_entry c t key count (off, take n es)), ?s)"
    by (rule reader_next_chunk) (use less.prems assms(1-3) in simp_all)
  have whole: "?bs @ concat (map elem_bytes (drop n es)) = concat (map elem_bytes es)"
    unfolding concat_append [symmetric] map_append [symmetric] append_take_drop_id ..
  have pieces: "pieces n off es = (off, take n es) # pieces n (off + n) (drop n es)"
    using less.prems(4) assms(1) by (subst pieces.simps) simp
  have "collect ?s = Some (map (piece_entry c t key count) (pieces n (off + n) (drop n es)) @ xs, r')"
  proof (cases "length es \<le> n")
    case True
    with less.prems(8) show ?thesis by simp
  next
    case False
    have "(advance (concat (map elem_bytes (drop n es))) rest ?s)\<lparr>chunked := None\<rparr> =
        (advance (concat (map elem_bytes es)) rest r)\<lparr>chunked := None\<rparr>"
      unfolding whole [symmetric] by (simp add: advance_def crc_chain)
    with less.prems(8) have c: "collect ((advance (concat (map elem_bytes (drop n es))) rest ?s)
        \<lparr>chunked := None\<rparr>) = Some (xs, r')"
      by simp
    show ?thesis
      by (rule less.hyps [OF _ _ _ _ _ _ _ _ c])
        (use False assms(1) less.prems in \<open>auto dest: in_set_dropD\<close>)
  qed
  from collect_item [OF nxt this] pieces show ?case by simp
qed

text \<open>The first piece, and with it the whole key.\<close>

lemma collect_cut_key:
  assumes "item_ok (Key t k (PlainEnc es))" "inner (reader r) = item_bytes (Key t k (PlainEnc es)) @ rest"
    and "preamble_byte r = None" "chunked r = None" "\<not> finished r"
    and limit: "max_key_elements r = Some n" "0 < n" "n < length es"
    and "collect (key_state (item_bytes (Key t k (PlainEnc es))) rest r) = Some (xs, r')"
  shows "collect r = Some (key_entries (Some n) (ctx_of r) t (string_enc_value k) (PlainEnc es) @ xs, r')"
proof -
  let ?vs = "string_enc_bytes k @ value_bytes (PlainEnc es) @ rest"
  let ?b1 = "concat (map elem_bytes (take n es))" and ?b2 = "concat (map elem_bytes (drop n es))"
  let ?c = "ctx_of r" and ?key = "string_enc_value k" and ?n = "length es"
  have b: "concat (map elem_bytes es) = ?b1 @ ?b2"
    unfolding concat_append [symmetric] map_append [symmetric] append_take_drop_id ..
  have ok: "string_enc_ok k" "value_ok t (PlainEnc es)" and plain: "is_plain_type t"
    "\<forall>e \<in> set es. elem_ok t e" "?n \<le> 536870912"
    using assms(1) by simp_all
  have tb: "take_byte r = (Ok t, advance [t] ?vs r)"
    using assms(2,3) by (intro take_byte_reads) simp_all
  let ?a = "advance [t] ?vs r"
  let ?k = "key_state (t # string_enc_bytes k) (value_bytes (PlainEnc es) @ rest) r"
  let ?l = "key_state (t # string_enc_bytes k @ enc_len ?n) (?b1 @ ?b2 @ rest) r"
  let ?m = "key_state (t # string_enc_bytes k @ enc_len ?n @ ?b1) (?b2 @ rest) r"
  let ?s = "?m\<lparr>chunked := Some (chunk_of ?c t ?key ?n (length (drop n es)) n)\<rparr>"
  have count: "on_reader read_count ?k = (Ok ?n, ?l)"
    using on_reader_reads [OF reads_read_count, of ?n ?k "?b1 @ ?b2 @ rest"] plain(3) b by simp
  have "reads (read_n_elements t n) ?b1 (plain_value t (take n es))"
    using reads_read_n_elements [OF plain(1), of "take n es"] plain(2) limit(3)
    by (auto dest: in_set_takeD)
  then have elems: "on_reader (read_n_elements t n) ?l = (Ok (plain_value t (take n es)), ?m)"
    using on_reader_reads [of _ ?b1 _ ?l "?b2 @ rest"] by simp
  have "inner (reader ?a) = string_enc_bytes k @ value_bytes (PlainEnc es) @ rest"
    by simp
  from read_entry_key [OF ok(1) this, of t] count elems limit plain(1)
  have "read_entry t ?a = (Ok (ctx_entry ?c t ?key (Some (word_of_nat ?n)) (Some 0)
      (plain_value t (take n es))), ?s)"
    by (simp add: modify_def chunk_of_def Let_def)
  then have "opcode_loop r = (Ok (Some (ctx_entry ?c t ?key (Some (word_of_nat ?n)) (Some 0)
      (plain_value t (take n es)))), ?s)"
    by (intro opcode_loop_return [OF tb])
      (simp add: opcode_step_object [OF value_ok_object [OF ok(2)]])
  then have nxt: "reader_next r = (Some (piece_entry ?c t ?key ?n (0, take n es)), ?s)"
    using assms(4,5) by (simp add: reader_next_def next_inner_loop piece_entry_def)
  have "(advance ?b2 rest ?s)\<lparr>chunked := None\<rparr> = key_state (item_bytes (Key t k (PlainEnc es))) rest r"
    using assms(4) by (simp add: b advance_def key_state_def set_ctx_def crc_chain)
  with assms(9) have c: "collect ((advance ?b2 rest ?s)\<lparr>chunked := None\<rparr>) = Some (xs, r')"
    by simp
  have "collect ?s = Some (map (piece_entry ?c t ?key ?n) (pieces n n (drop n es)) @ xs, r')"
    by (rule collect_pieces [OF limit(2) plain(1,3) _ _ _ _ _ _ _ c])
      (use plain assms(5) limit in \<open>auto dest: in_set_dropD\<close>)
  from collect_item [OF nxt this]
  have "collect r = Some (map (piece_entry ?c t ?key ?n) (pieces n 0 es) @ xs, r')"
    using limit by (subst pieces.simps) auto
  then show ?thesis
    using limit by (simp add: piece_entry_def)
qed

lemma collect_key:
  assumes "item_ok (Key t k v)" "inner (reader r) = item_bytes (Key t k v) @ rest"
    and "preamble_byte r = None" "chunked r = None" "\<not> finished r" "limit_ok r"
    and "collect (key_state (item_bytes (Key t k v)) rest r) = Some (xs, r')"
  shows "collect r = Some (key_entries (max_key_elements r) (ctx_of r) t (string_enc_value k) v @ xs, r')"
proof (cases "is_cut (max_key_elements r) v")
  case True
  then obtain n es where v: "max_key_elements r = Some n" "v = PlainEnc es" "n < length es"
    by (cases "(max_key_elements r, v)" rule: is_cut.cases) auto
  moreover have "0 < n"
    using assms(6) v(1) by (auto simp: limit_ok_def)
  ultimately show ?thesis
    using collect_cut_key [of t k es r rest n xs r'] assms by simp
next
  case False
  then obtain x where x: "key_entries (max_key_elements r) (ctx_of r) t (string_enc_value k) v = [x]"
    by (cases v; cases "max_key_elements r") auto
  from collect_item [OF reader_next_whole [OF assms(1-5) x False] assms(7)] x show ?thesis
    by simp
qed

section \<open>The round trip\<close>

lemma collect_cong_loop:
  assumes "opcode_loop r = opcode_loop s" "chunked r = None" "chunked s = None" "\<not> finished r"
    "\<not> finished s"
  shows "collect r = collect s"
proof -
  have "reader_next r = reader_next s"
    using assms by (simp add: reader_next_def next_inner_loop)
  then show ?thesis
    by (subst (1 2) collect.simps) simp
qed

lemma after_op_fields [simp]:
  "inner (reader (after_op op rest r)) = rest" "header (after_op op rest r) = header r"
  "crc (reader (after_op op rest r)) = crc64 (crc (reader r)) (op_bytes op)"
  "src_end (reader (after_op op rest r)) = src_end (reader r)"
  "aux (metadata (after_op op rest r)) = op_aux op (aux (metadata r))"
  "preamble_byte (after_op op rest r) = preamble_byte r" "finished (after_op op rest r) = finished r"
  "chunked (after_op op rest r) = chunked r" "crc_checked (after_op op rest r) = crc_checked r"
  "max_key_elements (after_op op rest r) = max_key_elements r"
  "ctx_of (after_op op rest r) = op_ctx op (ctx_of r)"
  by (simp_all add: after_op_def ctx_defs advance_def)

text \<open>Between records: no byte held back, no key half read, nothing finished.\<close>

definition idle :: "rdb_reader \<Rightarrow> bool" where
  "idle r \<longleftrightarrow> preamble_byte r = None \<and> chunked r = None \<and> \<not> finished r \<and> \<not> crc_checked r \<and> limit_ok r"

lemma collect_items:
  assumes "\<forall>x \<in> set xs. item_ok x" "inner (reader r) = items_bytes xs @ rest" "idle r"
  shows "\<exists>s. (\<forall>ys r'. collect s = Some (ys, r') \<longrightarrow>
      collect r = Some (entries (max_key_elements r) (ctx_of r) xs @ ys, r')) \<and>
    inner (reader s) = rest \<and> crc (reader s) = crc64 (crc (reader r)) (items_bytes xs) \<and>
    src_end (reader s) = src_end (reader r) \<and> idle s \<and> header s = header r \<and>
    aux (metadata s) = items_aux xs (aux (metadata r))"
  using assms
proof (induction xs arbitrary: r)
  case Nil
  then show ?case by auto
next
  case (Cons x xs)
  let ?rest = "items_bytes xs @ rest"
  have r: "preamble_byte r = None" "chunked r = None" "\<not> finished r" "limit_ok r"
    using Cons.prems(3) by (simp_all add: idle_def)
  show ?case
  proof (cases x)
    case (Op op)
    let ?s = "after_op op ?rest r"
    have "opcode_loop r = opcode_loop ?s"
      using Cons.prems Op r by (intro opcode_loop_op) simp_all
    then have "collect r = collect ?s"
      using r by (intro collect_cong_loop) simp_all
    moreover have "idle ?s"
      using Cons.prems(3) by (simp add: idle_def limit_ok_def)
    ultimately show ?thesis
      using Cons.IH [of ?s] Cons.prems Op by (simp add: crc_chain)
  next
    case (Key t k v)
    let ?s = "key_state (item_bytes (Key t k v)) ?rest r"
    have "idle ?s"
      using Cons.prems(3) by (simp add: idle_def limit_ok_def)
    then obtain s where s: "\<forall>ys r'. collect s = Some (ys, r') \<longrightarrow>
        collect ?s = Some (entries (max_key_elements r) (after_key (ctx_of r)) xs @ ys, r')"
      "inner (reader s) = rest" "crc (reader s) = crc64 (crc (reader r)) (items_bytes (x # xs))"
      "src_end (reader s) = src_end (reader r)" "idle s" "header s = header r"
      "aux (metadata s) = items_aux (x # xs) (aux (metadata r))"
      using Cons.IH [of ?s] Cons.prems Key by (auto simp: crc_chain)
    have "collect r = Some (entries (max_key_elements r) (ctx_of r) (x # xs) @ ys, r')"
      if "collect s = Some (ys, r')" for ys r'
      using collect_key [of t k v r ?rest] s(1) that Cons.prems Key r by simp
    with s(2-) show ?thesis by blast
  qed
qed

section \<open>The header and the preamble\<close>

definition digit :: "nat \<Rightarrow> u8" where
  "digit d = 48 + word_of_nat d"

lemma digit_val_digit [simp]: "d < 10 \<Longrightarrow> digit_val (digit d) = Some d"
  by (simp add: digit_def)

lemma valid_utf8_digit: "d < 10 \<Longrightarrow> valid_utf8 (digit d # bs) = valid_utf8 bs"
proof -
  assume "d < 10"
  then have "unat (digit d) = 48 + d"
    by (simp add: digit_def)
  then have "digit d < 0x80"
    using \<open>d < 10\<close> by (simp add: word_less_nat_alt)
  then have "utf8_step (digit d # bs) = (True, 1)"
    by (simp add: utf8_step_def safe_get_def utf8_char_width_def Let_def)
  then show ?thesis
    by (subst valid_utf8.simps) simp
qed

lemma digit_not_plus: "d < 10 \<Longrightarrow> digit d \<noteq> 43"
proof
  assume "d < 10" "digit d = 43"
  then have "unat (digit d) = 48 + d" "unat (digit d) = 43"
    by (simp add: digit_def, simp)
  then show False by simp
qed

lemma parse_three_digits:
  assumes "a < 10" "b < 10" "c < 10"
  shows "parse_unsigned 32 [digit a, digit b, digit c] = Some (100 * a + 10 * b + c)"
  using assms digit_not_plus [OF assms(1)]
  by (simp add: parse_unsigned_def parse_digits_def)

lemma reads_read_header:
  assumes "version_ok m v"
  shows "reads read_header (header_bytes m v) \<lparr>magic = m, version = word_of_nat v\<rparr>"
proof -
  let ?name = "case m of Redis \<Rightarrow> str_bytes ''REDIS0'' | Valkey \<Rightarrow> str_bytes ''VALKEY''"
  let ?ds = "[digit (v div 100), digit (v div 10 mod 10), digit (v mod 10)]"
  have v: "v < 1000" "v div 100 < 10"
    using assms by (auto simp: version_ok_def split: rdb_magic.splits)
  have val: "100 * (v div 100) + 10 * (v div 10 mod 10) + v mod 10 = v"
  proof -
    have "v div 100 = v div 10 div 10"
      by (simp add: div_mult2_eq [symmetric])
    moreover have "v = 10 * (v div 10) + v mod 10"
      "v div 10 = 10 * (v div 10 div 10) + v div 10 mod 10"
      by simp_all
    ultimately show ?thesis by linarith
  qed
  have buf: "header_bytes m v = ?name @ ?ds" and len: "length ?name = 6"
    by (simp_all add: header_bytes_def digit_def str_bytes_def split: rdb_magic.split)
  have ver: "from_utf8 ?ds = Some ?ds" "parse_unsigned 32 ?ds = Some v"
    using v val by (simp_all add: from_utf8_def valid_utf8_digit parse_three_digits)
  have names: "str_bytes ''VALKEY'' \<noteq> str_bytes ''REDIS0''"
    by (simp add: str_bytes_def)
  have valid: "(case m of Redis \<Rightarrow> 1 \<le> (word_of_nat v :: u32) \<and> word_of_nat v \<le> RDB_VERSION_MAX_REDIS_NATIVE
      | Valkey \<Rightarrow> word_of_nat v = RDB_VERSION_VALKEY)"
    using assms
    by (auto simp: version_ok_def RDB_VERSION_MAX_REDIS_NATIVE_def RDB_VERSION_VALKEY_def
        word_le_nat_alt unat_of_nat split: rdb_magic.splits)
  show ?thesis
    unfolding read_header_def
  proof (rule reads_bind_eq [where ys = "[]", OF reads_read_exact])
    show "length (header_bytes m v) = 9"
      using len by (simp add: buf)
    show "header_bytes m v = header_bytes m v @ []"
      by simp
    have take: "take 6 (header_bytes m v) = ?name"
      using len by (simp add: buf)
    have slice: "slice (header_bytes m v) 6 9 = Ok ?ds"
      using len by (simp add: buf)
    show "reads (st_bind
       (if take 6 (header_bytes m v) = str_bytes ''REDIS0'' then st_ret Redis
        else if take 6 (header_bytes m v) = str_bytes ''VALKEY'' then st_ret Valkey
        else st_err InvalidMagic) (\<lambda>magic.
     st_bind (st_lift (slice (header_bytes m v) 6 9)) (\<lambda>v.
     st_bind (st_lift (ok_or InvalidMagic (from_utf8 v))) (\<lambda>version_str.
     st_bind (st_lift (ok_or InvalidMagic (parse_unsigned 32 version_str))) (\<lambda>n.
     let version = word_of_nat n;
         valid = (case magic of
             Redis \<Rightarrow> 1 \<le> version \<and> version \<le> RDB_VERSION_MAX_REDIS_NATIVE
           | Valkey \<Rightarrow> version = RDB_VERSION_VALKEY) in
     if \<not> valid then st_err (UnsupportedVersion version)
     else st_ret \<lparr>magic = magic, version = version\<rparr>))))) []
      \<lparr>magic = m, version = word_of_nat v\<rparr>"
      unfolding take slice
      using valid names by (cases m) (simp_all add: reads_def st_bind_def ver Let_def)
  qed
qed

text \<open>
  Reading the preamble ahead changes nothing: the loop sees the same AUX fields and the same
  byte after them.
\<close>

lemma read_aux_field_limit:
  "read_aux_field r = (res, r') \<Longrightarrow>
   read_aux_field (r\<lparr>max_key_elements := limit\<rparr>) = (res, r'\<lparr>max_key_elements := limit\<rparr>)"
  by (auto simp: read_aux_field_def on_reader_def modify_def Let_def st_bind_def
      split: prod.splits res.splits)

lemma read_preamble_transparent:
  assumes "preamble_byte r = None" "read_preamble r = (Ok u, r')"
  shows "opcode_loop (r'\<lparr>max_key_elements := limit\<rparr>) = opcode_loop (r\<lparr>max_key_elements := limit\<rparr>)"
  using assms
proof (induction r rule: read_preamble.induct)
  case (1 r)
  let ?l = "\<lambda>r. r\<lparr>max_key_elements := limit\<rparr>"
  obtain b s where u8: "on_reader read_u8 r = (Ok b, s)"
    using 1(3) by (subst (asm) read_preamble.simps) (auto simp: st_bind_Ok_iff)
  then have s: "s = r\<lparr>reader := reader s\<rparr>" "read_u8 (reader r) = (Ok b, reader s)"
    by (auto simp: on_reader_simps)
  then have tb: "take_byte (?l r) = (Ok b, ?l s)"
    using 1(2) by (simp add: take_byte_def on_reader_def) (metis rdb_reader.surjective rdb_reader.update_convs(1,10))
  have cong: "opcode_loop p = opcode_loop q" if "take_byte p = take_byte q" for p q
    by (subst (1 2) opcode_loop.simps) (simp add: st_bind_def that)
  show ?case
  proof (cases "b = RDB_OPCODE_AUX")
    case False
    with 1(3) u8 have "r' = s\<lparr>preamble_byte := Some b\<rparr>"
      by (subst (asm) read_preamble.simps) simp
    moreover have "(?l s)\<lparr>preamble_byte := None\<rparr> = ?l s"
      using 1(2) by (subst (1 2) s(1)) simp
    ultimately show ?thesis
      by (intro cong) (unfold tb, simp add: take_byte_def)
  next
    case True
    with 1(3) u8 obtain w t where t: "read_aux_field s = (Ok w, t)" "read_preamble t = (Ok u, r')"
      by (subst (asm) read_preamble.simps) (auto simp: st_bind_Ok_iff)
    have "preamble_byte t = None"
      using read_aux_field_left [OF t(1)] 1(2) by (subst (asm) s(1)) simp
    moreover have "opcode_step b (?l s) = (Ok None, ?l t)"
      using read_aux_field_limit [OF t(1)] True by (simp add: opcode_step_def continue_def)
    ultimately show ?thesis
      using 1(1) [OF u8 True t(1) _ t(2)] opcode_loop_go_on [OF tb] by simp
  qed
qed

lemma read_aux_field_op:
  assumes "op_ok (OAux k v)" "inner (reader r) = string_enc_bytes k @ string_enc_bytes v @ rest"
  shows "read_aux_field r =
    (Ok (), set_aux (op_aux (OAux k v) (aux (metadata r)))
       (advance (string_enc_bytes k @ string_enc_bytes v) rest r))"
proof -
  have "on_reader read_string r = (Ok (string_enc_value k),
      advance (string_enc_bytes k) (string_enc_bytes v @ rest) r)"
    by (rule on_reader_reads [OF reads_read_string]) (use assms in simp_all)
  moreover have "on_reader read_string (advance (string_enc_bytes k) (string_enc_bytes v @ rest) r) =
      (Ok (string_enc_value v), advance (string_enc_bytes v) rest
         (advance (string_enc_bytes k) (string_enc_bytes v @ rest) r))"
    by (rule on_reader_reads [OF reads_read_string]) (use assms in simp_all)
  ultimately show ?thesis
    using assms(1)
    by (auto simp: read_aux_field_def ctx_defs from_utf8_def modify_def from_utf8_lossy_valid
        advance_def Let_def)
qed

fun is_aux_item :: "item \<Rightarrow> bool" where
  "is_aux_item (Op (OAux k v)) \<longleftrightarrow> True"
| "is_aux_item _ \<longleftrightarrow> False"

lemma other_item_byte:
  assumes "item_ok x" "\<not> is_aux_item x"
  obtains b bs where "item_bytes x = b # bs" "b \<noteq> RDB_OPCODE_AUX"
proof (cases x)
  case (Op op)
  with assms show thesis
    by (cases op) (auto intro: that)
next
  case (Key t k v)
  then have "t \<noteq> RDB_OPCODE_AUX"
    using assms(1) value_ok_object [of t v] by (auto simp: is_object_type_cases)
  with Key show thesis
    by (auto intro: that)
qed

lemma read_preamble_stops:
  "inner (reader r) = b # bs \<Longrightarrow> b \<noteq> RDB_OPCODE_AUX \<Longrightarrow>
   read_preamble r = (Ok (), (advance [b] bs r)\<lparr>preamble_byte := Some b\<rparr>)"
  using on_reader_reads [OF reads_read_u8, of r b bs] by (subst read_preamble.simps) simp

lemma read_preamble_items:
  assumes "\<forall>x \<in> set xs. item_ok x" "inner (reader r) = items_bytes xs @ RDB_OPCODE_EOF # rest"
  shows "\<exists>r'. read_preamble r = (Ok (), r') \<and> chunked r' = chunked r \<and> finished r' = finished r \<and>
    header r' = header r \<and>
    aux (metadata r') = items_aux (takeWhile is_aux_item xs) (aux (metadata r))"
  using assms
proof (induction xs arbitrary: r)
  case Nil
  then show ?case
    using read_preamble_stops [of r RDB_OPCODE_EOF rest] by simp
next
  case (Cons x xs)
  show ?case
  proof (cases "is_aux_item x")
    case False
    then obtain b bs where b: "item_bytes x = b # bs" "b \<noteq> RDB_OPCODE_AUX"
      using Cons.prems(1) other_item_byte by auto
    with Cons.prems(2) False show ?thesis
      using read_preamble_stops [of r b "bs @ items_bytes xs @ RDB_OPCODE_EOF # rest"] by simp
  next
    case True
    then obtain k v where x: "x = Op (OAux k v)"
      by (cases x rule: is_aux_item.cases) auto
    let ?rest = "items_bytes xs @ RDB_OPCODE_EOF # rest"
    let ?s = "advance [RDB_OPCODE_AUX] (string_enc_bytes k @ string_enc_bytes v @ ?rest) r"
    let ?t = "set_aux (op_aux (OAux k v) (aux (metadata ?s)))
         (advance (string_enc_bytes k @ string_enc_bytes v) ?rest ?s)"
    have byte: "on_reader read_u8 r = (Ok RDB_OPCODE_AUX, ?s)"
      using Cons.prems(2) x by (intro on_reader_reads [OF reads_read_u8]) simp
    have "read_aux_field ?s = (Ok (), ?t)"
      by (rule read_aux_field_op) (use Cons.prems(1) x in simp_all)
    with byte have "read_preamble r = read_preamble ?t"
      by (subst read_preamble.simps) simp
    moreover have "inner (reader ?t) = ?rest" "chunked ?t = chunked r" "finished ?t = finished r"
      "header ?t = header r" "aux (metadata ?t) = op_aux (OAux k v) (aux (metadata r))"
      by (simp_all add: set_aux_def)
    ultimately show ?thesis
      using Cons.IH [of ?t] Cons.prems(1) x by (simp del: op_aux.simps)
  qed
qed

section \<open>Whole files\<close>

definition ctx0 :: db_ctx where
  "ctx0 = \<lparr>c_db = 0, c_expiry = None, c_idle = None, c_freq = None\<rparr>"

text \<open>The caller's choice of chunking.\<close>

definition configure :: "usize option \<Rightarrow> rdb_reader \<Rightarrow> rdb_reader parsed" where
  "configure limit r = (case limit of None \<Rightarrow> Ok (without_chunking r)
     | Some n \<Rightarrow> with_max_key_elements n r)"

lemma configure_eq: "limit \<noteq> Some 0 \<Longrightarrow> configure limit r = Ok (r\<lparr>max_key_elements := limit\<rparr>)"
  by (auto simp: configure_def without_chunking_def with_max_key_elements_def split: option.split)

lemma reader_new_file:
  assumes "version_ok m v" "\<forall>x \<in> set xs. item_ok x" "limit \<noteq> Some 0"
  shows "\<exists>r q s. reader_new (file_body m v xs @ tail) ending = Ok r \<and>
    header r = \<lparr>magic = m, version = word_of_nat v\<rparr> \<and>
    aux (metadata r) = items_aux (takeWhile is_aux_item xs) Map.empty \<and>
    configure limit r = Ok q \<and>
    (\<forall>ys r'. collect s = Some (ys, r') \<longrightarrow> collect q = Some (entries limit ctx0 xs @ ys, r')) \<and>
    inner (reader s) = RDB_OPCODE_EOF # tail \<and>
    crc64 (crc (reader s)) [RDB_OPCODE_EOF] = crc64 0 (file_body m v xs) \<and>
    src_end (reader s) = ending \<and> idle s \<and> version (header s) = word_of_nat v \<and>
    aux (metadata s) = items_aux xs Map.empty"
proof -
  let ?h = "header_bytes m v" and ?hdr = "\<lparr>magic = m, version = word_of_nat v\<rparr>"
  let ?rest = "items_bytes xs @ RDB_OPCODE_EOF # tail"
  let ?s = "\<lparr>inner = ?rest, src_end = ending, crc = crc64 0 ?h\<rparr>"
  define r1 where "r1 = \<lparr>reader = ?s, header = ?hdr, metadata = \<lparr>aux = Map.empty\<rparr>, current_db = 0,
    pending_expiry_ms = None, pending_lru_idle = None, pending_lfu_freq = None, preamble_byte = None,
    finished = False, max_key_elements = Some DEFAULT_MAX_KEY_ELEMENTS, chunked = None,
    crc_checked = False\<rparr>"
  have hd: "read_header (initial_reader (file_body m v xs @ tail) ending) = (Ok ?hdr, ?s)"
    using readsD [OF reads_read_header [OF assms(1)], of "initial_reader _ ending" ?rest]
    by (simp add: initial_reader_def file_body_def)
  have "inner (reader r1) = ?rest"
    by (simp add: r1_def)
  from read_preamble_items [OF assms(2) this] obtain r where
    r: "read_preamble r1 = (Ok (), r)" "chunked r = None" "\<not> finished r" "header r = ?hdr"
      "aux (metadata r) = items_aux (takeWhile is_aux_item xs) Map.empty"
    by (auto simp: r1_def)
  have new: "reader_new (file_body m v xs @ tail) ending = Ok r"
    using r(1) by (simp add: reader_new_def hd r1_def)
  let ?q = "r\<lparr>max_key_elements := limit\<rparr>" and ?q1 = "r1\<lparr>max_key_elements := limit\<rparr>"
  have q: "collect ?q = collect ?q1"
    by (intro collect_cong_loop read_preamble_transparent [OF _ r(1)])
      (use r in \<open>simp_all add: r1_def\<close>)
  have "\<exists>s. (\<forall>ys r'. collect s = Some (ys, r') \<longrightarrow>
      collect ?q1 = Some (entries (max_key_elements ?q1) (ctx_of ?q1) xs @ ys, r')) \<and>
    inner (reader s) = RDB_OPCODE_EOF # tail \<and>
    crc (reader s) = crc64 (crc (reader ?q1)) (items_bytes xs) \<and>
    src_end (reader s) = src_end (reader ?q1) \<and> idle s \<and> header s = header ?q1 \<and>
    aux (metadata s) = items_aux xs (aux (metadata ?q1))"
    by (rule collect_items [OF assms(2)]) (use assms in \<open>simp_all add: r1_def idle_def limit_ok_def\<close>)
  then obtain s where s: "\<forall>ys r'. collect s = Some (ys, r') \<longrightarrow>
      collect ?q = Some (entries limit ctx0 xs @ ys, r')"
    "inner (reader s) = RDB_OPCODE_EOF # tail" "idle s" "version (header s) = word_of_nat v"
    "crc (reader s) = crc64 0 (?h @ items_bytes xs)" "src_end (reader s) = ending"
    "aux (metadata s) = items_aux xs Map.empty"
    unfolding q by (auto simp: r1_def ctx_of_def ctx0_def crc_chain)
  moreover have "crc64 (crc (reader s)) [RDB_OPCODE_EOF] = crc64 0 (file_body m v xs)"
    using s(5) by (simp add: file_body_def crc_chain)
  ultimately show ?thesis
    using new r(4,5) configure_eq [OF assms(3)] by blast
qed

lemma collect_end:
  assumes "inner (reader r) = RDB_OPCODE_EOF # trailer @ rest" "length trailer = 8"
    and "wants_check r trailer \<longrightarrow> from_le trailer = crc64 (crc (reader r)) [RDB_OPCODE_EOF]" "idle r"
  shows "\<exists>r'. collect r = Some ([], r') \<and> inner (reader r') = rest \<and> metadata r' = metadata r \<and>
    crc_checked r' = wants_check r trailer"
proof -
  let ?s = "advance [RDB_OPCODE_EOF] (trailer @ rest) r"
  let ?t = "?s\<lparr>reader := (reader ?s)\<lparr>inner := rest\<rparr>, finished := True,
    crc_checked := crc_checked ?s \<or> wants_check ?s trailer\<rparr>"
  have wants: "wants_check ?s trailer = wants_check r trailer"
    by (simp add: wants_check_def)
  have idle: "preamble_byte r = None" "chunked r = None" "\<not> finished r" "\<not> crc_checked r"
    using assms(4) by (simp_all add: idle_def)
  have "read_eof ?s = (Ok None, ?t)"
    using read_eof_full [of ?s trailer rest] assms(2,3) wants by auto
  then have "opcode_step RDB_OPCODE_EOF ?s = (Ok (Some None), ?t)"
    by (simp only: opcode_step_eof st_bind_Ok) simp
  then have "opcode_loop r = (Ok None, ?t)"
    using assms idle by (intro opcode_loop_return [OF take_byte_reads]) simp_all
  then have "reader_next r = (None, ?t)"
    using idle by (simp add: reader_next_def next_inner_loop)
  then have "collect r = Some ([], ?t)"
    by (subst collect.simps) simp
  then show ?thesis
    using idle wants by (intro exI [of _ ?t]) simp
qed

text \<open>Ends that are errors: the item is the error, and iteration stops.\<close>

lemma collect_error:
  assumes "idle r" "inner (reader r) = RDB_OPCODE_EOF # tail"
    and "read_eof (advance [RDB_OPCODE_EOF] tail r) = (Err e, s)" "\<forall>t. e \<noteq> UnknownType t"
  shows "\<exists>r'. collect r = Some ([Err e], r') \<and> finished r' \<and> crc_checked r' = crc_checked s"
proof -
  have idle: "preamble_byte r = None" "chunked r = None" "\<not> finished r"
    using assms(1) by (simp_all add: idle_def)
  have "opcode_step RDB_OPCODE_EOF (advance [RDB_OPCODE_EOF] tail r) = (Err e, s)"
    using assms(3) by (simp only: opcode_step_eof st_bind_Err)
  then have "opcode_loop r = (Err e, s)"
    using assms(2) idle by (intro opcode_loop_fail [OF take_byte_reads]) simp_all
  then have "reader_next r = (Some (Err e), s\<lparr>finished := True\<rparr>)"
    using idle assms(4) by (auto simp: reader_next_def next_inner_loop split: rdb_error.split)
  moreover have "collect (s\<lparr>finished := True\<rparr>) = Some ([], s\<lparr>finished := True\<rparr>)"
    by (subst collect.simps) (simp add: reader_next_def)
  ultimately have "collect r = Some ([Err e], s\<lparr>finished := True\<rparr>)"
    by (rule collect_item)
  then show ?thesis by simp
qed

text \<open>A whole file, with its trailer.\<close>

lemma file_collects:
  assumes "version_ok m v" "\<forall>x \<in> set xs. item_ok x" "limit \<noteq> Some 0"
  shows "\<exists>r q r'. reader_new (file_bytes m v xs) ending = Ok r \<and> configure limit r = Ok q \<and>
    collect q = Some (entries limit ctx0 xs, r')"
proof -
  let ?t = "to_le 8 (unat (crc64 0 (file_body m v xs)))"
  have t: "length ?t = 8" "from_le ?t = crc64 0 (file_body m v xs)"
    by (simp_all add: from_le_to_le)
  from reader_new_file [OF assms, of ?t ending] obtain r q s where
    r: "reader_new (file_bytes m v xs) ending = Ok r" "configure limit r = Ok q"
    and s: "\<And>ys r'. collect s = Some (ys, r') \<Longrightarrow> collect q = Some (entries limit ctx0 xs @ ys, r')"
      "inner (reader s) = RDB_OPCODE_EOF # ?t @ []"
      "crc64 (crc (reader s)) [RDB_OPCODE_EOF] = crc64 0 (file_body m v xs)" "idle s"
    by (auto simp: file_bytes_def)
  obtain r' where "collect s = Some ([], r')"
    using collect_end [OF s(2) t(1) _ s(4)] s(3) t(2) by auto
  with r s(1) [of "[]" r'] show ?thesis by simp
qed

text \<open>The chunk limit of a new reader.\<close>

lemma default_file_collects:
  assumes "version_ok m v" "\<forall>x \<in> set xs. item_ok x"
  shows "\<exists>r r'. reader_new (file_bytes m v xs) ending = Ok r \<and>
    collect r = Some (entries (Some DEFAULT_MAX_KEY_ELEMENTS) ctx0 xs, r')"
proof -
  obtain r q r' where r: "reader_new (file_bytes m v xs) ending = Ok r"
    "configure (Some DEFAULT_MAX_KEY_ELEMENTS) r = Ok q"
    "collect q = Some (entries (Some DEFAULT_MAX_KEY_ELEMENTS) ctx0 xs, r')"
    using file_collects [OF assms, of "Some DEFAULT_MAX_KEY_ELEMENTS" ending]
    by (auto simp: DEFAULT_MAX_KEY_ELEMENTS_def)
  have "max_key_elements r = Some DEFAULT_MAX_KEY_ELEMENTS"
    using r(1) by (rule reader_new_inv(3))
  then have "q = r"
    using r(2) by (cases r) (simp add: configure_def with_max_key_elements_def DEFAULT_MAX_KEY_ELEMENTS_def)
  then show ?thesis using r by blast
qed

end
