(* ===== verification/Reader_Props.thy ===== *)
theory Reader_Props
  imports Reader_File
begin

text \<open>
  The properties of the reader of \<open>crates/rdb-parser/src/reader.rs\<close>: it never panics, its
  iteration ends, a verified checksum is genuine, files are read back as written, with and
  without chunking, and metadata belongs to one key only.
\<close>

section \<open>A small file\<close>

definition small_items :: "item list" where
  "small_items =
     [Op (OSelectDb 3), Op (OExpire 7), Key RDB_TYPE_STRING (SRaw [107]) (BlobEnc (SInt8 (-5))),
      Key RDB_TYPE_HASH_ZIPMAP (SRaw [122]) (BlobEnc (SRaw [])),
      Key RDB_TYPE_LIST (SRaw [108]) (PlainEnc [EStr (SRaw [97]), EStr (SRaw [98]), EStr (SRaw [99])])]"

lemma small_items_ok: "\<forall>x \<in> set small_items. item_ok x"
  by (simp add: small_items_def is_blob_type_def blob_value_def is_plain_type_def)

lemma small_file:
  obtains r where "reader_new (file_bytes Redis 11 small_items) ending = Ok r"
    "header r = \<lparr>magic = Redis, version = 11\<rparr>"
proof -
  have "version_ok Redis 11"
    by (simp add: version_ok_def)
  from reader_new_file [where limit = None and ending = ending
      and tail = "to_le 8 (unat (crc64 0 (file_body Redis 11 small_items)))", OF this small_items_ok]
  show thesis
    by (auto simp: file_bytes_def intro: that)
qed

lemma empty_file_crc: "crc64 0 (file_body Redis 11 []) = 7104209010442248896"
  by (simp add: file_body_def header_bytes_def str_bytes_def of_char_def rdb_eval)

lemma empty_file:
  obtains q r' where "reachable (file_bytes Redis 11 []) UnexpectedEof q" "\<not> finished q"
    "reader_next q = (None, r')" "crc_checked r'"
proof -
  let ?t = "to_le 8 (unat (crc64 0 (file_body Redis 11 [])))"
  have t: "length ?t = 8" "from_le ?t = crc64 0 (file_body Redis 11 [])"
    by (simp_all add: from_le_to_le)
  have "version_ok Redis 11"
    by (simp add: version_ok_def)
  then obtain r q s where
    r: "reader_new (file_bytes Redis 11 []) UnexpectedEof = Ok r" "configure None r = Ok q"
    and s: "\<And>ys r'. collect s = Some (ys, r') \<Longrightarrow> collect q = Some (ys, r')"
      "inner (reader s) = RDB_OPCODE_EOF # ?t @ []"
      "crc64 (crc (reader s)) [RDB_OPCODE_EOF] = crc64 0 (file_body Redis 11 [])" "idle s"
      "version (header s) = 11"
    using reader_new_file [where m = Redis and v = 11 and xs = "[]" and limit = None and tail = ?t
        and ending = UnexpectedEof]
    by (auto simp: file_bytes_def)
  obtain r' where r': "collect s = Some ([], r')" "crc_checked r' = wants_check s ?t"
    using collect_end [OF s(2) t(1) _ s(4)] s(3) t(2) by auto
  have "wants_check s ?t"
    using s(5) t(2) by (simp add: wants_check_def empty_file_crc)
  moreover have "reader_next q = (None, r')"
    using s(1) [OF r'(1)]
    by (subst (asm) collect.simps) (auto split: prod.splits option.splits bind_splits)
  moreover have q: "q = without_chunking r"
    using r(2) by (simp add: configure_def)
  moreover have "\<not> finished q"
    using reader_new_inv(2) [OF r(1)] q by (simp add: without_chunking_def)
  ultimately show thesis
    using that [of q r'] r'(2) reachable.unchunked [OF reachable.start [OF r(1)]] by simp
qed

section \<open>Properties\<close>

text \<open>
  Claim C5. On any input whatever, building a reader and then configuring and iterating it
  in any order never panics: no index or slice is out of range, no arithmetic overflows.
\<close>

theorem reader_never_panics:
  "reader_new input ending \<noteq> Panic \<and>
   (\<forall>r. reachable input ending r \<longrightarrow> fst (reader_next r) \<noteq> Some Panic)"
proof -
  have "fst (reader_next r) \<noteq> Some Panic" if "reachable input ending r" for r
    using reachable_next [OF that, of "fst (reader_next r)" "snd (reader_next r)"]
    by (cases "finished r") (simp_all add: reader_next_def next_ok_def)
  then show ?thesis
    using reader_new_inv(1) by blast
qed

theorem reader_never_panics_witness:
  "\<exists>r. reachable (file_bytes Redis 11 small_items) UnexpectedEof r \<and>
    fst (reader_next r) \<noteq> Some Panic"
proof -
  obtain r where "reader_new (file_bytes Redis 11 small_items) UnexpectedEof = Ok r"
    by (rule small_file)
  then have "reachable (file_bytes Redis 11 small_items) UnexpectedEof r"
    by (rule reachable.start)
  with reader_never_panics [of "file_bytes Redis 11 small_items" UnexpectedEof] show ?thesis
    by blast
qed

text \<open>
  Claim C11. Iterating a new reader ends: at most one item per byte of the input, and one
  more; afterwards the reader is finished and yields nothing more.
\<close>

theorem iteration_ends:
  assumes "reader_new input ending = Ok r"
  shows "\<exists>items r'. collect r = Some (items, r') \<and> length items \<le> Suc (length input) \<and>
    finished r' \<and> reader_next r' = (None, r')"
proof -
  obtain items r' where "collect r = Some (items, r')" "length items \<le> todo r" "finished r'"
    using collect_terminates [OF start [OF assms]] by blast
  moreover have "todo r \<le> Suc (length input)"
    using reader_new_inv(2) [OF assms] by (simp add: todo_def)
  ultimately show ?thesis
    by (auto simp: reader_next_def)
qed

theorem iteration_ends_witness:
  "\<exists>r items r'. reader_new (file_bytes Redis 11 small_items) UnexpectedEof = Ok r \<and>
    collect r = Some (items, r') \<and>
    length items \<le> Suc (length (file_bytes Redis 11 small_items)) \<and> finished r' \<and>
    reader_next r' = (None, r')"
proof -
  obtain r where "reader_new (file_bytes Redis 11 small_items) UnexpectedEof = Ok r"
    by (rule small_file)
  with iteration_ends [OF this] show ?thesis by blast
qed

text \<open>
  Claim C10. A checksum reported as verified is genuine: when \<open>crc_checked\<close> is set, the input
  is a body, the 8-byte little-endian CRC-64 of exactly that body, and whatever follows it.
\<close>

theorem verified_checksum_is_genuine:
  assumes "reachable input ending r" "crc_checked r"
  shows "\<exists>body trailer rest. input = body @ trailer @ rest \<and> length trailer = 8 \<and>
    from_le trailer = crc64 0 body"
  using reachable_inv [OF assms(1)] assms(2) by (simp add: reader_inv_def)

theorem verified_checksum_is_genuine_witness:
  "\<exists>r. reachable (file_bytes Redis 11 []) UnexpectedEof r \<and> crc_checked r \<and>
    (\<exists>body trailer rest. file_bytes Redis 11 [] = body @ trailer @ rest \<and> length trailer = 8 \<and>
       from_le trailer = crc64 0 body)"
proof -
  obtain q r' where q: "reachable (file_bytes Redis 11 []) UnexpectedEof q"
    "reader_next q = (None, r')" "crc_checked r'"
    by (rule empty_file)
  have "reachable (file_bytes Redis 11 []) UnexpectedEof r'"
    by (rule reachable.step [OF q(1,2)])
  with verified_checksum_is_genuine [OF this q(3)] q(3) show ?thesis by blast
qed

text \<open>
  Claim C9. Iteration ends cleanly only past the end of a file: the EOF opcode, eight trailer
  bytes, and, from version 5 on and unless the trailer is zero, a trailer equal to the CRC of
  everything up to and including the opcode, in which case \<open>crc_checked\<close> says so.
\<close>

theorem clean_end_is_checked:
  assumes "reachable input ending r" "\<not> finished r" "reader_next r = (None, r')"
  shows "finished r' \<and> (\<exists>body trailer.
    input = body @ [RDB_OPCODE_EOF] @ trailer @ inner (reader r') \<and> length trailer = 8 \<and>
    (crc_checked r' \<longleftrightarrow> version (header r) \<ge> 5 \<and> (from_le trailer :: u64) \<noteq> 0) \<and>
    (crc_checked r' \<longrightarrow> from_le trailer = crc64 0 (body @ [RDB_OPCODE_EOF])))"
proof -
  have "\<not> crc_checked r"
    using reachable_inv [OF assms(1)] assms(2) by (simp add: reader_inv_def)
  then show ?thesis
    using reachable_next [OF assms] by (auto simp: next_ok_def ended_at_def wants_check_def)
qed

theorem clean_end_is_checked_witness:
  "\<exists>r r'. reachable (file_bytes Redis 11 []) UnexpectedEof r \<and> \<not> finished r \<and>
    reader_next r = (None, r') \<and> finished r' \<and> (\<exists>body trailer.
    file_bytes Redis 11 [] = body @ [RDB_OPCODE_EOF] @ trailer @ inner (reader r') \<and> length trailer = 8 \<and>
    (crc_checked r' \<longleftrightarrow> version (header r) \<ge> 5 \<and> (from_le trailer :: u64) \<noteq> 0) \<and>
    (crc_checked r' \<longrightarrow> from_le trailer = crc64 0 (body @ [RDB_OPCODE_EOF])))"
proof -
  obtain q r' where q: "reachable (file_bytes Redis 11 []) UnexpectedEof q" "\<not> finished q"
    "reader_next q = (None, r')"
    by (rule empty_file)
  with clean_end_is_checked [OF q] show ?thesis by blast
qed

text \<open>
  Claim C2. Files are read back as written.  For any sequence of opcode records and keys in any of the
  encodings modelled, and any chunk limit: the reader accepts the file, has the AUX fields
  that precede the first other record when it is built, yields exactly the entries the file
  means (each with its database, expiry, idle time and frequency; an unsupported zipmap as an
  error that does not end the iteration), stops at the end of the file, and reports the
  checksum as verified exactly when the version asks for one and it is not zero.
\<close>

theorem file_round_trip:
  assumes "version_ok m v" "\<forall>x \<in> set xs. item_ok x" "limit \<noteq> Some 0"
  shows "\<exists>r q r'. reader_new (file_bytes m v xs @ rest) ending = Ok r \<and>
    header r = \<lparr>magic = m, version = word_of_nat v\<rparr> \<and>
    aux (metadata r) = items_aux (takeWhile is_aux_item xs) Map.empty \<and>
    configure limit r = Ok q \<and> collect q = Some (entries limit ctx0 xs, r') \<and>
    inner (reader r') = rest \<and> aux (metadata r') = items_aux xs Map.empty \<and>
    (crc_checked r' \<longleftrightarrow> 5 \<le> v \<and> crc64 0 (file_body m v xs) \<noteq> 0)"
proof -
  let ?t = "to_le 8 (unat (crc64 0 (file_body m v xs)))"
  have t: "length ?t = 8" "from_le ?t = crc64 0 (file_body m v xs)"
    by (simp_all add: from_le_to_le)
  have "5 \<le> (word_of_nat v :: u32) \<longleftrightarrow> 5 \<le> v"
    using assms(1)
    by (auto simp: version_ok_def word_le_nat_alt unat_of_nat split: rdb_magic.splits)
  then have wants: "wants_check s ?t \<longleftrightarrow> 5 \<le> v \<and> crc64 0 (file_body m v xs) \<noteq> 0"
    if "version (header s) = word_of_nat v" for s
    using that t by (simp add: wants_check_def)
  from reader_new_file [OF assms, of "?t @ rest" ending] obtain r q s where
    r: "reader_new (file_bytes m v xs @ rest) ending = Ok r" "header r = \<lparr>magic = m, version = word_of_nat v\<rparr>"
      "aux (metadata r) = items_aux (takeWhile is_aux_item xs) Map.empty" "configure limit r = Ok q"
    and s: "\<And>ys r'. collect s = Some (ys, r') \<Longrightarrow> collect q = Some (entries limit ctx0 xs @ ys, r')"
      "inner (reader s) = RDB_OPCODE_EOF # ?t @ rest"
      "crc64 (crc (reader s)) [RDB_OPCODE_EOF] = crc64 0 (file_body m v xs)" "idle s"
      "version (header s) = word_of_nat v" "aux (metadata s) = items_aux xs Map.empty"
    by (auto simp: file_bytes_def)
  obtain r' where "collect s = Some ([], r')" "inner (reader r') = rest" "metadata r' = metadata s"
    "crc_checked r' = wants_check s ?t"
    using collect_end [OF s(2) t(1) _ s(4)] s(3) t(2) by auto
  with r s(1) [of "[]" r'] s(6) wants [OF s(5)] show ?thesis
    by auto
qed

theorem file_round_trip_witness:
  "\<exists>r q r'. reader_new (file_bytes Redis 11 small_items @ [1]) UnexpectedEof = Ok r \<and>
    header r = \<lparr>magic = Redis, version = word_of_nat 11\<rparr> \<and>
    aux (metadata r) = items_aux (takeWhile is_aux_item small_items) Map.empty \<and>
    configure (Some 2) r = Ok q \<and> collect q = Some (entries (Some 2) ctx0 small_items, r') \<and>
    inner (reader r') = [1] \<and> aux (metadata r') = items_aux small_items Map.empty \<and>
    (crc_checked r' \<longleftrightarrow> 5 \<le> (11 :: nat) \<and> crc64 0 (file_body Redis 11 small_items) \<noteq> 0)"
  by (rule file_round_trip [OF _ small_items_ok]) (simp_all add: version_ok_def)

text \<open>
  Claim C31. A file of version 1 to 4, which by the format has no trailer, is not accepted: the reader
  demands eight more bytes whatever the version, so after the last key it reports an I/O
  error instead of the end.
\<close>

theorem old_version_without_trailer_fails:
  assumes "1 \<le> v" "v < 5" "\<forall>x \<in> set xs. item_ok x" "limit \<noteq> Some 0"
  shows "\<exists>r q r'. reader_new (file_body Redis v xs) ending = Ok r \<and> configure limit r = Ok q \<and>
    collect q = Some (entries limit ctx0 xs @ [Err (Io ending)], r')"
proof -
  have "version_ok Redis v"
    using assms(1,2) by (simp add: version_ok_def)
  from reader_new_file [OF this assms(3,4), of "[]" ending] obtain r q s where
    r: "reader_new (file_body Redis v xs) ending = Ok r" "configure limit r = Ok q"
    and s: "\<And>ys r'. collect s = Some (ys, r') \<Longrightarrow> collect q = Some (entries limit ctx0 xs @ ys, r')"
      "inner (reader s) = [RDB_OPCODE_EOF]" "src_end (reader s) = ending" "idle s"
    by auto
  have "\<exists>t. read_eof (advance [RDB_OPCODE_EOF] [] s) = (Err (Io ending), t)"
    using read_eof_short [of "advance [RDB_OPCODE_EOF] [] s"] s(3) by simp
  then obtain t where "read_eof (advance [RDB_OPCODE_EOF] [] s) = (Err (Io ending), t)" ..
  from collect_error [OF s(4,2) this] obtain r' where "collect s = Some ([Err (Io ending)], r')"
    by auto
  with r s(1) show ?thesis by blast
qed

theorem old_version_without_trailer_fails_witness:
  "\<exists>r q r'. reader_new (file_body Redis 3 small_items) UnexpectedEof = Ok r \<and>
    configure (Some 2) r = Ok q \<and>
    collect q = Some (entries (Some 2) ctx0 small_items @ [Err (Io UnexpectedEof)], r')"
  by (rule old_version_without_trailer_fails [OF _ _ small_items_ok]) simp_all

text \<open>
  Claim C30. Corruption is reported: from version 5 on, a file whose trailer is not zero and is not the
  CRC of its body yields, after the entries, the checksum error, and never ends cleanly.
\<close>

theorem wrong_checksum_is_reported:
  assumes "version_ok m v" "5 \<le> v" "\<forall>x \<in> set xs. item_ok x" "limit \<noteq> Some 0"
    and "length trailer = 8" "from_le trailer \<noteq> (0 :: u64)" "from_le trailer \<noteq> crc64 0 (file_body m v xs)"
  shows "\<exists>r q r'. reader_new (file_body m v xs @ trailer) ending = Ok r \<and> configure limit r = Ok q \<and>
    collect q = Some (entries limit ctx0 xs @
      [Err (CorruptData ''CRC64 mismatch: computed 0x{:016x}, stored 0x{:016x}'')], r') \<and>
    \<not> crc_checked r'"
proof -
  have five: "5 \<le> (word_of_nat v :: u32)"
    using assms(1,2)
    by (auto simp: version_ok_def word_le_nat_alt unat_of_nat split: rdb_magic.splits)
  from reader_new_file [OF assms(1,3,4), of trailer ending] obtain r q s where
    r: "reader_new (file_body m v xs @ trailer) ending = Ok r" "configure limit r = Ok q"
    and s: "\<And>ys r'. collect s = Some (ys, r') \<Longrightarrow> collect q = Some (entries limit ctx0 xs @ ys, r')"
      "inner (reader s) = RDB_OPCODE_EOF # trailer"
      "crc64 (crc (reader s)) [RDB_OPCODE_EOF] = crc64 0 (file_body m v xs)" "idle s"
      "version (header s) = word_of_nat v"
    by auto
  let ?s = "advance [RDB_OPCODE_EOF] trailer s"
  have "wants_check ?s trailer \<and> from_le trailer \<noteq> crc (reader ?s)"
    using five assms(6,7) s(3,5) by (simp add: wants_check_def)
  then have "read_eof ?s =
      (Err (CorruptData ''CRC64 mismatch: computed 0x{:016x}, stored 0x{:016x}''),
       ?s\<lparr>reader := (reader ?s)\<lparr>inner := []\<rparr>\<rparr>)"
    using read_eof_full [of ?s trailer "[]"] assms(5) by simp
  from collect_error [OF s(4,2) this] obtain r' where r':
    "collect s = Some ([Err (CorruptData ''CRC64 mismatch: computed 0x{:016x}, stored 0x{:016x}'')], r')"
    "\<not> crc_checked r'"
    using s(4) by (auto simp: idle_def)
  with r s(1) show ?thesis by blast
qed

theorem wrong_checksum_is_reported_witness:
  "\<exists>r q r'. reader_new (file_body Redis 11 [] @ to_le 8 1) UnexpectedEof = Ok r \<and>
    configure None r = Ok q \<and>
    collect q = Some (entries None ctx0 [] @
      [Err (CorruptData ''CRC64 mismatch: computed 0x{:016x}, stored 0x{:016x}'')], r') \<and>
    \<not> crc_checked r'"
  by (rule wrong_checksum_is_reported) (simp_all add: version_ok_def from_le_to_le empty_file_crc)

section \<open>Chunks put back together\<close>

fun value_append :: "rdb_value \<Rightarrow> rdb_value \<Rightarrow> rdb_value" where
  "value_append (VList xs) (VList ys) = VList (xs @ ys)"
| "value_append (VSet xs) (VSet ys) = VSet (xs @ ys)"
| "value_append (VSortedSet xs) (VSortedSet ys) = VSortedSet (xs @ ys)"
| "value_append (VHash xs) (VHash ys) = VHash (xs @ ys)"
| "value_append v _ = v"

text \<open>
  What a consumer of chunks does: an entry that is not the first chunk of its key continues
  the entry before it.
\<close>

definition join :: "rdb_entry parsed \<Rightarrow> rdb_entry parsed list \<Rightarrow> rdb_entry parsed list" where
  "join x ys = (case (x, ys) of
     (Ok e, Ok f # zs) \<Rightarrow>
       if is_first_chunk f then x # ys
       else Ok (e\<lparr>e_value := value_append (e_value e) (e_value f)\<rparr>) # zs
   | _ \<Rightarrow> x # ys)"

definition merge_chunks :: "rdb_entry parsed list \<Rightarrow> rdb_entry parsed list" where
  "merge_chunks xs = foldr join xs []"

definition unmarked :: "rdb_entry parsed \<Rightarrow> rdb_entry parsed" where
  "unmarked x = and_then x (\<lambda>e. Ok (with_chunking None None e))"

text \<open>A whole run: build the reader, choose the chunking, collect every item.\<close>

definition read_all :: "bytes \<Rightarrow> io_error \<Rightarrow> usize option \<Rightarrow> rdb_entry parsed list option" where
  "read_all input ending limit =
     (case and_then (reader_new input ending) (configure limit) of
        Ok q \<Rightarrow> map_option fst (collect q)
      | _ \<Rightarrow> None)"

lemma plain_value_append:
  "is_plain_type t \<Longrightarrow>
   value_append (plain_value t xs) (plain_value t ys) = plain_value t (xs @ ys)"
  by (auto simp: plain_value_def is_plain_type_def)

definition starts_key :: "rdb_entry parsed list \<Rightarrow> bool" where
  "starts_key ys \<longleftrightarrow> (\<forall>e zs. ys = Ok e # zs \<longrightarrow> is_first_chunk e)"

lemma join_starts: "starts_key ys \<Longrightarrow> join x ys = x # ys"
  by (auto simp: join_def starts_key_def split: list.split res.split)

lemma merge_pieces:
  assumes "is_plain_type t" "0 < n" "xs \<noteq> []" "off + length xs \<le> 536870912"
    and "starts_key ys"
  shows "foldr join (map (piece_entry c t key count) (pieces n off xs)) ys =
    piece_entry c t key count (off, xs) # ys"
  using assms(2-4)
proof (induction n off xs rule: pieces.induct)
  case (1 n off xs)
  show ?case
  proof (cases "length xs \<le> n")
    case True
    then have "pieces n off xs = [(off, xs)]"
      using 1(2,3) by (subst pieces.simps) simp
    then show ?thesis
      using join_starts [OF assms(5)] by simp
  next
    case False
    then have p: "pieces n off xs = (off, take n xs) # pieces n (off + n) (drop n xs)"
      using 1(2,3) by (subst pieces.simps) simp
    have "\<not> is_first_chunk (ctx_entry c t key (Some (word_of_nat count)) (Some (word_of_nat (off + n))) v)" for v
    proof -
      have "unat (word_of_nat (off + n) :: u64) = off + n"
        using False 1(4) by (simp add: unat_of_nat del: of_nat_add)
      then have "(word_of_nat (off + n) :: u64) \<noteq> 0"
        using 1(2) by (metis add_is_0 less_numeral_extra(3) unat_0)
      then show ?thesis
        by (simp add: is_first_chunk_def ctx_entry_def)
    qed
    moreover have "value_append (plain_value t (take n xs)) (plain_value t (drop n xs)) = plain_value t xs"
      using plain_value_append [OF assms(1), of "take n xs" "drop n xs"] by simp
    moreover have "foldr join (map (piece_entry c t key count) (pieces n (off + n) (drop n xs))) ys =
        piece_entry c t key count (off + n, drop n xs) # ys"
      by (rule 1(1)) (use 1(2-4) False in auto)
    moreover have "join (piece_entry c t key count (off, take n xs))
        (piece_entry c t key count (off + n, drop n xs) # ys) = piece_entry c t key count (off, xs) # ys"
      using calculation(1,2) by (simp add: join_def piece_entry_def del: of_nat_add) (simp add: ctx_entry_def)
    ultimately show ?thesis
      by (simp add: p)
  qed
qed

text \<open>The same for one key, and then for all of them.\<close>

lemma merge_key:
  assumes "item_ok (Key t k v)" "0 < n" "starts_key ys"
  shows "\<exists>x. foldr join (key_entries (Some n) c t (string_enc_value k) v) ys = x # ys \<and>
    starts_key (x # ys) \<and> [unmarked x] = key_entries None c t (string_enc_value k) v"
proof (cases "is_cut (Some n) v")
  case True
  then obtain es where v: "v = PlainEnc es" "n < length es"
    by (cases v) auto
  let ?p = "piece_entry c t (string_enc_value k) (length es)"
  have "foldr join (map ?p (pieces n 0 es)) ys = ?p (0, es) # ys"
    by (rule merge_pieces) (use assms v in auto)
  then have "foldr join (key_entries (Some n) c t (string_enc_value k) v) ys = ?p (0, es) # ys"
    using v by (simp add: piece_entry_def)
  then show ?thesis
    using v by (auto simp: starts_key_def piece_entry_def is_first_chunk_def ctx_entry_def unmarked_def
        with_chunking_def)
next
  case False
  then obtain x where x: "key_entries (Some n) c t (string_enc_value k) v = [x]"
    "key_entries None c t (string_enc_value k) v = [x]"
    by (cases v) auto
  then have u: "unmarked x = x" "starts_key (x # ys)"
    by (cases v; auto simp: unmarked_def with_chunking_def ctx_entry_def starts_key_def
        is_first_chunk_def and_then_def split: res.splits)+
  with x join_starts [OF assms(3)] show ?thesis by auto
qed

lemma merge_entries:
  assumes "\<forall>x \<in> set xs. item_ok x" "0 < n"
  shows "starts_key (merge_chunks (entries (Some n) c xs)) \<and>
    map unmarked (merge_chunks (entries (Some n) c xs)) = entries None c xs"
  using assms
proof (induction xs arbitrary: c)
  case Nil
  then show ?case by (simp add: merge_chunks_def starts_key_def)
next
  case (Cons x xs)
  show ?case
  proof (cases x)
    case (Op op)
    with Cons show ?thesis by simp
  next
    case (Key t k v)
    with Cons have ih: "starts_key (merge_chunks (entries (Some n) (after_key c) xs))"
      "map unmarked (merge_chunks (entries (Some n) (after_key c) xs)) = entries None (after_key c) xs"
      by simp_all
    have "item_ok (Key t k v)"
      using Cons.prems(1) Key by simp
    from merge_key [OF this assms(2) ih(1), of c] obtain y where
      y: "foldr join (key_entries (Some n) c t (string_enc_value k) v)
          (merge_chunks (entries (Some n) (after_key c) xs)) =
        y # merge_chunks (entries (Some n) (after_key c) xs)"
      "starts_key (y # merge_chunks (entries (Some n) (after_key c) xs))"
      "[unmarked y] = key_entries None c t (string_enc_value k) v"
      by blast
    have "merge_chunks (entries (Some n) c (Key t k v # xs)) =
        y # merge_chunks (entries (Some n) (after_key c) xs)"
      using y(1) by (simp add: merge_chunks_def)
    with y(2) ih(2) y(3) [symmetric] Key show ?thesis by simp
  qed
qed

lemma read_all_file:
  assumes "version_ok m v" "\<forall>x \<in> set xs. item_ok x" "limit \<noteq> Some 0"
  shows "read_all (file_bytes m v xs) ending limit = Some (entries limit ctx0 xs)"
  using file_collects [OF assms, of ending] by (auto simp: read_all_def)

text \<open>
  Claim C6. Chunking a well-formed file loses nothing and changes nothing but the grain: for
  every file of the grammar of Rdb_Format and whatever the chunk limit, putting the chunks
  of every key back together and dropping the chunk marks gives exactly the items of the run
  without chunking.  (On a truncated or corrupt file this need not be so: a chunked run may
  yield chunks of a key at whose end it fails, where the run without chunking yields none.)
\<close>

theorem chunking_is_transparent:
  assumes "version_ok m v" "\<forall>x \<in> set xs. item_ok x" "0 < n"
  shows "\<exists>items. read_all (file_bytes m v xs) ending (Some n) = Some items \<and>
    read_all (file_bytes m v xs) ending None = Some (map unmarked (merge_chunks items))"
  using merge_entries [OF assms(2,3)] read_all_file [OF assms(1,2)] assms(3) by simp

theorem chunking_is_transparent_witness:
  "\<exists>items. read_all (file_bytes Redis 11 small_items) UnexpectedEof (Some 2) = Some items \<and>
    read_all (file_bytes Redis 11 small_items) UnexpectedEof None = Some (map unmarked (merge_chunks items))"
  by (rule chunking_is_transparent [OF _ small_items_ok]) (simp_all add: version_ok_def)

end
