(* ===== verification/Detect.thy ===== *)
theory Detect
  imports Rdb_Types Float64
begin

text \<open>
  \<open>crates/rdb-to-arrow/src/detect.rs\<close>: detection and decoding of the virtual types.  A
  HyperLogLog is a string with a header; a geo set is a sorted set whose scores are all
  52-bit geohashes.  The theorems: \<open>deinterleave64\<close> separates the even from the odd bits;
  a score is taken for a geohash exactly when its value is an integer below \<open>2^52\<close>.
\<close>

section \<open>HyperLogLog\<close>

definition is_hll :: "bytes \<Rightarrow> bool" where
  "is_hll d \<longleftrightarrow> length d \<ge> 16 \<and> take 4 d = str_bytes ''HYLL'' \<and> d ! 4 \<in> {0, 1}"

definition hll_encoding :: "bytes \<Rightarrow> string" where
  "hll_encoding d =
     (if length d > 4 then
        (if d ! 4 = 0 then ''dense'' else if d ! 4 = 1 then ''sparse'' else ''unknown'')
      else ''unknown'')"

definition hll_cached_cardinality :: "bytes \<Rightarrow> i64" where
  "hll_cached_cardinality d =
     (if length d < 16 then -1
      else let raw = (from_le (take 8 (drop 8 d)) :: u64) in
           if raw AND push_bit 63 1 \<noteq> 0 then -1 else sint raw)"

section \<open>Geohashes\<close>

definition deinterleave64 :: "u64 \<Rightarrow> u64" where
  "deinterleave64 interleaved =
     (let x = interleaved; y = drop_bit 1 interleaved;
          x = (x OR drop_bit 0 x) AND 0x5555555555555555;
          y = (y OR drop_bit 0 y) AND 0x5555555555555555;
          x = (x OR drop_bit 1 x) AND 0x3333333333333333;
          y = (y OR drop_bit 1 y) AND 0x3333333333333333;
          x = (x OR drop_bit 2 x) AND 0x0F0F0F0F0F0F0F0F;
          y = (y OR drop_bit 2 y) AND 0x0F0F0F0F0F0F0F0F;
          x = (x OR drop_bit 4 x) AND 0x00FF00FF00FF00FF;
          y = (y OR drop_bit 4 y) AND 0x00FF00FF00FF00FF;
          x = (x OR drop_bit 8 x) AND 0x0000FFFF0000FFFF;
          y = (y OR drop_bit 8 y) AND 0x0000FFFF0000FFFF;
          x = (x OR drop_bit 16 x) AND 0x00000000FFFFFFFF;
          y = (y OR drop_bit 16 y) AND 0x00000000FFFFFFFF
      in x OR push_bit 32 y)"

text \<open>The constants of the decoder, as the literals of the source are rounded.\<close>

definition LAT_MAX :: f64 where "LAT_MAX = decimal_f64 False 8505112878 (-8)"
definition LAT_MIN :: f64 where "LAT_MIN = decimal_f64 True 8505112878 (-8)"
definition LONG_MAX :: f64 where "LONG_MAX = int_as_f64 180"
definition LONG_MIN :: f64 where "LONG_MIN = int_as_f64 (-180)"
definition STEP :: nat where "STEP = 26"

text \<open>Both edges of a cell on one axis: \<open>MIN + (i / 2^STEP) * (MAX - MIN)\<close>.\<close>

definition cell_low :: "f64 \<Rightarrow> f64 \<Rightarrow> u32 \<Rightarrow> f64" where
  "cell_low mn scale i =
     f64_add mn (f64_mul (f64_div (int_as_f64 (uint i)) (int_as_f64 (2 ^ STEP))) scale)"

definition cell_high :: "f64 \<Rightarrow> f64 \<Rightarrow> u32 \<Rightarrow> f64" where
  "cell_high mn scale i =
     f64_add mn (f64_mul (f64_div (f64_add (int_as_f64 (uint i)) (int_as_f64 1))
       (int_as_f64 (2 ^ STEP))) scale)"

definition geohash_decode :: "f64 \<Rightarrow> (f64 \<times> f64) option" where
  "geohash_decode score =
     (if f64_is_nan score \<or> f64_less score 0 \<or> f64_has_fract score \<or>
         f64_leq (int_as_f64 (2 ^ 52)) score then None
      else
        let hash_sep = deinterleave64 (f64_as_u64 score);
            ilato = (ucast hash_sep :: u32); ilono = (ucast (drop_bit 32 hash_sep) :: u32);
            lat_scale = f64_sub LAT_MAX LAT_MIN; long_scale = f64_sub LONG_MAX LONG_MIN;
            lat_min = cell_low LAT_MIN lat_scale ilato; lat_max = cell_high LAT_MIN lat_scale ilato;
            long_min = cell_low LONG_MIN long_scale ilono; long_max = cell_high LONG_MIN long_scale ilono
        in Some (f64_div (f64_add long_min long_max) (int_as_f64 2),
                 f64_div (f64_add lat_min lat_max) (int_as_f64 2)))"

definition is_geo :: "(bytes \<times> f64) list \<Rightarrow> bool" where
  "is_geo members \<longleftrightarrow> members \<noteq> [] \<and> (\<forall>(_, score) \<in> set members. geohash_decode score \<noteq> None)"

section \<open>Separating the bits\<close>

text \<open>The low half of the result holds the even bits of the input, the high half the odd bits.\<close>

text \<open>
  After the step with shift \<open>w / 2\<close>, the bits sit in groups of \<open>w\<close>, one group in every
  \<open>2 * w\<close> positions; each step is checked at the 64 positions.
\<close>

definition bits_are :: "u64 \<Rightarrow> (nat \<Rightarrow> bool) \<Rightarrow> bool" where
  "bits_are x f \<longleftrightarrow> list_all (\<lambda>n. bit x n = f n) [0..<64]"

lemma positions:
  "[0..<64] =
    [0, 1, 2, 3, 4, 5, 6, 7, 8, 9, 10, 11, 12, 13, 14, 15, 16, 17, 18, 19, 20, 21, 22, 23,
     24, 25, 26, 27, 28, 29, 30, 31, 32, 33, 34, 35, 36, 37, 38, 39, 40, 41, 42, 43, 44, 45,
     46, 47, 48, 49, 50, 51, 52, 53, 54, 55, 56, 57, 58, 59, 60, 61, 62, 63]"
  by code_simp

lemma bits_are_D: "bits_are x f \<Longrightarrow> n < 64 \<Longrightarrow> bit x n = f n"
  by (simp add: bits_are_def list_all_iff)

lemma bits_are_shift: "bits_are (drop_bit 1 x) (\<lambda>n. bit x (Suc n))"
  by (simp add: bits_are_def list_all_iff bit_drop_bit_eq)

lemma bits_are_self: "bits_are x (bit x)"
  by (simp add: bits_are_def list_all_iff)

lemma halve_0:
  "bits_are x f \<Longrightarrow>
   bits_are ((x OR drop_bit 0 x) AND 0x5555555555555555 :: u64) (\<lambda>n. n mod 2 < 1 \<and> f (2 * (n mod 1) + n div 2 * 2))"
  unfolding bits_are_def positions by (simp add: bit_simps flip: numeral_2_eq_2)

lemma halve_1:
  "bits_are x (\<lambda>n. n mod 2 < 1 \<and> f (2 * (n mod 1) + n div 2 * 2)) \<Longrightarrow>
   bits_are ((x OR drop_bit 1 x) AND 0x3333333333333333 :: u64)
     (\<lambda>n. n mod 4 < 2 \<and> f (2 * (n mod 2) + n div 4 * 4))"
  unfolding bits_are_def positions by (simp add: bit_simps flip: numeral_2_eq_2)

lemma halve_2:
  "bits_are x (\<lambda>n. n mod 4 < 2 \<and> f (2 * (n mod 2) + n div 4 * 4)) \<Longrightarrow>
   bits_are ((x OR drop_bit 2 x) AND 0x0F0F0F0F0F0F0F0F :: u64)
     (\<lambda>n. n mod 8 < 4 \<and> f (2 * (n mod 4) + n div 8 * 8))"
  unfolding bits_are_def positions by (simp add: bit_simps flip: numeral_2_eq_2)

lemma halve_4:
  "bits_are x (\<lambda>n. n mod 8 < 4 \<and> f (2 * (n mod 4) + n div 8 * 8)) \<Longrightarrow>
   bits_are ((x OR drop_bit 4 x) AND 0x00FF00FF00FF00FF :: u64)
     (\<lambda>n. n mod 16 < 8 \<and> f (2 * (n mod 8) + n div 16 * 16))"
  unfolding bits_are_def positions by (simp add: bit_simps flip: numeral_2_eq_2)

lemma halve_8:
  "bits_are x (\<lambda>n. n mod 16 < 8 \<and> f (2 * (n mod 8) + n div 16 * 16)) \<Longrightarrow>
   bits_are ((x OR drop_bit 8 x) AND 0x0000FFFF0000FFFF :: u64)
     (\<lambda>n. n mod 32 < 16 \<and> f (2 * (n mod 16) + n div 32 * 32))"
  unfolding bits_are_def positions by (simp add: bit_simps flip: numeral_2_eq_2)

lemma halve_16:
  "bits_are x (\<lambda>n. n mod 32 < 16 \<and> f (2 * (n mod 16) + n div 32 * 32)) \<Longrightarrow>
   bits_are ((x OR drop_bit 16 x) AND 0x00000000FFFFFFFF :: u64)
     (\<lambda>n. n mod 64 < 32 \<and> f (2 * (n mod 32) + n div 64 * 64))"
  unfolding bits_are_def positions by (simp add: bit_simps flip: numeral_2_eq_2)

lemmas halve =
  halve_16 [where f = f, OF halve_8 [where f = f, OF halve_4 [where f = f,
    OF halve_2 [where f = f, OF halve_1 [where f = f, OF halve_0 [where f = f]]]]]] for f

lemma bits_are_join:
  "bits_are a f \<Longrightarrow> bits_are b g \<Longrightarrow> n < 64 \<Longrightarrow>
   bit (a OR push_bit 32 b) n \<longleftrightarrow> f n \<or> 32 \<le> n \<and> g (n - 32)"
  using bits_are_D [of b g "n - 32"]
  by (simp add: bit_or_iff bit_push_bit_iff bits_are_D)

lemma bit_deinterleave64:
  assumes "n < 64"
  shows "bit (deinterleave64 x) n = bit x (if n < 32 then 2 * n else 2 * (n - 32) + 1)"
  unfolding deinterleave64_def Let_def
    bits_are_join [OF halve [OF bits_are_self [of x]] halve [OF bits_are_shift [of x]] assms]
  using assms by auto

text \<open>The two halves the decoder takes.\<close>

lemma bit_ilato: "n < 32 \<Longrightarrow> bit (ucast (deinterleave64 x) :: u32) n = bit x (2 * n)"
  by (simp add: bit_ucast_iff bit_deinterleave64)

lemma bit_ilono:
  "n < 32 \<Longrightarrow> bit (ucast (drop_bit 32 (deinterleave64 x)) :: u32) n = bit x (2 * n + 1)"
  by (simp add: bit_ucast_iff bit_drop_bit_eq bit_deinterleave64)

section \<open>Which scores are geohashes\<close>

lemma f64_low_split: "unat x mod 2 ^ 63 = f64_exp x * 2 ^ 52 + f64_frac (x :: f64)"
proof -
  have "unat x mod (2 ^ 52 * 2 ^ 11) = 2 ^ 52 * (unat x div 2 ^ 52 mod 2 ^ 11) + unat x mod 2 ^ 52"
    by (rule mod_mult2_eq)
  then show ?thesis by (simp add: f64_exp_def f64_frac_def)
qed

lemma f64_frac_less: "f64_frac x < 2 ^ 52"
  by (simp add: f64_frac_def)

lemma f64_key_split:
  "f64_key x = (if f64_neg x then - int (f64_exp x * 2 ^ 52 + f64_frac x)
                else int (f64_exp x * 2 ^ 52 + f64_frac x))"
  unfolding f64_key_def f64_low_split Let_def by simp

lemma f64_key_zero: "f64_key 0 = 0" "\<not> f64_is_nan 0"
  by (simp_all add: f64_key_def f64_is_nan_def f64_exp_def f64_frac_def f64_neg_def)

lemma f64_key_2_52:
  "f64_key (int_as_f64 (2 ^ 52)) = 1075 * 2 ^ 52" "\<not> f64_is_nan (int_as_f64 (2 ^ 52))"
  by (simp_all add: float_eval float_arith_eval)

lemma f64_mag_small:
  "f64_exp x < 1075 \<Longrightarrow>
   f64_mag x = ((if f64_exp x = 0 then f64_frac x else 2 ^ 52 + f64_frac x),
                2 ^ (1075 - (if f64_exp x = 0 then 1 else f64_exp x)))"
  by (simp add: f64_mag_def Let_def)

lemma f64_mag_large:
  "1075 \<le> f64_exp x \<Longrightarrow>
   f64_mag x = ((2 ^ 52 + f64_frac x) * 2 ^ (f64_exp x - 1075), 1)"
  by (simp add: f64_mag_def Let_def)

definition is_geohash :: "f64 \<Rightarrow> bool" where
  "is_geohash s \<longleftrightarrow>
     f64_is_finite s \<and> (\<exists>n < 2 ^ 52. f64_num s = int n * int (f64_den s))"

lemma decode_some_iff:
  "geohash_decode s \<noteq> None \<longleftrightarrow>
   f64_is_finite s \<and> \<not> f64_key s < 0 \<and> fst (f64_mag s) mod snd (f64_mag s) = 0 \<and>
   f64_key s < 1075 * 2 ^ 52"
proof -
  have neg: "f64_less s 0 \<longleftrightarrow> \<not> f64_is_nan s \<and> f64_key s < 0"
    unfolding f64_less_def by (simp only: f64_key_zero simp_thms)
  have big: "f64_leq (int_as_f64 (2 ^ 52)) s \<longleftrightarrow> \<not> f64_is_nan s \<and> 1075 * 2 ^ 52 \<le> f64_key s"
    unfolding f64_leq_def by (simp only: f64_key_2_52 simp_thms)
  have nan: "f64_is_finite s \<Longrightarrow> \<not> f64_is_nan s"
    by (simp add: f64_is_finite_def f64_is_nan_def)
  show ?thesis
    unfolding geohash_decode_def Let_def neg big f64_has_fract_def
    using nan by (cases "f64_is_finite s") (simp_all add: not_less not_le)
qed

lemma decode_large:
  assumes "1075 \<le> f64_exp s"
  shows "geohash_decode s = None" "\<not> is_geohash s"
proof -
  have "int (f64_exp s) * 2 ^ 52 \<ge> 1075 * 2 ^ 52" using assms by simp
  then have "f64_key s < 0 \<or> 1075 * 2 ^ 52 \<le> f64_key s"
    by (simp add: f64_key_split)
  then show "geohash_decode s = None"
    using decode_some_iff [of s] by linarith
  have m: "(2::nat) ^ 52 * 1 \<le> fst (f64_mag s)"
    unfolding f64_mag_large [OF assms] fst_conv by (rule mult_le_mono) simp_all
  have "f64_den s = 1" using assms by (simp add: f64_den_def f64_mag_large)
  then show "\<not> is_geohash s"
    using m by (auto simp: is_geohash_def f64_num_def split: if_splits)
qed

lemma decode_small:
  assumes e: "f64_exp s < 1075"
  shows "geohash_decode s \<noteq> None \<longleftrightarrow> is_geohash s"
proof -
  define m where "m = fst (f64_mag s)"
  define d where "d = snd (f64_mag s)"
  have key0: "f64_exp s * 2 ^ 52 + f64_frac s = 0 \<longleftrightarrow> m = 0"
    by (auto simp: m_def f64_mag_small [OF e])
  have kb: "int (f64_exp s * 2 ^ 52 + f64_frac s) < 1075 * 2 ^ 52"
    using mult_right_mono [of "f64_exp s" 1074 "2 ^ 52"] e f64_frac_less [of s] by simp
  have d2: "2 \<le> d"
  proof -
    have "(2::nat) ^ 1 \<le> 2 ^ (1075 - (if f64_exp s = 0 then 1 else f64_exp s))"
      by (rule power_increasing) (use e in auto)
    then show ?thesis by (simp add: d_def f64_mag_small [OF e])
  qed
  have mb: "m < 2 ^ 53"
    using f64_frac_less [of s] by (simp add: m_def f64_mag_small [OF e])
  have fin: "f64_is_finite s" using e by (simp add: f64_is_finite_def)
  have q: "m = n * d \<Longrightarrow> n < 2 ^ 52" for n
  proof (rule ccontr)
    assume "m = n * d" "\<not> n < 2 ^ 52"
    then have "2 ^ 52 * 2 \<le> m" using mult_le_mono [of "2 ^ 52" n 2 d] d2 by simp
    with mb show False by simp
  qed
  have num: "f64_num s = (if f64_neg s then - int m else int m)" "f64_den s = d"
    by (simp_all add: f64_num_def f64_den_def m_def d_def)
  have neg: "- int m = int n * int d \<Longrightarrow> m = 0" for n
  proof -
    assume "- int m = int n * int d"
    then have "int m + int (n * d) = 0" by simp
    then show "m = 0" by linarith
  qed
  have pos: "int m = int n * int d \<longleftrightarrow> m = n * d" for n
    by (simp flip: of_nat_mult)
  have zero_ok: "m = 0 \<Longrightarrow> is_geohash s"
    by (auto simp: is_geohash_def fin num intro: exI [of _ 0])
  have lhs: "geohash_decode s \<noteq> None \<longleftrightarrow> (\<not> f64_neg s \<or> m = 0) \<and> m mod d = 0"
    unfolding decode_some_iff f64_key_split using fin kb key0
    by (auto simp: m_def d_def)
  show ?thesis
  proof (cases "m = 0")
    case True
    then show ?thesis using lhs zero_ok by simp
  next
    case False
    have "is_geohash s \<longleftrightarrow> \<not> f64_neg s \<and> (\<exists>n. m = n * d)"
      using False neg q pos by (auto simp: is_geohash_def fin num)
    moreover have "(\<exists>n. m = n * d) \<longleftrightarrow> m mod d = 0"
      by (metis dvd_def mod_0_imp_dvd mod_mult_self2_is_0 mult.commute)
    ultimately show ?thesis using lhs False by simp
  qed
qed

lemma geohash_decode_iff: "geohash_decode s \<noteq> None \<longleftrightarrow> is_geohash s"
  using decode_large [of s] decode_small [of s] by (cases "1075 \<le> f64_exp s") auto

lemma is_geo_iff: "is_geo ms \<longleftrightarrow> ms \<noteq> [] \<and> (\<forall>p \<in> set ms. is_geohash (snd p))"
  unfolding is_geo_def geohash_decode_iff by auto

end
