(* ===== verification/Text.thy ===== *)
theory Text
  imports Float64
begin

text \<open>
  The operations of Rust's \<open>str\<close> the configuration code uses, on UTF-8 bytes:
  \<open>split\<close> at an ASCII character, \<open>join\<close>, \<open>trim\<close> (which removes the characters with the
  Unicode property White_Space, here by their UTF-8 encodings) and the ASCII case functions.
\<close>

section \<open>Splitting and joining\<close>

fun split_on :: "u8 \<Rightarrow> bytes \<Rightarrow> bytes list" where
  "split_on c [] = [[]]"
| "split_on c (b # bs) =
     (if b = c then [] # split_on c bs
      else (case split_on c bs of p # ps \<Rightarrow> (b # p) # ps | [] \<Rightarrow> [[b]]))"

fun join_with :: "u8 \<Rightarrow> bytes list \<Rightarrow> bytes" where
  "join_with c [] = []"
| "join_with c [p] = p"
| "join_with c (p # q # ps) = p @ c # join_with c (q # ps)"

lemma split_on_not_Nil [simp]: "split_on c bs \<noteq> []"
  by (induction bs) (auto split: list.splits)

lemma split_on_plain [simp]: "c \<notin> set p \<Longrightarrow> split_on c p = [p]"
  by (induction p) auto

lemma split_on_append:
  "c \<notin> set p \<Longrightarrow> split_on c (p @ c # r) = p # split_on c r"
  by (induction p) auto

lemma split_join:
  "ps \<noteq> [] \<Longrightarrow> (\<And>p. p \<in> set ps \<Longrightarrow> c \<notin> set p) \<Longrightarrow> split_on c (join_with c ps) = ps"
  by (induction c ps rule: join_with.induct) (auto simp: split_on_append)

lemma join_split: "join_with c (split_on c bs) = bs"
proof (induction bs)
  case (Cons b bs)
  then show ?case
    by (cases "split_on c bs"; cases "tl (split_on c bs)") auto
qed simp

lemma split_on_pieces: "p \<in> set (split_on c bs) \<Longrightarrow> c \<notin> set p"
  by (induction bs arbitrary: p) (auto split: if_splits list.splits)

section \<open>Case and white space\<close>

definition to_ascii_lowercase :: "bytes \<Rightarrow> bytes" where
  "to_ascii_lowercase bs = List.map ascii_lower bs"

definition eq_ignore_ascii_case :: "bytes \<Rightarrow> bytes \<Rightarrow> bool" where
  "eq_ignore_ascii_case a b \<longleftrightarrow> List.map ascii_lower a = List.map ascii_lower b"

text \<open>The encodings of the 25 white-space characters.\<close>

definition white_space :: "bytes list" where
  "white_space =
     [[0x09], [0x0A], [0x0B], [0x0C], [0x0D], [0x20], [0xC2, 0x85], [0xC2, 0xA0],
      [0xE1, 0x9A, 0x80], [0xE2, 0x80, 0x80], [0xE2, 0x80, 0x81], [0xE2, 0x80, 0x82],
      [0xE2, 0x80, 0x83], [0xE2, 0x80, 0x84], [0xE2, 0x80, 0x85], [0xE2, 0x80, 0x86],
      [0xE2, 0x80, 0x87], [0xE2, 0x80, 0x88], [0xE2, 0x80, 0x89], [0xE2, 0x80, 0x8A],
      [0xE2, 0x80, 0xA8], [0xE2, 0x80, 0xA9], [0xE2, 0x80, 0xAF], [0xE2, 0x81, 0x9F],
      [0xE3, 0x80, 0x80]]"

definition has_prefix :: "bytes \<Rightarrow> bytes \<Rightarrow> bool" where
  "has_prefix s w \<longleftrightarrow> take (length w) s = w"

function strip_front :: "bytes list \<Rightarrow> bytes \<Rightarrow> bytes" where
  "strip_front ws s =
     (case find (\<lambda>w. w \<noteq> [] \<and> has_prefix s w) ws of
        None \<Rightarrow> s
      | Some w \<Rightarrow> strip_front ws (drop (length w) s))"
  by pat_completeness auto
termination
proof (relation "measure (\<lambda>(ws, s). length s)", simp)
  fix ws :: "bytes list" and s w
  assume "find (\<lambda>w. w \<noteq> [] \<and> has_prefix s w) ws = Some w"
  then have "w \<noteq> []" "take (length w) s = w"
    by (auto simp: find_Some_iff has_prefix_def)
  then show "((ws, drop (length w) s), ws, s) \<in> measure (\<lambda>(ws, s). length s)"
    by (cases s) auto
qed

declare strip_front.simps [simp del]

definition trim_start :: "bytes \<Rightarrow> bytes" where
  "trim_start s = strip_front white_space s"

definition trim_end :: "bytes \<Rightarrow> bytes" where
  "trim_end s = rev (strip_front (List.map rev white_space) (rev s))"

definition trim :: "bytes \<Rightarrow> bytes" where
  "trim s = trim_end (trim_start s)"

text \<open>A string of printable ASCII without spaces is left alone.\<close>

definition plain :: "bytes \<Rightarrow> bool" where
  "plain s \<longleftrightarrow> (\<forall>b\<in>set s. 0x21 \<le> b \<and> b < 0x80)"

lemma strip_front_plain:
  assumes "plain s" "\<And>w. w \<in> set ws \<Longrightarrow> w \<noteq> [] \<Longrightarrow> \<not> plain [hd w]"
  shows "strip_front ws s = s"
proof -
  have "\<not> (w \<noteq> [] \<and> has_prefix s w)" if "w \<in> set ws" for w
  proof (intro notI, elim conjE)
    assume w: "w \<noteq> []" "has_prefix s w"
    then have "hd w \<in> set (take (length w) s)"
      by (metis has_prefix_def hd_in_set)
    then have "hd w \<in> set s" by (rule in_set_takeD)
    then show False using assms that w by (auto simp: plain_def)
  qed
  then have "find (\<lambda>w. w \<noteq> [] \<and> has_prefix s w) ws = None"
    by (simp add: find_None_iff)
  then show ?thesis by (subst strip_front.simps) simp
qed

lemma trim_plain [simp]: "plain s \<Longrightarrow> trim s = s"
proof -
  assume p: "plain s"
  have f: "\<forall>w \<in> set white_space. \<not> plain [hd w] \<and> \<not> plain [last w]"
    by (simp add: white_space_def plain_def)
  have 1: "trim_start s = s"
    unfolding trim_start_def by (rule strip_front_plain) (use p f in auto)
  have "strip_front (List.map rev white_space) (rev s) = rev s"
    by (rule strip_front_plain) (use p f in \<open>auto simp: plain_def hd_rev\<close>)
  then show ?thesis by (simp add: trim_def trim_end_def 1)
qed

lemma trim_examples:
  "trim (str_bytes '' geo'') = str_bytes ''geo''"
  "trim [0xE2, 0x80, 0x83, 0x67, 0xC2, 0xA0, 0x20] = [0x67]"
  by code_simp+

end
