(* ===== verification/Arrow_Schema.thy ===== *)
theory Arrow_Schema
  imports Detect Text Rdb_Types
begin

text \<open>
  \<open>crates/rdb-to-arrow/src/schema.rs\<close>: the heuristics, the type tags, the classification of
  an entry, the number of rows it becomes, and the Arrow schema of each tag.  The theorems:
  the textual form of a set of heuristics and of type names is read back, an entry's tag
  names its value, and the cached schemas are the ones \<open>schema_for\<close> builds.
\<close>

section \<open>Heuristics\<close>

datatype heuristic = HGeo

definition heuristic_all :: "heuristic list" where
  "heuristic_all = [HGeo]"

definition heuristic_from_name :: "bytes \<Rightarrow> heuristic option" where
  "heuristic_from_name s = (if eq_ignore_ascii_case s (str_bytes ''geo'') then Some HGeo else None)"

definition heuristic_as_str :: "heuristic \<Rightarrow> bytes" where
  "heuristic_as_str h = (case h of HGeo \<Rightarrow> str_bytes ''geo'')"

definition unknown_heuristic :: "bytes \<Rightarrow> bytes" where
  "unknown_heuristic name =
     str_bytes ''unknown heuristic '' @ [39] @ name @ [39] @ str_bytes ''. Valid: all, geo, none''"

text \<open>The loop both parsers share: every name must be known, the first that is not is reported.\<close>

fun parse_names ::
  "(bytes \<Rightarrow> 'a option) \<Rightarrow> (bytes \<Rightarrow> 'e) \<Rightarrow> bytes list \<Rightarrow> 'a set \<Rightarrow> ('a set, 'e) res" where
  "parse_names from unknown [] acc = Ok acc"
| "parse_names from unknown (n # ns) acc =
     and_then (ok_or (unknown (trim n)) (from (trim n)))
       (\<lambda>x. parse_names from unknown ns (insert x acc))"

lemma parse_names_find:
  "parse_names from unknown ns acc =
     (case find (\<lambda>n. from (trim n) = None) ns of
        Some n \<Rightarrow> Err (unknown (trim n))
      | None \<Rightarrow> Ok ((\<lambda>n. the (from (trim n))) ` set ns \<union> acc))"
proof (induction ns arbitrary: acc)
  case (Cons n ns)
  then show ?case by (cases "from (trim n)") (auto split: option.split)
qed simp

definition heuristic_parse_set :: "bytes \<Rightarrow> (heuristic set, bytes) res" where
  "heuristic_parse_set s =
     (if eq_ignore_ascii_case s (str_bytes ''all'') then Ok (set heuristic_all)
      else if eq_ignore_ascii_case s (str_bytes ''none'') then Ok {}
      else parse_names heuristic_from_name unknown_heuristic (split_on 44 s) {})"

text \<open>
  The names of the set, sorted and joined.  The set is enumerated through \<open>heuristic_all\<close>,
  which lists every heuristic; there is one, so there is nothing to sort.
\<close>

definition heuristic_format_set :: "heuristic set \<Rightarrow> bytes" where
  "heuristic_format_set hs =
     (if hs = {} then str_bytes ''none''
      else join_with 44 (List.map heuristic_as_str (filter (\<lambda>h. h \<in> hs) heuristic_all)))"

section \<open>Type tags\<close>

datatype type_tag =
  TString | TList | TSet | TSortedSet | THash | TGeo | THyperLogLog | TModule | TStream

definition tag_all :: "type_tag list" where
  "tag_all = [TString, TList, TSet, TSortedSet, THash, TGeo, THyperLogLog, TModule, TStream]"

text \<open>\<open>Ord\<close> is derived: the order of declaration.\<close>

fun tag_rank :: "type_tag \<Rightarrow> nat" where
  "tag_rank TString = 0"
| "tag_rank TList = 1"
| "tag_rank TSet = 2"
| "tag_rank TSortedSet = 3"
| "tag_rank THash = 4"
| "tag_rank TGeo = 5"
| "tag_rank THyperLogLog = 6"
| "tag_rank TModule = 7"
| "tag_rank TStream = 8"

lemma tag_rank_inject [simp]: "tag_rank a = tag_rank b \<longleftrightarrow> a = b"
  by (cases a; cases b) simp_all

instantiation type_tag :: linorder
begin

definition less_eq_type_tag :: "type_tag \<Rightarrow> type_tag \<Rightarrow> bool" where
  "less_eq_type_tag a b \<longleftrightarrow> tag_rank a \<le> tag_rank b"

definition less_type_tag :: "type_tag \<Rightarrow> type_tag \<Rightarrow> bool" where
  "less_type_tag a b \<longleftrightarrow> tag_rank a < tag_rank b"

instance
  by standard (auto simp: less_eq_type_tag_def less_type_tag_def)

end

definition tag_as_str :: "type_tag \<Rightarrow> string" where
  "tag_as_str t =
     (case t of
        TString \<Rightarrow> ''string'' | TList \<Rightarrow> ''list'' | TSet \<Rightarrow> ''set'' | TSortedSet \<Rightarrow> ''zset''
      | THash \<Rightarrow> ''hash'' | TGeo \<Rightarrow> ''geo'' | THyperLogLog \<Rightarrow> ''hyperloglog''
      | TModule \<Rightarrow> ''module'' | TStream \<Rightarrow> ''stream'')"

definition valid_cli_names :: string where
  "valid_cli_names = ''string, list, set, zset, hash, geo, hll, module, stream''"

definition tag_from_cli_name :: "bytes \<Rightarrow> type_tag option" where
  "tag_from_cli_name s =
     (let l = to_ascii_lowercase s in
      if l = str_bytes ''string'' then Some TString
      else if l = str_bytes ''list'' then Some TList
      else if l = str_bytes ''set'' then Some TSet
      else if l = str_bytes ''zset'' then Some TSortedSet
      else if l = str_bytes ''hash'' then Some THash
      else if l = str_bytes ''geo'' then Some TGeo
      else if l = str_bytes ''hll'' \<or> l = str_bytes ''hyperloglog'' then Some THyperLogLog
      else if l = str_bytes ''module'' then Some TModule
      else if l = str_bytes ''stream'' then Some TStream
      else None)"

definition unknown_type :: "bytes \<Rightarrow> bytes" where
  "unknown_type name =
     str_bytes ''unknown type '' @ [39] @ name @ [39] @ str_bytes ''. Valid: '' @
     str_bytes valid_cli_names"

definition tag_parse_set :: "bytes \<Rightarrow> (type_tag set, bytes) res" where
  "tag_parse_set s = parse_names tag_from_cli_name unknown_type (split_on 44 s) {}"

section \<open>Classification\<close>

definition type_tag_for :: "rdb_entry \<Rightarrow> type_tag option" where
  "type_tag_for e =
     (case e_value e of
        VString d \<Rightarrow> if is_hll d then Some THyperLogLog else Some TString
      | VList _ \<Rightarrow> Some TList
      | VSet _ \<Rightarrow> Some TSet
      | VSortedSet _ \<Rightarrow> Some TSortedSet
      | VHash _ \<Rightarrow> Some THash
      | VModule _ \<Rightarrow> Some TModule
      | VStream _ \<Rightarrow> Some TStream)"

definition expected_row_count :: "rdb_entry \<Rightarrow> u64" where
  "expected_row_count e =
     (case e_value e of
        VString _ \<Rightarrow> 1
      | VList xs \<Rightarrow> word_of_nat (max (length xs) 1)
      | VSet xs \<Rightarrow> word_of_nat (max (length xs) 1)
      | VSortedSet xs \<Rightarrow> word_of_nat (max (length xs) 1)
      | VHash xs \<Rightarrow> word_of_nat (max (length xs) 1)
      | VModule d \<Rightarrow> word_of_nat (max (length (m_values d)) 1)
      | VStream d \<Rightarrow>
          let t = sum_list (List.map (\<lambda>se. max (length (se_fields se)) 1) (sd_entries d)) in
          word_of_nat (max t 1))"

definition is_geo_entry :: "rdb_entry \<Rightarrow> bool" where
  "is_geo_entry e =
     (if e_total_elements e \<noteq> None then False
      else case e_value e of VSortedSet ms \<Rightarrow> is_geo ms | _ \<Rightarrow> False)"

definition should_emit_geo :: "heuristic set \<Rightarrow> type_tag \<Rightarrow> rdb_entry \<Rightarrow> bool" where
  "should_emit_geo hs tag e \<longleftrightarrow> HGeo \<in> hs \<and> tag = TSortedSet \<and> is_geo_entry e"

section \<open>Schemas\<close>

datatype data_type = UInt8 | UInt32 | UInt64 | Int64 | Float64 | Binary | Utf8

record field =
  fd_name :: string
  fd_type :: data_type
  fd_nullable :: bool

definition field_new :: "string \<Rightarrow> data_type \<Rightarrow> bool \<Rightarrow> field" where
  "field_new n t b = \<lparr>fd_name = n, fd_type = t, fd_nullable = b\<rparr>"

type_synonym schema = "field list"

definition common_fields :: schema where
  "common_fields =
     [field_new ''db'' UInt32 False,
      field_new ''key'' Binary False,
      field_new ''type'' Utf8 False,
      field_new ''expiry_ms'' Int64 True,
      field_new ''lru_idle_secs'' UInt64 True,
      field_new ''lfu_frequency'' UInt8 True,
      field_new ''encoding'' Utf8 False,
      field_new ''num_elements'' UInt64 False]"

definition string_schema :: schema where
  "string_schema = common_fields @ [field_new ''value'' Binary False]"

definition list_schema :: schema where
  "list_schema = common_fields @
     [field_new ''index'' UInt64 True, field_new ''element'' Binary True]"

definition set_schema :: schema where
  "set_schema = common_fields @ [field_new ''member'' Binary True]"

definition sorted_set_schema :: schema where
  "sorted_set_schema = common_fields @
     [field_new ''member'' Binary True, field_new ''score'' Float64 True]"

definition hash_schema :: schema where
  "hash_schema = common_fields @
     [field_new ''field'' Binary True, field_new ''field_value'' Binary True,
      field_new ''field_expiry_ms'' Int64 True]"

definition geo_schema :: schema where
  "geo_schema = common_fields @
     [field_new ''member'' Binary True, field_new ''longitude'' Float64 True,
      field_new ''latitude'' Float64 True, field_new ''geohash_score'' Float64 True]"

definition hll_schema :: schema where
  "hll_schema = common_fields @
     [field_new ''hll_encoding'' Utf8 False, field_new ''cached_cardinality'' Int64 False,
      field_new ''raw_value'' Binary False]"

definition module_schema :: schema where
  "module_schema = common_fields @
     [field_new ''module_name'' Utf8 False, field_new ''module_version'' UInt32 False,
      field_new ''value_index'' UInt32 False, field_new ''opcode'' Utf8 False,
      field_new ''int_value'' UInt64 True, field_new ''double_value'' Float64 True,
      field_new ''string_value'' Binary True]"

definition stream_schema :: schema where
  "stream_schema = common_fields @
     [field_new ''stream_id'' Utf8 True, field_new ''field'' Binary True,
      field_new ''field_value'' Binary True]"

definition schema_for :: "type_tag \<Rightarrow> schema" where
  "schema_for tag =
     (case tag of
        TString \<Rightarrow> string_schema | TList \<Rightarrow> list_schema | TSet \<Rightarrow> set_schema
      | TSortedSet \<Rightarrow> sorted_set_schema | THash \<Rightarrow> hash_schema | TGeo \<Rightarrow> geo_schema
      | THyperLogLog \<Rightarrow> hll_schema | TModule \<Rightarrow> module_schema | TStream \<Rightarrow> stream_schema)"

text \<open>
  The cache is filled once with constants, so it is a constant here.  It is indexed by the
  position of the tag in \<open>tag_all\<close>; a tag that is not there, or an index past the end,
  would panic.
\<close>

definition schema_cache :: "schema list" where
  "schema_cache =
     [string_schema, list_schema, set_schema, sorted_set_schema, hash_schema, geo_schema,
      hll_schema, module_schema, stream_schema]"

fun position :: "('a \<Rightarrow> bool) \<Rightarrow> 'a list \<Rightarrow> nat option" where
  "position p [] = None"
| "position p (x # xs) = (if p x then Some 0 else map_option Suc (position p xs))"

definition schema_arc :: "type_tag \<Rightarrow> (schema, 'e) res" where
  "schema_arc tag =
     (case position (\<lambda>t. t = tag) tag_all of
        None \<Rightarrow> Panic
      | Some i \<Rightarrow> idx schema_cache i)"

section \<open>Facts\<close>

lemma tag_all_UNIV: "set tag_all = UNIV"
proof
  show "UNIV \<subseteq> set tag_all"
  proof
    show "t \<in> set tag_all" for t by (cases t) (simp_all add: tag_all_def)
  qed
qed simp

lemma tag_all_sorted: "sorted tag_all" "distinct tag_all"
  by (simp_all add: tag_all_def less_eq_type_tag_def)

lemma schema_arc_ok [simp]: "schema_arc tag = Ok (schema_for tag)"
  by (cases tag) (simp_all add: schema_arc_def tag_all_def schema_cache_def schema_for_def)

lemma type_tag_for_some: "\<exists>t. type_tag_for e = Some t \<and> t \<noteq> TGeo"
  by (auto simp: type_tag_for_def split: rdb_value.splits)

lemma parse_names_ok:
  "(\<And>n. n \<in> set ns \<Longrightarrow> from (trim n) = Some (f n)) \<Longrightarrow>
   parse_names from unknown ns acc = Ok (f ` set ns \<union> acc)"
  by (induction ns arbitrary: acc) auto

lemma parse_names_err:
  "from (trim n) = None \<Longrightarrow> (\<And>m. m \<in> set ms \<Longrightarrow> from (trim m) \<noteq> None) \<Longrightarrow>
   parse_names from unknown (ms @ n # ns) acc = Err (unknown (trim n))"
proof (induction ms arbitrary: acc)
  case (Cons m ms)
  from Cons.prems(2) [of m] obtain x where "from (trim m) = Some x" by auto
  with Cons show ?case by simp
qed simp

lemma tag_name_plain:
  "plain (str_bytes (tag_as_str t))" "44 \<notin> set (str_bytes (tag_as_str t))"
  by (cases t; simp add: tag_as_str_def str_bytes_def plain_def)+

lemma tag_from_as_str [simp]: "tag_from_cli_name (str_bytes (tag_as_str t)) = Some t"
  by (cases t)
    (simp_all add: tag_from_cli_name_def tag_as_str_def to_ascii_lowercase_def str_bytes_def
      ascii_lower_def)

lemma tag_parse_join:
  assumes "ts \<noteq> []"
  shows "tag_parse_set (join_with 44 (List.map (\<lambda>t. str_bytes (tag_as_str t)) ts)) = Ok (set ts)"
proof -
  have "split_on 44 (join_with 44 (List.map (\<lambda>t. str_bytes (tag_as_str t)) ts)) =
        List.map (\<lambda>t. str_bytes (tag_as_str t)) ts"
    by (rule split_join) (use assms tag_name_plain in auto)
  then show ?thesis
    unfolding tag_parse_set_def
    by (subst parse_names_ok [where f = "\<lambda>n. the (tag_from_cli_name n)"])
      (auto simp: tag_name_plain image_image)
qed

lemma heuristic_sets: "hs = {} \<or> hs = {HGeo}"
  by (metis (full_types) heuristic.exhaust insertI1 insert_absorb is_singletonI'
      is_singleton_def singletonD)

lemma heuristic_round: "heuristic_parse_set (heuristic_format_set hs) = Ok hs"
proof -
  have "heuristic_parse_set (heuristic_format_set {}) = Ok {}"
    by (simp add: heuristic_parse_set_def heuristic_format_set_def eq_ignore_ascii_case_def
        str_bytes_def ascii_lower_def)
  moreover have "heuristic_parse_set (heuristic_format_set {HGeo}) = Ok {HGeo}"
    by (simp add: heuristic_parse_set_def heuristic_format_set_def heuristic_all_def
        heuristic_as_str_def heuristic_from_name_def eq_ignore_ascii_case_def
        str_bytes_def ascii_lower_def plain_def)
  ultimately show ?thesis using heuristic_sets [of hs] by metis
qed

end
