(* ===== verification/Arrow_Types.thy ===== *)
theory Arrow_Types
  imports Arrow_Schema
begin

text \<open>
  What the conversion exchanges with the \<open>arrow\<close> crate, and \<open>error.rs\<close>.  A column builder
  is the list of the cells appended since its last \<open>finish\<close> (\<open>None\<close> for a null), an array is
  a finished list with its type, a record batch is a schema with its arrays.
  \<open>RecordBatch::try_new\<close> is a parameter of the model; \<open>try_new_accepts\<close> states what its
  documentation promises.  On the other side are rows: \<open>depicts\<close> relates the columns of a
  schema to the list of rows they hold, and \<open>batch_rows\<close> reads the rows back.
\<close>

section \<open>Column builders and arrays\<close>

type_synonym 'a column = "'a option list"

definition append_value :: "'a column \<Rightarrow> 'a \<Rightarrow> 'a column" where
  "append_value xs v = xs @ [Some v]"

definition append_null :: "'a column \<Rightarrow> 'a column" where
  "append_null xs = xs @ [None]"

datatype array =
    UInt8Array "u8 column"
  | UInt32Array "u32 column"
  | UInt64Array "u64 column"
  | Int64Array "i64 column"
  | Float64Array "f64 column"
  | BinaryArray "bytes column"
  | StringArray "bytes column"

fun array_type :: "array \<Rightarrow> data_type" where
  "array_type (UInt8Array _) = UInt8"
| "array_type (UInt32Array _) = UInt32"
| "array_type (UInt64Array _) = UInt64"
| "array_type (Int64Array _) = Int64"
| "array_type (Float64Array _) = Float64"
| "array_type (BinaryArray _) = Binary"
| "array_type (StringArray _) = Utf8"

datatype cell =
  Null | CU8 u8 | CU32 u32 | CU64 u64 | CI64 i64 | CF64 f64 | CBin bytes | CStr bytes

type_synonym row = "cell list"

definition opt_cell :: "('a \<Rightarrow> cell) \<Rightarrow> 'a option \<Rightarrow> cell" where
  "opt_cell c x = (case x of None \<Rightarrow> Null | Some v \<Rightarrow> c v)"

lemma opt_cell_simps [simp]: "opt_cell c None = Null" "opt_cell c (Some v) = c v"
  by (simp_all add: opt_cell_def)

fun cells :: "array \<Rightarrow> cell list" where
  "cells (UInt8Array xs) = List.map (opt_cell CU8) xs"
| "cells (UInt32Array xs) = List.map (opt_cell CU32) xs"
| "cells (UInt64Array xs) = List.map (opt_cell CU64) xs"
| "cells (Int64Array xs) = List.map (opt_cell CI64) xs"
| "cells (Float64Array xs) = List.map (opt_cell CF64) xs"
| "cells (BinaryArray xs) = List.map (opt_cell CBin) xs"
| "cells (StringArray xs) = List.map (opt_cell CStr) xs"

section \<open>Errors and record batches\<close>

text \<open>The errors of other crates are kept as their text.\<close>

datatype convert_error =
    Parser rdb_error
  | Arrow string
  | Parquet string
  | Convert_Io string

record record_batch =
  rb_schema :: schema
  rb_columns :: "array list"

type_synonym try_new = "schema \<Rightarrow> array list \<Rightarrow> (record_batch, string) res"

definition num_rows :: "record_batch \<Rightarrow> nat" where
  "num_rows rb = (case rb_columns rb of [] \<Rightarrow> 0 | c # _ \<Rightarrow> length (cells c))"

text \<open>
  The documented conditions of \<open>RecordBatch::try_new\<close>: at least one column, as many columns as
  fields, each of its field's type, all of the same length, and no null where the field is
  not nullable.
\<close>

definition conforms :: "schema \<Rightarrow> array list \<Rightarrow> bool" where
  "conforms s cols \<longleftrightarrow>
     cols \<noteq> [] \<and> List.map array_type cols = List.map fd_type s \<and>
     (\<forall>c \<in> set cols. length (cells c) = length (cells (hd cols))) \<and>
     list_all2 (\<lambda>f c. fd_nullable f \<or> Null \<notin> set (cells c)) s cols"

definition try_new_accepts :: "try_new \<Rightarrow> bool" where
  "try_new_accepts tn \<longleftrightarrow>
     (\<forall>s cols. conforms s cols \<longrightarrow> tn s cols = Ok \<lparr>rb_schema = s, rb_columns = cols\<rparr>)"

text \<open>A function of this kind, which also rejects whatever does not conform.\<close>

definition strict_try_new :: try_new where
  "strict_try_new s cols =
     (if conforms s cols then Ok \<lparr>rb_schema = s, rb_columns = cols\<rparr> else Err ''schema mismatch'')"

lemma strict_try_new_accepts: "try_new_accepts strict_try_new"
  by (simp add: try_new_accepts_def strict_try_new_def)

text \<open>How every builder ends: the cached schema, then \<open>try_new\<close>, its error converted by \<open>?\<close>.\<close>

definition make_batch ::
  "try_new \<Rightarrow> type_tag \<Rightarrow> array list \<Rightarrow> (record_batch, convert_error) res" where
  "make_batch tn tag cols =
     and_then (schema_arc tag) (\<lambda>s. and_then (map_err Arrow (tn s cols)) Ok)"

section \<open>Rows\<close>

definition row_ok :: "schema \<Rightarrow> row \<Rightarrow> bool" where
  "row_ok s r \<longleftrightarrow> list_all2 (\<lambda>f c. fd_nullable f \<or> c \<noteq> Null) s r"

definition depicts :: "schema \<Rightarrow> array list \<Rightarrow> row list \<Rightarrow> bool" where
  "depicts s cols rows \<longleftrightarrow>
     List.map array_type cols = List.map fd_type s \<and>
     List.map cells cols = List.map (\<lambda>i. List.map (\<lambda>r. r ! i) rows) [0..<length s] \<and>
     (\<forall>r \<in> set rows. row_ok s r)"

definition batch_rows :: "record_batch \<Rightarrow> row list" where
  "batch_rows rb =
     List.map (\<lambda>i. List.map (\<lambda>c. cells c ! i) (rb_columns rb)) [0..<num_rows rb]"

lemma depicts_shape:
  assumes "depicts s cols rows"
  shows "length cols = length s"
    and "i < length s \<Longrightarrow> cells (cols ! i) = List.map (\<lambda>r. r ! i) rows"
    and "r \<in> set rows \<Longrightarrow> length r = length s"
    and "r \<in> set rows \<Longrightarrow> i < length s \<Longrightarrow> fd_nullable (s ! i) \<or> r ! i \<noteq> Null"
proof -
  show len: "length cols = length s"
    using assms by (auto simp: depicts_def dest: map_eq_imp_length_eq)
  show "cells (cols ! i) = List.map (\<lambda>r. r ! i) rows" if "i < length s"
  proof -
    have "List.map cells cols ! i = List.map (\<lambda>i. List.map (\<lambda>r. r ! i) rows) [0..<length s] ! i"
      using assms by (simp add: depicts_def)
    then show ?thesis using that len by simp
  qed
  show "length r = length s" if "r \<in> set rows"
  proof -
    have "row_ok s r" using assms that by (simp add: depicts_def)
    then show ?thesis by (simp add: row_ok_def list_all2_conv_all_nth)
  qed
  show "fd_nullable (s ! i) \<or> r ! i \<noteq> Null" if "r \<in> set rows" "i < length s"
  proof -
    have "row_ok s r" using assms that by (simp add: depicts_def)
    then show ?thesis using that by (simp add: row_ok_def list_all2_conv_all_nth)
  qed
qed

lemma depicts_conforms:
  assumes "depicts s cols rows" "s \<noteq> []"
  shows "conforms s cols"
proof -
  note sh = depicts_shape [OF assms(1)]
  have "length (cells c) = length rows" if "c \<in> set cols" for c
    using that sh(1,2) by (auto simp: in_set_conv_nth)
  moreover have "list_all2 (\<lambda>f c. fd_nullable f \<or> Null \<notin> set (cells c)) s cols"
    using sh(1,2,4) by (fastforce simp: list_all2_conv_all_nth)
  ultimately show ?thesis
    using assms by (cases cols) (auto simp: conforms_def depicts_def)
qed

lemma depicts_batch_rows:
  assumes "depicts s (rb_columns rb) rows" "s \<noteq> []"
  shows "batch_rows rb = rows" "num_rows rb = length rows"
proof -
  note len = depicts_shape(1) [OF assms(1)] and col = depicts_shape(2) [OF assms(1)]
    and rl = depicts_shape(3) [OF assms(1)]
  show n: "num_rows rb = length rows"
    using len col [of 0] assms(2) by (cases "rb_columns rb") (auto simp: num_rows_def)
  show "batch_rows rb = rows"
  proof (rule nth_equalityI)
    show "length (batch_rows rb) = length rows" by (simp add: batch_rows_def n)
    fix i assume "i < length (batch_rows rb)"
    then have i: "i < length rows" by (simp add: batch_rows_def n)
    have "List.map (\<lambda>c. cells c ! i) (rb_columns rb) = rows ! i"
      by (rule nth_equalityI) (use i in \<open>simp_all add: len rl col\<close>)
    then show "batch_rows rb ! i = rows ! i"
      using i by (simp add: batch_rows_def n)
  qed
qed

lemma schema_for_not_Nil: "schema_for tag \<noteq> []"
  by (cases tag)
    (simp_all add: schema_for_def string_schema_def list_schema_def set_schema_def
      sorted_set_schema_def hash_schema_def geo_schema_def hll_schema_def module_schema_def
      stream_schema_def)

lemma make_batch_ok:
  assumes "try_new_accepts tn" "depicts (schema_for tag) cols rows"
  shows "make_batch tn tag cols = Ok \<lparr>rb_schema = schema_for tag, rb_columns = cols\<rparr>"
  using assms depicts_conforms [OF assms(2) schema_for_not_Nil]
  by (simp add: make_batch_def try_new_accepts_def)

lemma make_batch_no_panic [no_panic]:
  "tn (schema_for tag) cols \<noteq> Panic \<Longrightarrow> make_batch tn tag cols \<noteq> Panic"
  by (cases "tn (schema_for tag) cols") (simp_all add: make_batch_def)

end
