(* ===== verification/Builders_Common.thy ===== *)
theory Builders_Common
  imports Arrow_Types
begin

text \<open>
  \<open>crates/rdb-to-arrow/src/builders.rs\<close>: the builder of the common columns, which also
  holds the row counter and the byte counter, and the specification of the nine per-type
  builders, row by row: \<open>entry_rows tag e\<close> are the rows entry \<open>e\<close> becomes in the batch of
  \<open>tag\<close>, \<open>entry_bytes tag e\<close> the bytes it counts.
\<close>

section \<open>The common columns\<close>

record common_builder =
  cb_db :: "u32 column"
  cb_key :: "bytes column"
  cb_type_col :: "bytes column"
  cb_expiry_ms :: "i64 column"
  cb_lru_idle_secs :: "u64 column"
  cb_lfu_frequency :: "u8 column"
  cb_encoding :: "bytes column"
  cb_num_elements :: "u64 column"
  cb_len :: usize
  cb_data_bytes :: usize

definition common_new :: common_builder where
  "common_new =
     \<lparr>cb_db = [], cb_key = [], cb_type_col = [], cb_expiry_ms = [], cb_lru_idle_secs = [],
      cb_lfu_frequency = [], cb_encoding = [], cb_num_elements = [], cb_len = 0,
      cb_data_bytes = 0\<rparr>"

definition common_append ::
  "common_builder \<Rightarrow> rdb_entry \<Rightarrow> u64 \<Rightarrow> bytes \<Rightarrow> usize \<Rightarrow> common_builder" where
  "common_append b e n type_str type_specific_bytes =
     b\<lparr>cb_db := append_value (cb_db b) (e_db e),
       cb_key := append_value (cb_key b) (e_key e),
       cb_type_col := append_value (cb_type_col b) type_str,
       cb_expiry_ms := (case e_expiry_ms e of
          Some v \<Rightarrow> append_value (cb_expiry_ms b) v | None \<Rightarrow> append_null (cb_expiry_ms b)),
       cb_lru_idle_secs := (case e_lru_idle_secs e of
          Some v \<Rightarrow> append_value (cb_lru_idle_secs b) v | None \<Rightarrow> append_null (cb_lru_idle_secs b)),
       cb_lfu_frequency := (case e_lfu_frequency e of
          Some v \<Rightarrow> append_value (cb_lfu_frequency b) v | None \<Rightarrow> append_null (cb_lfu_frequency b)),
       cb_encoding := append_value (cb_encoding b) (str_bytes (entry_encoding_name e)),
       cb_num_elements := append_value (cb_num_elements b) n,
       cb_len := cb_len b + 1,
       cb_data_bytes := cb_data_bytes b + (length (e_key e) + type_specific_bytes)\<rparr>"

definition common_is_empty :: "common_builder \<Rightarrow> bool" where
  "common_is_empty b \<longleftrightarrow> cb_len b = 0"

definition common_arrays :: "common_builder \<Rightarrow> array list" where
  "common_arrays b =
     [UInt32Array (cb_db b), BinaryArray (cb_key b), StringArray (cb_type_col b),
      Int64Array (cb_expiry_ms b), UInt64Array (cb_lru_idle_secs b),
      UInt8Array (cb_lfu_frequency b), StringArray (cb_encoding b),
      UInt64Array (cb_num_elements b)]"

definition common_finish :: "common_builder \<Rightarrow> array list \<times> common_builder" where
  "common_finish b =
     (common_arrays b,
      b\<lparr>cb_db := [], cb_key := [], cb_type_col := [], cb_expiry_ms := [], cb_lru_idle_secs := [],
        cb_lfu_frequency := [], cb_encoding := [], cb_num_elements := [],
        cb_len := 0, cb_data_bytes := 0\<rparr>)"

lemma common_finish_simp [simp]: "common_finish b = (common_arrays b, common_new)"
  by (simp add: common_finish_def common_new_def)

section \<open>Rows of an entry\<close>

definition common_cells :: "rdb_entry \<Rightarrow> u64 \<Rightarrow> bytes \<Rightarrow> row" where
  "common_cells e n ty =
     [CU32 (e_db e), CBin (e_key e), CStr ty, opt_cell CI64 (e_expiry_ms e),
      opt_cell CU64 (e_lru_idle_secs e), opt_cell CU8 (e_lfu_frequency e),
      CStr (str_bytes (entry_encoding_name e)), CU64 n]"

definition type_bytes :: "rdb_entry \<Rightarrow> bytes" where
  "type_bytes e = str_bytes (entry_type_name e)"

text \<open>\<open>total_elements.unwrap_or(len)\<close>, and \<open>u64::saturating_add\<close>.\<close>

definition count_of :: "rdb_entry \<Rightarrow> nat \<Rightarrow> u64" where
  "count_of e n = (case e_total_elements e of Some t \<Rightarrow> t | None \<Rightarrow> word_of_nat n)"

definition sat_add :: "u64 \<Rightarrow> u64 \<Rightarrow> u64" where
  "sat_add a b = (if unat a + unat b < 2 ^ 64 then a + b else 2 ^ 64 - 1)"

definition offset_of :: "rdb_entry \<Rightarrow> u64" where
  "offset_of e = (case e_element_offset e of Some o' \<Rightarrow> o' | None \<Rightarrow> 0)"

definition module_opcode :: "module_value \<Rightarrow> string" where
  "module_opcode v =
     (case v of
        SignedInt _ \<Rightarrow> ''sint'' | UnsignedInt _ \<Rightarrow> ''uint'' | MFloat _ \<Rightarrow> ''float''
      | MDouble _ \<Rightarrow> ''double'' | MString _ \<Rightarrow> ''string'')"

definition EMPTY_MODULE_OPCODE :: string where
  "EMPTY_MODULE_OPCODE = ''eof''"

text \<open>A row per element; an empty collection is one row of nulls with the count 0.\<close>

definition element_rows ::
  "rdb_entry \<Rightarrow> bytes \<Rightarrow> row \<Rightarrow> (nat \<Rightarrow> 'a \<Rightarrow> row) \<Rightarrow> 'a list \<Rightarrow> row list" where
  "element_rows e ty nulls f xs =
     (if xs = [] then [common_cells e 0 ty @ nulls]
      else List.map (\<lambda>(i, x). common_cells e (count_of e (length xs)) ty @ f i x) (enumerate 0 xs))"

definition geo_cells :: "bytes \<times> f64 \<Rightarrow> row" where
  "geo_cells = (\<lambda>(m, s).
     [CBin m, opt_cell CF64 (map_option fst (geohash_decode s)),
      opt_cell CF64 (map_option snd (geohash_decode s)), CF64 s])"

definition module_cells :: "module_data \<Rightarrow> nat \<Rightarrow> module_value \<Rightarrow> row" where
  "module_cells d i v =
     [CStr (m_name d), CU32 (m_version d), CU32 (word_of_nat i), CStr (str_bytes (module_opcode v))] @
     (case v of
        SignedInt n \<Rightarrow> [CU64 (word_of_int n), Null, Null]
      | UnsignedInt n \<Rightarrow> [CU64 n, Null, Null]
      | MFloat x \<Rightarrow> [Null, CF64 (f32_as_f64 x), Null]
      | MDouble x \<Rightarrow> [Null, CF64 x, Null]
      | MString s \<Rightarrow> [Null, Null, CBin s])"

definition stream_count :: "stream_data \<Rightarrow> u64" where
  "stream_count d = (if sd_length d > 0 then sd_length d else word_of_nat (length (sd_entries d)))"

definition stream_entry_cells :: "stream_entry \<Rightarrow> row list" where
  "stream_entry_cells se =
     (if se_fields se = [] then [[CStr (se_id se), Null, Null]]
      else List.map (\<lambda>(f, v). [CStr (se_id se), CBin f, CBin v]) (se_fields se))"

definition stream_rows :: "rdb_entry \<Rightarrow> stream_data \<Rightarrow> row list" where
  "stream_rows e d =
     List.map (\<lambda>r. common_cells e (stream_count d) (str_bytes ''stream'') @ r)
       (if sd_entries d = [] then [[Null, Null, Null]]
        else List.concat (List.map stream_entry_cells (sd_entries d)))"

definition entry_rows :: "type_tag \<Rightarrow> rdb_entry \<Rightarrow> row list" where
  "entry_rows tag e =
     (case (tag, e_value e) of
        (TString, VString v) \<Rightarrow> [common_cells e 1 (type_bytes e) @ [CBin v]]
      | (TList, VList xs) \<Rightarrow>
          element_rows e (type_bytes e) [Null, Null]
            (\<lambda>i x. [CU64 (sat_add (offset_of e) (word_of_nat i)), CBin x]) xs
      | (TSet, VSet xs) \<Rightarrow> element_rows e (type_bytes e) [Null] (\<lambda>i x. [CBin x]) xs
      | (TSortedSet, VSortedSet xs) \<Rightarrow>
          element_rows e (type_bytes e) [Null, Null] (\<lambda>i (m, s). [CBin m, CF64 s]) xs
      | (THash, VHash xs) \<Rightarrow>
          element_rows e (type_bytes e) [Null, Null, Null]
            (\<lambda>i hf. [CBin (hf_field hf), CBin (hf_value hf), opt_cell CI64 (hf_expiry_ms hf)]) xs
      | (TGeo, VSortedSet xs) \<Rightarrow>
          element_rows e (str_bytes ''geo'') [Null, Null, Null, Null] (\<lambda>i. geo_cells) xs
      | (THyperLogLog, VString d) \<Rightarrow>
          [common_cells e 1 (str_bytes ''hyperloglog'') @
           [CStr (str_bytes (hll_encoding d)), CI64 (hll_cached_cardinality d), CBin d]]
      | (TModule, VModule d) \<Rightarrow>
          element_rows e (str_bytes ''module'')
            [CStr (m_name d), CU32 (m_version d), CU32 0, CStr (str_bytes EMPTY_MODULE_OPCODE),
             Null, Null, Null]
            (module_cells d) (m_values d)
      | (TStream, VStream d) \<Rightarrow> stream_rows e d
      | _ \<Rightarrow> [])"

section \<open>Bytes of an entry\<close>

definition module_value_bytes :: "module_value \<Rightarrow> usize" where
  "module_value_bytes v =
     (case v of
        SignedInt _ \<Rightarrow> 8 | UnsignedInt _ \<Rightarrow> 8 | MFloat _ \<Rightarrow> 8 | MDouble _ \<Rightarrow> 8
      | MString s \<Rightarrow> length s)"

definition module_opcode_bytes :: "module_value \<Rightarrow> usize" where
  "module_opcode_bytes v = length (module_opcode v)"

definition module_row_bytes :: "module_data \<Rightarrow> module_value \<Rightarrow> usize" where
  "module_row_bytes d v =
     length (m_name d) + 4 + 4 + module_opcode_bytes v + module_value_bytes v"

definition empty_module_row_bytes :: "module_data \<Rightarrow> usize" where
  "empty_module_row_bytes d = length (m_name d) + 4 + 4 + length EMPTY_MODULE_OPCODE"

definition element_bytes :: "rdb_entry \<Rightarrow> ('a \<Rightarrow> usize) \<Rightarrow> 'a list \<Rightarrow> usize" where
  "element_bytes e w xs =
     (if xs = [] then length (e_key e)
      else sum_list (List.map (\<lambda>x. length (e_key e) + w x) xs))"

definition stream_entry_bytes :: "rdb_entry \<Rightarrow> stream_entry \<Rightarrow> usize" where
  "stream_entry_bytes e se =
     (if se_fields se = [] then length (e_key e) + length (se_id se)
      else sum_list (List.map
        (\<lambda>(f, v). length (e_key e) + (length (se_id se) + length f + length v)) (se_fields se)))"

definition entry_bytes :: "type_tag \<Rightarrow> rdb_entry \<Rightarrow> usize" where
  "entry_bytes tag e =
     (case (tag, e_value e) of
        (TString, VString v) \<Rightarrow> length (e_key e) + length v
      | (TList, VList xs) \<Rightarrow> element_bytes e length xs
      | (TSet, VSet xs) \<Rightarrow> element_bytes e length xs
      | (TSortedSet, VSortedSet xs) \<Rightarrow> element_bytes e (\<lambda>(m, s). length m + 8) xs
      | (THash, VHash xs) \<Rightarrow> element_bytes e (\<lambda>hf. length (hf_field hf) + length (hf_value hf)) xs
      | (TGeo, VSortedSet xs) \<Rightarrow> element_bytes e (\<lambda>(m, s). length m + 24) xs
      | (THyperLogLog, VString d) \<Rightarrow> length (e_key e) + length d
      | (TModule, VModule d) \<Rightarrow>
          if m_values d = [] then length (e_key e) + empty_module_row_bytes d
          else element_bytes e (module_row_bytes d) (m_values d)
      | (TStream, VStream d) \<Rightarrow>
          if sd_entries d = [] then length (e_key e)
          else sum_list (List.map (stream_entry_bytes e) (sd_entries d))
      | _ \<Rightarrow> 0)"

end
