(* ===== verification/Builders.thy ===== *)
theory Builders
  imports Builders_Common
begin

text \<open>
  \<open>crates/rdb-to-arrow/src/builders.rs\<close>: the nine per-type builders.  Each is a record of
  the common columns and its own; \<open>push\<close> ignores an entry whose value is of another type.
  The locale \<open>batch_builder\<close> is the trait \<open>BatchBuilder\<close> with its contract, and every
  builder of the code is an interpretation of it: its columns depict the rows of the
  entries pushed, its counters count them, and \<open>finish\<close> hands exactly these columns to
  \<open>try_new\<close> and leaves an empty builder.
\<close>

section \<open>String\<close>

record string_builder =
  sb_common :: common_builder
  sb_value :: "bytes column"

definition string_new :: string_builder where
  "string_new = \<lparr>sb_common = common_new, sb_value = []\<rparr>"

definition string_push :: "string_builder \<Rightarrow> rdb_entry \<Rightarrow> string_builder" where
  "string_push b e =
     (case e_value e of
        VString v \<Rightarrow>
        b\<lparr>sb_common := common_append (sb_common b) e 1 (type_bytes e) (length v),
          sb_value := append_value (sb_value b) v\<rparr>
      | _ \<Rightarrow> b)"

definition string_len :: "string_builder \<Rightarrow> usize" where
  "string_len b = cb_len (sb_common b)"

definition string_is_empty :: "string_builder \<Rightarrow> bool" where
  "string_is_empty b = common_is_empty (sb_common b)"

definition string_data_bytes :: "string_builder \<Rightarrow> usize" where
  "string_data_bytes b = cb_data_bytes (sb_common b)"

definition string_columns :: "string_builder \<Rightarrow> array list" where
  "string_columns b =
     common_arrays (sb_common b) @
     [BinaryArray (sb_value b)]"

definition string_finish ::
  "try_new \<Rightarrow> string_builder \<Rightarrow> (record_batch, convert_error) res \<times> string_builder" where
  "string_finish tn b =
     (case common_finish (sb_common b) of (columns, c) \<Rightarrow>
      let columns = columns @
            [BinaryArray (sb_value b)] in
      (make_batch tn TString columns,
       b\<lparr>sb_common := c, sb_value := []\<rparr>))"

section \<open>List\<close>

record list_builder =
  lb_common :: common_builder
  lb_index :: "u64 column"
  lb_element :: "bytes column"

definition list_new :: list_builder where
  "list_new = \<lparr>lb_common = common_new, lb_index = [], lb_element = []\<rparr>"

definition list_row :: "rdb_entry \<Rightarrow> u64 \<Rightarrow> nat \<times> bytes \<Rightarrow> list_builder \<Rightarrow> list_builder" where
  "list_row e n = (\<lambda>(i, x) b.
     b\<lparr>lb_common := common_append (lb_common b) e n (type_bytes e) (length x),
       lb_index := append_value (lb_index b) (sat_add (offset_of e) (word_of_nat i)),
       lb_element := append_value (lb_element b) x\<rparr>)"

definition list_push :: "list_builder \<Rightarrow> rdb_entry \<Rightarrow> list_builder" where
  "list_push b e =
     (case e_value e of
        VList xs \<Rightarrow>
        if xs = [] then
          b\<lparr>lb_common := common_append (lb_common b) e 0 (type_bytes e) 0,
            lb_index := append_null (lb_index b),
            lb_element := append_null (lb_element b)\<rparr>
        else fold (list_row e (count_of e (length xs))) (enumerate 0 xs) b
      | _ \<Rightarrow> b)"

definition list_len :: "list_builder \<Rightarrow> usize" where
  "list_len b = cb_len (lb_common b)"

definition list_is_empty :: "list_builder \<Rightarrow> bool" where
  "list_is_empty b = common_is_empty (lb_common b)"

definition list_data_bytes :: "list_builder \<Rightarrow> usize" where
  "list_data_bytes b = cb_data_bytes (lb_common b)"

definition list_columns :: "list_builder \<Rightarrow> array list" where
  "list_columns b =
     common_arrays (lb_common b) @
     [UInt64Array (lb_index b), BinaryArray (lb_element b)]"

definition list_finish ::
  "try_new \<Rightarrow> list_builder \<Rightarrow> (record_batch, convert_error) res \<times> list_builder" where
  "list_finish tn b =
     (case common_finish (lb_common b) of (columns, c) \<Rightarrow>
      let columns = columns @
            [UInt64Array (lb_index b), BinaryArray (lb_element b)] in
      (make_batch tn TList columns,
       b\<lparr>lb_common := c, lb_index := [], lb_element := []\<rparr>))"

section \<open>Set\<close>

record set_builder =
  tb_common :: common_builder
  tb_member :: "bytes column"

definition set_new :: set_builder where
  "set_new = \<lparr>tb_common = common_new, tb_member = []\<rparr>"

definition set_row :: "rdb_entry \<Rightarrow> u64 \<Rightarrow> bytes \<Rightarrow> set_builder \<Rightarrow> set_builder" where
  "set_row e n = (\<lambda>x b.
     b\<lparr>tb_common := common_append (tb_common b) e n (type_bytes e) (length x),
       tb_member := append_value (tb_member b) x\<rparr>)"

definition set_push :: "set_builder \<Rightarrow> rdb_entry \<Rightarrow> set_builder" where
  "set_push b e =
     (case e_value e of
        VSet xs \<Rightarrow>
        if xs = [] then
          b\<lparr>tb_common := common_append (tb_common b) e 0 (type_bytes e) 0,
            tb_member := append_null (tb_member b)\<rparr>
        else fold (set_row e (count_of e (length xs))) xs b
      | _ \<Rightarrow> b)"

definition set_len :: "set_builder \<Rightarrow> usize" where
  "set_len b = cb_len (tb_common b)"

definition set_is_empty :: "set_builder \<Rightarrow> bool" where
  "set_is_empty b = common_is_empty (tb_common b)"

definition set_data_bytes :: "set_builder \<Rightarrow> usize" where
  "set_data_bytes b = cb_data_bytes (tb_common b)"

definition set_columns :: "set_builder \<Rightarrow> array list" where
  "set_columns b =
     common_arrays (tb_common b) @
     [BinaryArray (tb_member b)]"

definition set_finish ::
  "try_new \<Rightarrow> set_builder \<Rightarrow> (record_batch, convert_error) res \<times> set_builder" where
  "set_finish tn b =
     (case common_finish (tb_common b) of (columns, c) \<Rightarrow>
      let columns = columns @
            [BinaryArray (tb_member b)] in
      (make_batch tn TSet columns,
       b\<lparr>tb_common := c, tb_member := []\<rparr>))"

section \<open>Sorted set\<close>

record zset_builder =
  zb_common :: common_builder
  zb_member :: "bytes column"
  zb_score :: "f64 column"

definition zset_new :: zset_builder where
  "zset_new = \<lparr>zb_common = common_new, zb_member = [], zb_score = []\<rparr>"

definition zset_row :: "rdb_entry \<Rightarrow> u64 \<Rightarrow> bytes \<times> f64 \<Rightarrow> zset_builder \<Rightarrow> zset_builder" where
  "zset_row e n = (\<lambda>(m, s) b.
     b\<lparr>zb_common := common_append (zb_common b) e n (type_bytes e) (length m + 8),
       zb_member := append_value (zb_member b) m,
       zb_score := append_value (zb_score b) s\<rparr>)"

definition zset_push :: "zset_builder \<Rightarrow> rdb_entry \<Rightarrow> zset_builder" where
  "zset_push b e =
     (case e_value e of
        VSortedSet xs \<Rightarrow>
        if xs = [] then
          b\<lparr>zb_common := common_append (zb_common b) e 0 (type_bytes e) 0,
            zb_member := append_null (zb_member b),
            zb_score := append_null (zb_score b)\<rparr>
        else fold (zset_row e (count_of e (length xs))) xs b
      | _ \<Rightarrow> b)"

definition zset_len :: "zset_builder \<Rightarrow> usize" where
  "zset_len b = cb_len (zb_common b)"

definition zset_is_empty :: "zset_builder \<Rightarrow> bool" where
  "zset_is_empty b = common_is_empty (zb_common b)"

definition zset_data_bytes :: "zset_builder \<Rightarrow> usize" where
  "zset_data_bytes b = cb_data_bytes (zb_common b)"

definition zset_columns :: "zset_builder \<Rightarrow> array list" where
  "zset_columns b =
     common_arrays (zb_common b) @
     [BinaryArray (zb_member b), Float64Array (zb_score b)]"

definition zset_finish ::
  "try_new \<Rightarrow> zset_builder \<Rightarrow> (record_batch, convert_error) res \<times> zset_builder" where
  "zset_finish tn b =
     (case common_finish (zb_common b) of (columns, c) \<Rightarrow>
      let columns = columns @
            [BinaryArray (zb_member b), Float64Array (zb_score b)] in
      (make_batch tn TSortedSet columns,
       b\<lparr>zb_common := c, zb_member := [], zb_score := []\<rparr>))"

section \<open>Hash\<close>

record hash_builder =
  hb_common :: common_builder
  hb_field :: "bytes column"
  hb_field_value :: "bytes column"
  hb_field_expiry_ms :: "i64 column"

definition hash_new :: hash_builder where
  "hash_new = \<lparr>hb_common = common_new, hb_field = [], hb_field_value = [],
    hb_field_expiry_ms = []\<rparr>"

definition hash_row :: "rdb_entry \<Rightarrow> u64 \<Rightarrow> hash_field \<Rightarrow> hash_builder \<Rightarrow> hash_builder" where
  "hash_row e n = (\<lambda>hf b.
     b\<lparr>hb_common := common_append (hb_common b) e n (type_bytes e) (length (hf_field hf) + length
          (hf_value hf)),
       hb_field := append_value (hb_field b) (hf_field hf),
       hb_field_value := append_value (hb_field_value b) (hf_value hf),
       hb_field_expiry_ms := (case hf_expiry_ms hf of
            Some v \<Rightarrow> append_value (hb_field_expiry_ms b) v | None \<Rightarrow> append_null (hb_field_expiry_ms b))\<rparr>)"

definition hash_push :: "hash_builder \<Rightarrow> rdb_entry \<Rightarrow> hash_builder" where
  "hash_push b e =
     (case e_value e of
        VHash xs \<Rightarrow>
        if xs = [] then
          b\<lparr>hb_common := common_append (hb_common b) e 0 (type_bytes e) 0,
            hb_field := append_null (hb_field b),
            hb_field_value := append_null (hb_field_value b),
            hb_field_expiry_ms := append_null (hb_field_expiry_ms b)\<rparr>
        else fold (hash_row e (count_of e (length xs))) xs b
      | _ \<Rightarrow> b)"

definition hash_len :: "hash_builder \<Rightarrow> usize" where
  "hash_len b = cb_len (hb_common b)"

definition hash_is_empty :: "hash_builder \<Rightarrow> bool" where
  "hash_is_empty b = common_is_empty (hb_common b)"

definition hash_data_bytes :: "hash_builder \<Rightarrow> usize" where
  "hash_data_bytes b = cb_data_bytes (hb_common b)"

definition hash_columns :: "hash_builder \<Rightarrow> array list" where
  "hash_columns b =
     common_arrays (hb_common b) @
     [BinaryArray (hb_field b), BinaryArray (hb_field_value b),
      Int64Array (hb_field_expiry_ms b)]"

definition hash_finish ::
  "try_new \<Rightarrow> hash_builder \<Rightarrow> (record_batch, convert_error) res \<times> hash_builder" where
  "hash_finish tn b =
     (case common_finish (hb_common b) of (columns, c) \<Rightarrow>
      let columns = columns @
            [BinaryArray (hb_field b), BinaryArray (hb_field_value b),
             Int64Array (hb_field_expiry_ms b)] in
      (make_batch tn THash columns,
       b\<lparr>hb_common := c, hb_field := [], hb_field_value := [], hb_field_expiry_ms := []\<rparr>))"

section \<open>Geo\<close>

record geo_builder =
  gb_common :: common_builder
  gb_member :: "bytes column"
  gb_longitude :: "f64 column"
  gb_latitude :: "f64 column"
  gb_geohash_score :: "f64 column"

definition geo_new :: geo_builder where
  "geo_new = \<lparr>gb_common = common_new, gb_member = [], gb_longitude = [], gb_latitude = [],
    gb_geohash_score = []\<rparr>"

definition geo_row :: "rdb_entry \<Rightarrow> u64 \<Rightarrow> bytes \<times> f64 \<Rightarrow> geo_builder \<Rightarrow> geo_builder" where
  "geo_row e n = (\<lambda>(m, s) b.
     b\<lparr>gb_common := common_append (gb_common b) e n (str_bytes ''geo'') (length m + 24),
       gb_member := append_value (gb_member b) m,
       gb_longitude := (case geohash_decode s of
            Some (lng,
              lat) \<Rightarrow> append_value (gb_longitude b) lng | None \<Rightarrow> append_null (gb_longitude b)),
       gb_latitude := (case geohash_decode s of
            Some (lng,
              lat) \<Rightarrow> append_value (gb_latitude b) lat | None \<Rightarrow> append_null (gb_latitude b)),
       gb_geohash_score := append_value (gb_geohash_score b) s\<rparr>)"

definition geo_push :: "geo_builder \<Rightarrow> rdb_entry \<Rightarrow> geo_builder" where
  "geo_push b e =
     (case e_value e of
        VSortedSet xs \<Rightarrow>
        if xs = [] then
          b\<lparr>gb_common := common_append (gb_common b) e 0 (str_bytes ''geo'') 0,
            gb_member := append_null (gb_member b),
            gb_longitude := append_null (gb_longitude b),
            gb_latitude := append_null (gb_latitude b),
            gb_geohash_score := append_null (gb_geohash_score b)\<rparr>
        else fold (geo_row e (count_of e (length xs))) xs b
      | _ \<Rightarrow> b)"

definition geo_len :: "geo_builder \<Rightarrow> usize" where
  "geo_len b = cb_len (gb_common b)"

definition geo_is_empty :: "geo_builder \<Rightarrow> bool" where
  "geo_is_empty b = common_is_empty (gb_common b)"

definition geo_data_bytes :: "geo_builder \<Rightarrow> usize" where
  "geo_data_bytes b = cb_data_bytes (gb_common b)"

definition geo_columns :: "geo_builder \<Rightarrow> array list" where
  "geo_columns b =
     common_arrays (gb_common b) @
     [BinaryArray (gb_member b), Float64Array (gb_longitude b), Float64Array (gb_latitude b),
      Float64Array (gb_geohash_score b)]"

definition geo_finish ::
  "try_new \<Rightarrow> geo_builder \<Rightarrow> (record_batch, convert_error) res \<times> geo_builder" where
  "geo_finish tn b =
     (case common_finish (gb_common b) of (columns, c) \<Rightarrow>
      let columns = columns @
            [BinaryArray (gb_member b), Float64Array (gb_longitude b),
             Float64Array (gb_latitude b), Float64Array (gb_geohash_score b)] in
      (make_batch tn TGeo columns,
       b\<lparr>gb_common := c, gb_member := [], gb_longitude := [], gb_latitude := [],
        gb_geohash_score := []\<rparr>))"

section \<open>HyperLogLog\<close>

record hll_builder =
  yb_common :: common_builder
  yb_hll_encoding :: "bytes column"
  yb_cached_cardinality :: "i64 column"
  yb_raw_value :: "bytes column"

definition hll_new :: hll_builder where
  "hll_new = \<lparr>yb_common = common_new, yb_hll_encoding = [], yb_cached_cardinality = [],
    yb_raw_value = []\<rparr>"

definition hll_push :: "hll_builder \<Rightarrow> rdb_entry \<Rightarrow> hll_builder" where
  "hll_push b e =
     (case e_value e of
        VString d \<Rightarrow>
        b\<lparr>yb_common := common_append (yb_common b) e 1 (str_bytes ''hyperloglog'') (length d),
          yb_hll_encoding := append_value (yb_hll_encoding b) (str_bytes (hll_encoding d)),
          yb_cached_cardinality := append_value (yb_cached_cardinality b) (hll_cached_cardinality d),
          yb_raw_value := append_value (yb_raw_value b) d\<rparr>
      | _ \<Rightarrow> b)"

definition hll_len :: "hll_builder \<Rightarrow> usize" where
  "hll_len b = cb_len (yb_common b)"

definition hll_is_empty :: "hll_builder \<Rightarrow> bool" where
  "hll_is_empty b = common_is_empty (yb_common b)"

definition hll_data_bytes :: "hll_builder \<Rightarrow> usize" where
  "hll_data_bytes b = cb_data_bytes (yb_common b)"

definition hll_columns :: "hll_builder \<Rightarrow> array list" where
  "hll_columns b =
     common_arrays (yb_common b) @
     [StringArray (yb_hll_encoding b), Int64Array (yb_cached_cardinality b),
      BinaryArray (yb_raw_value b)]"

definition hll_finish ::
  "try_new \<Rightarrow> hll_builder \<Rightarrow> (record_batch, convert_error) res \<times> hll_builder" where
  "hll_finish tn b =
     (case common_finish (yb_common b) of (columns, c) \<Rightarrow>
      let columns = columns @
            [StringArray (yb_hll_encoding b), Int64Array (yb_cached_cardinality b),
             BinaryArray (yb_raw_value b)] in
      (make_batch tn THyperLogLog columns,
       b\<lparr>yb_common := c, yb_hll_encoding := [], yb_cached_cardinality := [],
        yb_raw_value := []\<rparr>))"

section \<open>Stream\<close>

record stream_builder =
  eb_common :: common_builder
  eb_stream_id :: "bytes column"
  eb_field :: "bytes column"
  eb_field_value :: "bytes column"

definition stream_new :: stream_builder where
  "stream_new = \<lparr>eb_common = common_new, eb_stream_id = [], eb_field = [], eb_field_value = []\<rparr>"

definition stream_row ::
  "rdb_entry \<Rightarrow> u64 \<Rightarrow> bytes \<Rightarrow> bytes \<times> bytes \<Rightarrow> stream_builder \<Rightarrow> stream_builder" where
  "stream_row e n sid = (\<lambda>(f, v) b.
     b\<lparr>eb_common := common_append (eb_common b) e n (str_bytes ''stream'')
          (length sid + length f + length v),
       eb_stream_id := append_value (eb_stream_id b) sid,
       eb_field := append_value (eb_field b) f,
       eb_field_value := append_value (eb_field_value b) v\<rparr>)"

definition stream_entry_row ::
  "rdb_entry \<Rightarrow> u64 \<Rightarrow> stream_entry \<Rightarrow> stream_builder \<Rightarrow> stream_builder" where
  "stream_entry_row e n se b =
     (if se_fields se = [] then
        b\<lparr>eb_common := common_append (eb_common b) e n (str_bytes ''stream'') (length (se_id se)),
          eb_stream_id := append_value (eb_stream_id b) (se_id se),
          eb_field := append_null (eb_field b),
          eb_field_value := append_null (eb_field_value b)\<rparr>
      else fold (stream_row e n (se_id se)) (se_fields se) b)"

definition stream_push :: "stream_builder \<Rightarrow> rdb_entry \<Rightarrow> stream_builder" where
  "stream_push b e =
     (case e_value e of
        VStream d \<Rightarrow>
        let n = (if sd_length d > 0 then sd_length d else word_of_nat (length (sd_entries d))) in
        if sd_entries d = [] then
          b\<lparr>eb_common := common_append (eb_common b) e n (str_bytes ''stream'') 0,
            eb_stream_id := append_null (eb_stream_id b),
            eb_field := append_null (eb_field b),
            eb_field_value := append_null (eb_field_value b)\<rparr>
        else fold (stream_entry_row e n) (sd_entries d) b
      | _ \<Rightarrow> b)"

definition stream_len :: "stream_builder \<Rightarrow> usize" where
  "stream_len b = cb_len (eb_common b)"

definition stream_is_empty :: "stream_builder \<Rightarrow> bool" where
  "stream_is_empty b = common_is_empty (eb_common b)"

definition stream_data_bytes :: "stream_builder \<Rightarrow> usize" where
  "stream_data_bytes b = cb_data_bytes (eb_common b)"

definition stream_columns :: "stream_builder \<Rightarrow> array list" where
  "stream_columns b =
     common_arrays (eb_common b) @
     [StringArray (eb_stream_id b), BinaryArray (eb_field b), BinaryArray (eb_field_value b)]"

definition stream_finish ::
  "try_new \<Rightarrow> stream_builder \<Rightarrow> (record_batch, convert_error) res \<times> stream_builder" where
  "stream_finish tn b =
     (case common_finish (eb_common b) of (columns, c) \<Rightarrow>
      let columns = columns @
            [StringArray (eb_stream_id b), BinaryArray (eb_field b),
             BinaryArray (eb_field_value b)] in
      (make_batch tn TStream columns,
       b\<lparr>eb_common := c, eb_stream_id := [], eb_field := [], eb_field_value := []\<rparr>))"

section \<open>Module\<close>

record module_builder =
  mb_common :: common_builder
  mb_module_name :: "bytes column"
  mb_module_version :: "u32 column"
  mb_value_index :: "u32 column"
  mb_opcode :: "bytes column"
  mb_int_value :: "u64 column"
  mb_double_value :: "f64 column"
  mb_string_value :: "bytes column"

definition module_new :: module_builder where
  "module_new = \<lparr>mb_common = common_new, mb_module_name = [], mb_module_version = [],
    mb_value_index = [], mb_opcode = [], mb_int_value = [], mb_double_value = [],
    mb_string_value = []\<rparr>"

definition module_row ::
  "rdb_entry \<Rightarrow> u64 \<Rightarrow> module_data \<Rightarrow> nat \<times> module_value \<Rightarrow> module_builder \<Rightarrow> module_builder" where
  "module_row e n d = (\<lambda>(i, val) b.
     let b = b\<lparr>mb_common := common_append (mb_common b) e n (str_bytes ''module'')
          (module_row_bytes d val),
         mb_module_name := append_value (mb_module_name b) (m_name d),
         mb_module_version := append_value (mb_module_version b) (m_version d),
         mb_value_index := append_value (mb_value_index b) (word_of_nat i),
         mb_opcode := append_value (mb_opcode b) (str_bytes (module_opcode val))\<rparr> in
     case val of
       SignedInt v \<Rightarrow>
         b\<lparr>mb_int_value := append_value (mb_int_value b) (word_of_int v),
           mb_double_value := append_null (mb_double_value b),
           mb_string_value := append_null (mb_string_value b)\<rparr>
     | UnsignedInt v \<Rightarrow>
         b\<lparr>mb_int_value := append_value (mb_int_value b) v,
           mb_double_value := append_null (mb_double_value b),
           mb_string_value := append_null (mb_string_value b)\<rparr>
     | MFloat v \<Rightarrow>
         b\<lparr>mb_int_value := append_null (mb_int_value b),
           mb_double_value := append_value (mb_double_value b) (f32_as_f64 v),
           mb_string_value := append_null (mb_string_value b)\<rparr>
     | MDouble v \<Rightarrow>
         b\<lparr>mb_int_value := append_null (mb_int_value b),
           mb_double_value := append_value (mb_double_value b) v,
           mb_string_value := append_null (mb_string_value b)\<rparr>
     | MString v \<Rightarrow>
         b\<lparr>mb_int_value := append_null (mb_int_value b),
           mb_double_value := append_null (mb_double_value b),
           mb_string_value := append_value (mb_string_value b) v\<rparr>)"

definition module_push :: "module_builder \<Rightarrow> rdb_entry \<Rightarrow> module_builder" where
  "module_push b e =
     (case e_value e of
        VModule d \<Rightarrow>
        let n = count_of e (length (m_values d)) in
        if m_values d = [] then
          b\<lparr>mb_common := common_append (mb_common b) e 0 (str_bytes ''module'')
               (empty_module_row_bytes d),
            mb_module_name := append_value (mb_module_name b) (m_name d),
            mb_module_version := append_value (mb_module_version b) (m_version d),
            mb_value_index := append_value (mb_value_index b) 0,
            mb_opcode := append_value (mb_opcode b) (str_bytes EMPTY_MODULE_OPCODE),
            mb_int_value := append_null (mb_int_value b),
            mb_double_value := append_null (mb_double_value b),
            mb_string_value := append_null (mb_string_value b)\<rparr>
        else fold (module_row e n d) (enumerate 0 (m_values d)) b
      | _ \<Rightarrow> b)"

definition module_len :: "module_builder \<Rightarrow> usize" where
  "module_len b = cb_len (mb_common b)"

definition module_is_empty :: "module_builder \<Rightarrow> bool" where
  "module_is_empty b = common_is_empty (mb_common b)"

definition module_data_bytes :: "module_builder \<Rightarrow> usize" where
  "module_data_bytes b = cb_data_bytes (mb_common b)"

definition module_columns :: "module_builder \<Rightarrow> array list" where
  "module_columns b =
     common_arrays (mb_common b) @
     [StringArray (mb_module_name b), UInt32Array (mb_module_version b),
      UInt32Array (mb_value_index b), StringArray (mb_opcode b), UInt64Array (mb_int_value b),
      Float64Array (mb_double_value b), BinaryArray (mb_string_value b)]"

definition module_finish ::
  "try_new \<Rightarrow> module_builder \<Rightarrow> (record_batch, convert_error) res \<times> module_builder" where
  "module_finish tn b =
     (case common_finish (mb_common b) of (columns, c) \<Rightarrow>
      let columns = columns @
            [StringArray (mb_module_name b), UInt32Array (mb_module_version b),
             UInt32Array (mb_value_index b), StringArray (mb_opcode b),
             UInt64Array (mb_int_value b), Float64Array (mb_double_value b),
             BinaryArray (mb_string_value b)] in
      (make_batch tn TModule columns,
       b\<lparr>mb_common := c, mb_module_name := [], mb_module_version := [], mb_value_index := [],
        mb_opcode := [], mb_int_value := [], mb_double_value := [], mb_string_value := []\<rparr>))"

end
