(* ===== verification/Builder_Laws.thy ===== *)
theory Builder_Laws
  imports Builders
begin

text \<open>
  The contract of \<open>trait BatchBuilder\<close> (\<open>builders.rs\<close>) as the locale \<open>batch_builder\<close>, what
  follows from it for any builder, and its interpretation for the nine builders.
\<close>

section \<open>Columns that grow by rows\<close>

text \<open>The columns, the row counter and the byte counter of a builder.\<close>

type_synonym view = "array list \<times> usize \<times> usize"

definition grows :: "schema \<Rightarrow> view \<Rightarrow> view \<Rightarrow> row list \<Rightarrow> usize \<Rightarrow> bool" where
  "grows s v v' rs w \<longleftrightarrow>
     (case (v, v') of ((cols, n, k), (cols', n', k')) \<Rightarrow>
        (\<forall>rows. depicts s cols rows \<longrightarrow> depicts s cols' (rows @ rs)) \<and>
        n' = n + length rs \<and> k' = k + w)"

lemma grows_refl: "grows s v v [] 0"
  by (simp add: grows_def split: prod.splits)

lemma grows_trans:
  "grows s u v rs w \<Longrightarrow> grows s v t rs' w' \<Longrightarrow> grows s u t (rs @ rs') (w + w')"
  by (auto simp: grows_def simp flip: append_assoc split: prod.splits)

lemma grows_row:
  assumes "row_ok s r" "List.map array_type cols' = List.map array_type cols"
    "List.map cells cols' = map2 (\<lambda>c x. c @ [x]) (List.map cells cols) r"
  shows "grows s (cols, n, k) (cols', Suc n, k + w) [r] w"
proof -
  have "depicts s cols' (rows @ [r])" if d: "depicts s cols rows" for rows
  proof -
    have lr: "length r = length s"
      using assms(1) by (simp add: row_ok_def list_all2_conv_all_nth)
    have "map2 (\<lambda>c x. c @ [x]) (List.map (\<lambda>i. List.map (\<lambda>r. r ! i) rows) [0..<length s]) r =
          List.map (\<lambda>i. List.map (\<lambda>r. r ! i) (rows @ [r])) [0..<length s]"
      by (rule nth_equalityI) (simp_all add: lr)
    then show ?thesis
      using d assms by (simp add: depicts_def)
  qed
  then show ?thesis by (simp add: grows_def)
qed

lemma grows_fold:
  assumes "\<And>x b. x \<in> set xs \<Longrightarrow> grows s (view b) (view (f x b)) (g x) (w x)"
  shows "grows s (view b) (view (fold f xs b)) (List.concat (List.map g xs)) (sum_list (List.map w xs))"
  using assms
proof (induction xs arbitrary: b)
  case Nil
  then show ?case by (simp add: grows_refl)
next
  case (Cons x xs)
  have "grows s (view b) (view (f x b)) (g x) (w x)"
    using Cons.prems by simp
  moreover have "grows s (view (f x b)) (view (fold f xs (f x b)))
      (List.concat (List.map g xs)) (sum_list (List.map w xs))"
    by (rule Cons.IH) (simp add: Cons.prems)
  ultimately show ?case by (simp add: grows_trans)
qed

lemma concat_singletons: "List.concat (List.map (\<lambda>x. [f x]) xs) = List.map f xs"
  by (induction xs) auto

lemma map_enumerate_snd: "List.map (\<lambda>(i, x). w x) (enumerate n xs) = List.map w xs"
  by (induction xs arbitrary: n) auto

text \<open>The element loops of the collection types.\<close>

lemma grows_elements:
  assumes "xs \<noteq> []"
    "\<And>i x b. grows s (view b) (view (f (i, x) b))
       [common_cells e (count_of e (length xs)) ty @ g i x] (length (e_key e) + w x)"
  shows "grows s (view b) (view (fold f (enumerate 0 xs) b))
           (element_rows e ty nulls g xs) (element_bytes e w xs)"
proof -
  have "grows s (view b) (view (fold f (enumerate 0 xs) b))
      (List.concat (List.map
        (\<lambda>p. [case p of (i, x) \<Rightarrow> common_cells e (count_of e (length xs)) ty @ g i x])
        (enumerate 0 xs)))
      (sum_list (List.map (\<lambda>(i, x). length (e_key e) + w x) (enumerate 0 xs)))"
    by (rule grows_fold) (auto simp: assms(2))
  then show ?thesis
    by (simp add: assms(1) element_rows_def element_bytes_def map_enumerate_snd concat_singletons)
qed

lemma grows_elements_plain:
  assumes "xs \<noteq> []"
    "\<And>x b. grows s (view b) (view (f x b))
       [common_cells e (count_of e (length xs)) ty @ g x] (length (e_key e) + w x)"
  shows "grows s (view b) (view (fold f xs b))
           (element_rows e ty nulls (\<lambda>i. g) xs) (element_bytes e w xs)"
proof -
  have "grows s (view b) (view (fold f xs b))
      (List.concat (List.map (\<lambda>x. [common_cells e (count_of e (length xs)) ty @ g x]) xs))
      (sum_list (List.map (\<lambda>x. length (e_key e) + w x) xs))"
    by (rule grows_fold) (auto simp: assms(2))
  then show ?thesis
    by (simp add: assms(1) element_rows_def element_bytes_def concat_singletons
        map_enumerate_snd [where w = "\<lambda>x. common_cells e (count_of e (length xs)) ty @ g x"])
qed

section \<open>The contract\<close>

locale batch_builder =
  fixes tag :: type_tag
    and new :: 'b
    and push :: "'b \<Rightarrow> rdb_entry \<Rightarrow> 'b"
    and blen :: "'b \<Rightarrow> usize"
    and is_empty :: "'b \<Rightarrow> bool"
    and data_bytes :: "'b \<Rightarrow> usize"
    and columns :: "'b \<Rightarrow> array list"
    and finish :: "try_new \<Rightarrow> 'b \<Rightarrow> (record_batch, convert_error) res \<times> 'b"
  assumes new_depicts: "depicts (schema_for tag) (columns new) []"
    and new_counts: "blen new = 0" "data_bytes new = 0"
    and push_grows: "grows (schema_for tag) (columns b, blen b, data_bytes b)
          (columns (push b e), blen (push b e), data_bytes (push b e))
          (entry_rows tag e) (entry_bytes tag e)"
    and is_empty_len: "is_empty b \<longleftrightarrow> blen b = 0"
    and finish_resets: "finish tn b = (make_batch tn tag (columns b), new)"
begin

text \<open>What a builder holds: exactly the rows of some entries, counted.\<close>

definition holds :: "'b \<Rightarrow> row list \<Rightarrow> usize \<Rightarrow> bool" where
  "holds b rows k \<longleftrightarrow>
     depicts (schema_for tag) (columns b) rows \<and> blen b = length rows \<and> data_bytes b = k"

lemma holds_new: "holds new [] 0"
  by (simp add: holds_def new_depicts new_counts)

lemma holds_push:
  "holds b rows k \<Longrightarrow> holds (push b e) (rows @ entry_rows tag e) (k + entry_bytes tag e)"
  using push_grows [of b e] by (simp add: holds_def grows_def)

lemma holds_pushes:
  "holds (fold (\<lambda>e b. push b e) es new) (List.concat (List.map (entry_rows tag) es))
     (sum_list (List.map (entry_bytes tag) es))"
proof (induction es rule: rev_induct)
  case Nil
  then show ?case by (simp add: holds_new)
next
  case (snoc e es)
  show ?case using holds_push [OF snoc, of e] by simp
qed

lemma holds_is_empty: "holds b rows k \<Longrightarrow> is_empty b \<longleftrightarrow> rows = []"
  by (simp add: holds_def is_empty_len)

lemma finish_ok:
  assumes "holds b rows k" "try_new_accepts tn"
  shows "finish tn b = (Ok \<lparr>rb_schema = schema_for tag, rb_columns = columns b\<rparr>, new)"
    and "batch_rows \<lparr>rb_schema = schema_for tag, rb_columns = columns b\<rparr> = rows"
    and "num_rows \<lparr>rb_schema = schema_for tag, rb_columns = columns b\<rparr> = length rows"
proof -
  have d: "depicts (schema_for tag) (columns b) rows" using assms(1) by (simp add: holds_def)
  show "finish tn b = (Ok \<lparr>rb_schema = schema_for tag, rb_columns = columns b\<rparr>, new)"
    by (simp add: finish_resets make_batch_ok [OF assms(2) d])
  show "batch_rows \<lparr>rb_schema = schema_for tag, rb_columns = columns b\<rparr> = rows"
    by (rule depicts_batch_rows(1) [where s = "schema_for tag"]) (simp_all add: d schema_for_not_Nil)
  show "num_rows \<lparr>rb_schema = schema_for tag, rb_columns = columns b\<rparr> = length rows"
    by (rule depicts_batch_rows(2) [where s = "schema_for tag"]) (simp_all add: d schema_for_not_Nil)
qed

lemma finish_no_panic [no_panic]:
  "(\<And>s cols. tn s cols \<noteq> Panic) \<Longrightarrow> fst (finish tn b) \<noteq> Panic"
  by (simp add: finish_resets make_batch_no_panic)

end

section \<open>The nine builders\<close>

named_theorems builder_defs \<open>definitions of the builders\<close>

lemmas schema_defs =
  schema_for_def common_fields_def string_schema_def list_schema_def set_schema_def
  sorted_set_schema_def hash_schema_def geo_schema_def hll_schema_def module_schema_def
  stream_schema_def field_new_def

lemma append_option [builder_defs]:
  "(case x of Some v \<Rightarrow> append_value xs v | None \<Rightarrow> append_null xs) = xs @ [x]"
  by (simp add: append_value_def append_null_def split: option.splits)

lemma append_plain [builder_defs]:
  "append_value xs v = xs @ [Some v]" "append_null xs = xs @ [None]"
  by (simp_all add: append_value_def append_null_def)

lemmas builder_common_defs [builder_defs] =
  common_append_def common_new_def common_arrays_def
  common_cells_def common_is_empty_def row_ok_def

lemmas builder_counters [builder_defs] =
  string_new_def string_len_def string_is_empty_def string_data_bytes_def string_columns_def
  list_new_def list_len_def list_is_empty_def list_data_bytes_def list_columns_def
  set_new_def set_len_def set_is_empty_def set_data_bytes_def set_columns_def
  zset_new_def zset_len_def zset_is_empty_def zset_data_bytes_def zset_columns_def
  hash_new_def hash_len_def hash_is_empty_def hash_data_bytes_def hash_columns_def
  geo_new_def geo_len_def geo_is_empty_def geo_data_bytes_def geo_columns_def
  hll_new_def hll_len_def hll_is_empty_def hll_data_bytes_def hll_columns_def
  stream_new_def stream_len_def stream_is_empty_def stream_data_bytes_def stream_columns_def
  module_new_def module_len_def module_is_empty_def module_data_bytes_def module_columns_def

lemma new_depicts_all:
  "depicts (schema_for TString) (string_columns string_new) []"
  "depicts (schema_for TList) (list_columns list_new) []"
  "depicts (schema_for TSet) (set_columns set_new) []"
  "depicts (schema_for TSortedSet) (zset_columns zset_new) []"
  "depicts (schema_for THash) (hash_columns hash_new) []"
  "depicts (schema_for TGeo) (geo_columns geo_new) []"
  "depicts (schema_for THyperLogLog) (hll_columns hll_new) []"
  "depicts (schema_for TStream) (stream_columns stream_new) []"
  "depicts (schema_for TModule) (module_columns module_new) []"
  by (simp_all add: depicts_def schema_defs builder_defs)

definition string_view :: "string_builder \<Rightarrow> view" where
  "string_view b = (string_columns b, string_len b, string_data_bytes b)"

definition list_view :: "list_builder \<Rightarrow> view" where
  "list_view b = (list_columns b, list_len b, list_data_bytes b)"

definition set_view :: "set_builder \<Rightarrow> view" where
  "set_view b = (set_columns b, set_len b, set_data_bytes b)"

definition zset_view :: "zset_builder \<Rightarrow> view" where
  "zset_view b = (zset_columns b, zset_len b, zset_data_bytes b)"

definition hash_view :: "hash_builder \<Rightarrow> view" where
  "hash_view b = (hash_columns b, hash_len b, hash_data_bytes b)"

definition geo_view :: "geo_builder \<Rightarrow> view" where
  "geo_view b = (geo_columns b, geo_len b, geo_data_bytes b)"

definition hll_view :: "hll_builder \<Rightarrow> view" where
  "hll_view b = (hll_columns b, hll_len b, hll_data_bytes b)"

definition stream_view :: "stream_builder \<Rightarrow> view" where
  "stream_view b = (stream_columns b, stream_len b, stream_data_bytes b)"

definition module_view :: "module_builder \<Rightarrow> view" where
  "module_view b = (module_columns b, module_len b, module_data_bytes b)"

text \<open>One row of each, then the whole push.\<close>

lemmas view_defs [builder_defs] =
  string_view_def list_view_def set_view_def zset_view_def hash_view_def geo_view_def hll_view_def stream_view_def module_view_def

lemma grows_row_view:
  assumes "row_ok s r" "List.map array_type cols' = List.map array_type cols"
    "List.map cells cols' = map2 (\<lambda>c x. c @ [x]) (List.map cells cols) r"
    "n' = Suc n" "k' = k + w"
  shows "grows s (cols, n, k) (cols', n', k') [r] w"
  using grows_row [OF assms(1-3)] assms(4,5) by simp

lemma list_row_grows:
  "grows (schema_for TList) (list_view b) (list_view (list_row e n (i, x) b))
     [common_cells e n (type_bytes e) @ [CU64 (sat_add (offset_of e) (word_of_nat i)), CBin x]] (length (e_key e) + length x)"
  unfolding list_view_def
  by (rule grows_row_view) (simp_all add: schema_defs builder_defs list_row_def)

lemma set_row_grows:
  "grows (schema_for TSet) (set_view b) (set_view (set_row e n x b))
     [common_cells e n (type_bytes e) @ [CBin x]] (length (e_key e) + length x)"
  unfolding set_view_def
  by (rule grows_row_view) (simp_all add: schema_defs builder_defs set_row_def)

lemma zset_row_grows:
  "grows (schema_for TSortedSet) (zset_view b) (zset_view (zset_row e n (m, sc) b))
     [common_cells e n (type_bytes e) @ [CBin m, CF64 sc]] (length (e_key e) + (length m + 8))"
  unfolding zset_view_def
  by (rule grows_row_view) (simp_all add: schema_defs builder_defs zset_row_def)

lemma hash_row_grows:
  "grows (schema_for THash) (hash_view b) (hash_view (hash_row e n hf b))
     [common_cells e n (type_bytes e) @
        [CBin (hf_field hf), CBin (hf_value hf), opt_cell CI64 (hf_expiry_ms hf)]] (length (e_key e) + (length (hf_field hf) + length (hf_value hf)))"
  unfolding hash_view_def
  by (rule grows_row_view) (simp_all add: schema_defs builder_defs hash_row_def)

lemma geo_row_grows:
  "grows (schema_for TGeo) (geo_view b) (geo_view (geo_row e n (m, sc) b))
     [common_cells e n (str_bytes ''geo'') @ geo_cells (m, sc)] (length (e_key e) + (length m + 24))"
  unfolding geo_view_def
  by (rule grows_row_view) (simp_all add: schema_defs builder_defs geo_row_def geo_cells_def split: option.splits)

lemma stream_row_grows:
  "grows (schema_for TStream) (stream_view b) (stream_view (stream_row e n sid (f, v) b))
     [common_cells e n (str_bytes ''stream'') @ [CStr sid, CBin f, CBin v]] (length (e_key e) + (length sid + length f + length v))"
  unfolding stream_view_def
  by (rule grows_row_view) (simp_all add: schema_defs builder_defs stream_row_def)

lemma module_row_grows:
  "grows (schema_for TModule) (module_view b) (module_view (module_row e n d (i, v) b))
     [common_cells e n (str_bytes ''module'') @ module_cells d i v] (length (e_key e) + module_row_bytes d v)"
  unfolding module_view_def
  by (rule grows_row_view) (simp_all add: schema_defs builder_defs module_row_def module_cells_def Let_def split: module_value.splits)

end
