(* ===== verification/Builder_Impl.thy ===== *)
theory Builder_Impl
  imports Builder_Laws
begin

text \<open>
  The nine builders of \<open>builders.rs\<close> satisfy the contract of \<open>trait BatchBuilder\<close>: pushing
  an entry adds exactly its rows, on every branch of \<open>push\<close>, the empty collection and the
  value of another type included.
\<close>

lemma stream_entry_row_grows:
  "grows (schema_for TStream) (stream_view b) (stream_view (stream_entry_row e n se b))
     (List.map (\<lambda>r. common_cells e n (str_bytes ''stream'') @ r) (stream_entry_cells se))
     (stream_entry_bytes e se)"
proof (cases "se_fields se = []")
  case True
  have "grows (schema_for TStream) (stream_view b) (stream_view (stream_entry_row e n se b))
     [common_cells e n (str_bytes ''stream'') @ [CStr (se_id se), Null, Null]]
     (length (e_key e) + length (se_id se))"
    unfolding stream_view_def
    by (rule grows_row_view)
      (simp_all add: True schema_defs builder_defs stream_entry_row_def)
  then show ?thesis by (simp add: True stream_entry_cells_def stream_entry_bytes_def)
next
  case False
  have "grows (schema_for TStream) (stream_view b)
     (stream_view (fold (stream_row e n (se_id se)) (se_fields se) b))
     (List.concat (List.map (\<lambda>p. [common_cells e n (str_bytes ''stream'') @
        (case p of (f, v) \<Rightarrow> [CStr (se_id se), CBin f, CBin v])]) (se_fields se)))
     (sum_list (List.map (\<lambda>(f, v). length (e_key e) + (length (se_id se) + length f + length v))
        (se_fields se)))"
    by (rule grows_fold) (auto intro: stream_row_grows)
  then show ?thesis
    by (simp add: False stream_entry_row_def stream_entry_cells_def stream_entry_bytes_def
        concat_singletons comp_def)
qed

text \<open>The row of nulls of an empty collection, and the rows of the two string types.\<close>

lemma string_value_grows:
  "e_value e = VString v \<Longrightarrow>
   grows (schema_for TString) (string_view b) (string_view (string_push b e))
     [common_cells e 1 (type_bytes e) @ [CBin v]] (length (e_key e) + length v)"
  unfolding string_view_def
  by (rule grows_row_view)
    (simp_all add: schema_defs builder_defs string_push_def Let_def)

lemma hll_value_grows:
  "e_value e = VString d \<Longrightarrow>
   grows (schema_for THyperLogLog) (hll_view b) (hll_view (hll_push b e))
     [common_cells e 1 (str_bytes ''hyperloglog'') @
        [CStr (str_bytes (hll_encoding d)), CI64 (hll_cached_cardinality d), CBin d]] (length (e_key e) + length d)"
  unfolding hll_view_def
  by (rule grows_row_view)
    (simp_all add: schema_defs builder_defs hll_push_def Let_def)

lemma list_empty_grows:
  "e_value e = VList [] \<Longrightarrow>
   grows (schema_for TList) (list_view b) (list_view (list_push b e))
     [common_cells e 0 (type_bytes e) @ [Null, Null]] (length (e_key e))"
  unfolding list_view_def
  by (rule grows_row_view)
    (simp_all add: schema_defs builder_defs list_push_def Let_def)

lemma set_empty_grows:
  "e_value e = VSet [] \<Longrightarrow>
   grows (schema_for TSet) (set_view b) (set_view (set_push b e))
     [common_cells e 0 (type_bytes e) @ [Null]] (length (e_key e))"
  unfolding set_view_def
  by (rule grows_row_view)
    (simp_all add: schema_defs builder_defs set_push_def Let_def)

lemma zset_empty_grows:
  "e_value e = VSortedSet [] \<Longrightarrow>
   grows (schema_for TSortedSet) (zset_view b) (zset_view (zset_push b e))
     [common_cells e 0 (type_bytes e) @ [Null, Null]] (length (e_key e))"
  unfolding zset_view_def
  by (rule grows_row_view)
    (simp_all add: schema_defs builder_defs zset_push_def Let_def)

lemma hash_empty_grows:
  "e_value e = VHash [] \<Longrightarrow>
   grows (schema_for THash) (hash_view b) (hash_view (hash_push b e))
     [common_cells e 0 (type_bytes e) @ [Null, Null, Null]] (length (e_key e))"
  unfolding hash_view_def
  by (rule grows_row_view)
    (simp_all add: schema_defs builder_defs hash_push_def Let_def)

lemma geo_empty_grows:
  "e_value e = VSortedSet [] \<Longrightarrow>
   grows (schema_for TGeo) (geo_view b) (geo_view (geo_push b e))
     [common_cells e 0 (str_bytes ''geo'') @ [Null, Null, Null, Null]] (length (e_key e))"
  unfolding geo_view_def
  by (rule grows_row_view)
    (simp_all add: schema_defs builder_defs geo_push_def Let_def)

lemma stream_empty_grows:
  "e_value e = VStream d \<Longrightarrow> sd_entries d = [] \<Longrightarrow>
   grows (schema_for TStream) (stream_view b) (stream_view (stream_push b e))
     [common_cells e (stream_count d) (str_bytes ''stream'') @ [Null, Null, Null]] (length (e_key e))"
  unfolding stream_view_def
  by (rule grows_row_view)
    (simp_all add: schema_defs builder_defs stream_push_def stream_count_def Let_def)

lemma module_empty_grows:
  "e_value e = VModule d \<Longrightarrow> m_values d = [] \<Longrightarrow>
   grows (schema_for TModule) (module_view b) (module_view (module_push b e))
     [common_cells e 0 (str_bytes ''module'') @
        [CStr (m_name d), CU32 (m_version d), CU32 0, CStr (str_bytes EMPTY_MODULE_OPCODE),
         Null, Null, Null]] (length (e_key e) + empty_module_row_bytes d)"
  unfolding module_view_def
  by (rule grows_row_view)
    (simp_all add: schema_defs builder_defs module_push_def Let_def)

lemma string_push_grows:
  "grows (schema_for TString) (string_view b) (string_view (string_push b e)) (entry_rows TString e) (entry_bytes TString e)"
proof (cases "\<exists>v. e_value e = VString v")
  case False
  then have "string_push b e = b" "entry_rows TString e = []" "entry_bytes TString e = 0"
    by (simp_all add: string_push_def entry_rows_def entry_bytes_def split: rdb_value.splits)
  then show ?thesis by (simp add: grows_refl)
next
  case True
  then obtain v where v: "e_value e = VString v" by auto
  show ?thesis
    using string_value_grows [OF v, of b] by (simp add: v entry_rows_def entry_bytes_def)
qed

lemma list_push_grows:
  "grows (schema_for TList) (list_view b) (list_view (list_push b e)) (entry_rows TList e) (entry_bytes TList e)"
proof (cases "\<exists>xs. e_value e = VList xs")
  case False
  then have "list_push b e = b" "entry_rows TList e = []" "entry_bytes TList e = 0"
    by (simp_all add: list_push_def entry_rows_def entry_bytes_def split: rdb_value.splits)
  then show ?thesis by (simp add: grows_refl)
next
  case True
  then obtain xs where v: "e_value e = VList xs" by auto
  show ?thesis
  proof (cases "xs = []")
    case True
    then show ?thesis
      using list_empty_grows [of e b] v
      by (simp add: entry_rows_def entry_bytes_def element_rows_def element_bytes_def)
  next
    case False
    have "grows (schema_for TList) (list_view b)
        (list_view (fold (list_row e (count_of e (length xs))) (enumerate 0 xs) b))
        (element_rows e (type_bytes e) [Null, Null] (\<lambda>i x. [CU64 (sat_add (offset_of e) (word_of_nat i)), CBin x]) xs)
        (element_bytes e (length) xs)"
      by (rule grows_elements [OF False])
        (auto simp: list_row_grows simp del: append_Cons append_Nil split: prod.splits)
    then show ?thesis
      using False v by (simp add: list_push_def entry_rows_def entry_bytes_def case_prod_beta')
  qed
qed

lemma set_push_grows:
  "grows (schema_for TSet) (set_view b) (set_view (set_push b e)) (entry_rows TSet e) (entry_bytes TSet e)"
proof (cases "\<exists>xs. e_value e = VSet xs")
  case False
  then have "set_push b e = b" "entry_rows TSet e = []" "entry_bytes TSet e = 0"
    by (simp_all add: set_push_def entry_rows_def entry_bytes_def split: rdb_value.splits)
  then show ?thesis by (simp add: grows_refl)
next
  case True
  then obtain xs where v: "e_value e = VSet xs" by auto
  show ?thesis
  proof (cases "xs = []")
    case True
    then show ?thesis
      using set_empty_grows [of e b] v
      by (simp add: entry_rows_def entry_bytes_def element_rows_def element_bytes_def)
  next
    case False
    have "grows (schema_for TSet) (set_view b)
        (set_view (fold (set_row e (count_of e (length xs))) (xs) b))
        (element_rows e (type_bytes e) [Null] (\<lambda>i. \<lambda>x. [CBin x]) xs)
        (element_bytes e (length) xs)"
      by (rule grows_elements_plain [OF False])
        (auto simp: set_row_grows simp del: append_Cons append_Nil split: prod.splits)
    then show ?thesis
      using False v by (simp add: set_push_def entry_rows_def entry_bytes_def case_prod_beta')
  qed
qed

lemma zset_push_grows:
  "grows (schema_for TSortedSet) (zset_view b) (zset_view (zset_push b e)) (entry_rows TSortedSet e) (entry_bytes TSortedSet e)"
proof (cases "\<exists>xs. e_value e = VSortedSet xs")
  case False
  then have "zset_push b e = b" "entry_rows TSortedSet e = []" "entry_bytes TSortedSet e = 0"
    by (simp_all add: zset_push_def entry_rows_def entry_bytes_def split: rdb_value.splits)
  then show ?thesis by (simp add: grows_refl)
next
  case True
  then obtain xs where v: "e_value e = VSortedSet xs" by auto
  show ?thesis
  proof (cases "xs = []")
    case True
    then show ?thesis
      using zset_empty_grows [of e b] v
      by (simp add: entry_rows_def entry_bytes_def element_rows_def element_bytes_def)
  next
    case False
    have "grows (schema_for TSortedSet) (zset_view b)
        (zset_view (fold (zset_row e (count_of e (length xs))) (xs) b))
        (element_rows e (type_bytes e) [Null, Null] (\<lambda>i. \<lambda>(m, s). [CBin m, CF64 s]) xs)
        (element_bytes e (\<lambda>(m, s). length m + 8) xs)"
      by (rule grows_elements_plain [OF False])
        (auto simp: zset_row_grows simp del: append_Cons append_Nil split: prod.splits)
    then show ?thesis
      using False v by (simp add: zset_push_def entry_rows_def entry_bytes_def case_prod_beta')
  qed
qed

lemma hash_push_grows:
  "grows (schema_for THash) (hash_view b) (hash_view (hash_push b e)) (entry_rows THash e) (entry_bytes THash e)"
proof (cases "\<exists>xs. e_value e = VHash xs")
  case False
  then have "hash_push b e = b" "entry_rows THash e = []" "entry_bytes THash e = 0"
    by (simp_all add: hash_push_def entry_rows_def entry_bytes_def split: rdb_value.splits)
  then show ?thesis by (simp add: grows_refl)
next
  case True
  then obtain xs where v: "e_value e = VHash xs" by auto
  show ?thesis
  proof (cases "xs = []")
    case True
    then show ?thesis
      using hash_empty_grows [of e b] v
      by (simp add: entry_rows_def entry_bytes_def element_rows_def element_bytes_def)
  next
    case False
    have "grows (schema_for THash) (hash_view b)
        (hash_view (fold (hash_row e (count_of e (length xs))) (xs) b))
        (element_rows e (type_bytes e) [Null, Null, Null] (\<lambda>i. \<lambda>hf. [CBin (hf_field hf), CBin (hf_value hf), opt_cell CI64 (hf_expiry_ms hf)]) xs)
        (element_bytes e (\<lambda>hf. length (hf_field hf) + length (hf_value hf)) xs)"
      by (rule grows_elements_plain [OF False])
        (auto simp: hash_row_grows simp del: append_Cons append_Nil split: prod.splits)
    then show ?thesis
      using False v by (simp add: hash_push_def entry_rows_def entry_bytes_def case_prod_beta')
  qed
qed

lemma geo_push_grows:
  "grows (schema_for TGeo) (geo_view b) (geo_view (geo_push b e)) (entry_rows TGeo e) (entry_bytes TGeo e)"
proof (cases "\<exists>xs. e_value e = VSortedSet xs")
  case False
  then have "geo_push b e = b" "entry_rows TGeo e = []" "entry_bytes TGeo e = 0"
    by (simp_all add: geo_push_def entry_rows_def entry_bytes_def split: rdb_value.splits)
  then show ?thesis by (simp add: grows_refl)
next
  case True
  then obtain xs where v: "e_value e = VSortedSet xs" by auto
  show ?thesis
  proof (cases "xs = []")
    case True
    then show ?thesis
      using geo_empty_grows [of e b] v
      by (simp add: entry_rows_def entry_bytes_def element_rows_def element_bytes_def)
  next
    case False
    have "grows (schema_for TGeo) (geo_view b)
        (geo_view (fold (geo_row e (count_of e (length xs))) (xs) b))
        (element_rows e (str_bytes ''geo'') [Null, Null, Null, Null] (\<lambda>i. geo_cells) xs)
        (element_bytes e (\<lambda>(m, s). length m + 24) xs)"
      by (rule grows_elements_plain [OF False])
        (auto simp: geo_row_grows simp del: append_Cons append_Nil split: prod.splits)
    then show ?thesis
      using False v by (simp add: geo_push_def entry_rows_def entry_bytes_def case_prod_beta')
  qed
qed

lemma hll_push_grows:
  "grows (schema_for THyperLogLog) (hll_view b) (hll_view (hll_push b e)) (entry_rows THyperLogLog e) (entry_bytes THyperLogLog e)"
proof (cases "\<exists>v. e_value e = VString v")
  case False
  then have "hll_push b e = b" "entry_rows THyperLogLog e = []" "entry_bytes THyperLogLog e = 0"
    by (simp_all add: hll_push_def entry_rows_def entry_bytes_def split: rdb_value.splits)
  then show ?thesis by (simp add: grows_refl)
next
  case True
  then obtain v where v: "e_value e = VString v" by auto
  show ?thesis
    using hll_value_grows [OF v, of b] by (simp add: v entry_rows_def entry_bytes_def)
qed

lemma stream_push_grows:
  "grows (schema_for TStream) (stream_view b) (stream_view (stream_push b e)) (entry_rows TStream e) (entry_bytes TStream e)"
proof (cases "\<exists>d. e_value e = VStream d")
  case False
  then have "stream_push b e = b" "entry_rows TStream e = []" "entry_bytes TStream e = 0"
    by (simp_all add: stream_push_def entry_rows_def entry_bytes_def split: rdb_value.splits)
  then show ?thesis by (simp add: grows_refl)
next
  case True
  then obtain d where v: "e_value e = VStream d" by auto
  show ?thesis
  proof (cases "sd_entries d = []")
    case True
    then show ?thesis
      using stream_empty_grows [OF v, of b] v by (simp add: entry_rows_def entry_bytes_def stream_rows_def)
  next
    case False
    have "grows (schema_for TStream) (stream_view b)
        (stream_view (fold (stream_entry_row e (stream_count d)) (sd_entries d) b))
        (List.concat (List.map (\<lambda>se. List.map (\<lambda>r. common_cells e (stream_count d) (str_bytes ''stream'') @ r)
          (stream_entry_cells se)) (sd_entries d)))
        (sum_list (List.map (stream_entry_bytes e) (sd_entries d)))"
      by (rule grows_fold) (rule stream_entry_row_grows)
    then show ?thesis
      using False v
      by (simp add: stream_push_def entry_rows_def entry_bytes_def stream_rows_def stream_count_def
          map_concat comp_def Let_def)
  qed
qed

lemma module_push_grows:
  "grows (schema_for TModule) (module_view b) (module_view (module_push b e)) (entry_rows TModule e) (entry_bytes TModule e)"
proof (cases "\<exists>d. e_value e = VModule d")
  case False
  then have "module_push b e = b" "entry_rows TModule e = []" "entry_bytes TModule e = 0"
    by (simp_all add: module_push_def entry_rows_def entry_bytes_def split: rdb_value.splits)
  then show ?thesis by (simp add: grows_refl)
next
  case True
  then obtain d where v: "e_value e = VModule d" by auto
  show ?thesis
  proof (cases "m_values d = []")
    case True
    then show ?thesis
      using module_empty_grows [OF v, of b] v by (simp add: entry_rows_def entry_bytes_def element_rows_def)
  next
    case False
    have "grows (schema_for TModule) (module_view b)
        (module_view (fold (module_row e (count_of e (length (m_values d))) d)
          (enumerate 0 (m_values d)) b))
        (element_rows e (str_bytes ''module'')
          [CStr (m_name d), CU32 (m_version d), CU32 0, CStr (str_bytes EMPTY_MODULE_OPCODE),
           Null, Null, Null] (module_cells d) (m_values d))
        (element_bytes e (module_row_bytes d) (m_values d))"
      by (rule grows_elements [OF False]) (rule module_row_grows)
    then show ?thesis
      using False v by (simp add: module_push_def entry_rows_def entry_bytes_def Let_def)
  qed
qed

section \<open>Interpretations\<close>

interpretation string_b: batch_builder TString string_new string_push string_len string_is_empty string_data_bytes
  string_columns string_finish
proof
  show "grows (schema_for TString) (string_columns b, string_len b, string_data_bytes b)
      (string_columns (string_push b e), string_len (string_push b e), string_data_bytes (string_push b e))
      (entry_rows TString e) (entry_bytes TString e)" for b e
    using string_push_grows [of b e] by (simp add: string_view_def)
qed (rule new_depicts_all, simp_all add: builder_defs string_finish_def)

interpretation list_b: batch_builder TList list_new list_push list_len list_is_empty list_data_bytes
  list_columns list_finish
proof
  show "grows (schema_for TList) (list_columns b, list_len b, list_data_bytes b)
      (list_columns (list_push b e), list_len (list_push b e), list_data_bytes (list_push b e))
      (entry_rows TList e) (entry_bytes TList e)" for b e
    using list_push_grows [of b e] by (simp add: list_view_def)
qed (rule new_depicts_all, simp_all add: builder_defs list_finish_def)

interpretation set_b: batch_builder TSet set_new set_push set_len set_is_empty set_data_bytes
  set_columns set_finish
proof
  show "grows (schema_for TSet) (set_columns b, set_len b, set_data_bytes b)
      (set_columns (set_push b e), set_len (set_push b e), set_data_bytes (set_push b e))
      (entry_rows TSet e) (entry_bytes TSet e)" for b e
    using set_push_grows [of b e] by (simp add: set_view_def)
qed (rule new_depicts_all, simp_all add: builder_defs set_finish_def)

interpretation zset_b: batch_builder TSortedSet zset_new zset_push zset_len zset_is_empty zset_data_bytes
  zset_columns zset_finish
proof
  show "grows (schema_for TSortedSet) (zset_columns b, zset_len b, zset_data_bytes b)
      (zset_columns (zset_push b e), zset_len (zset_push b e), zset_data_bytes (zset_push b e))
      (entry_rows TSortedSet e) (entry_bytes TSortedSet e)" for b e
    using zset_push_grows [of b e] by (simp add: zset_view_def)
qed (rule new_depicts_all, simp_all add: builder_defs zset_finish_def)

interpretation hash_b: batch_builder THash hash_new hash_push hash_len hash_is_empty hash_data_bytes
  hash_columns hash_finish
proof
  show "grows (schema_for THash) (hash_columns b, hash_len b, hash_data_bytes b)
      (hash_columns (hash_push b e), hash_len (hash_push b e), hash_data_bytes (hash_push b e))
      (entry_rows THash e) (entry_bytes THash e)" for b e
    using hash_push_grows [of b e] by (simp add: hash_view_def)
qed (rule new_depicts_all, simp_all add: builder_defs hash_finish_def)

interpretation geo_b: batch_builder TGeo geo_new geo_push geo_len geo_is_empty geo_data_bytes
  geo_columns geo_finish
proof
  show "grows (schema_for TGeo) (geo_columns b, geo_len b, geo_data_bytes b)
      (geo_columns (geo_push b e), geo_len (geo_push b e), geo_data_bytes (geo_push b e))
      (entry_rows TGeo e) (entry_bytes TGeo e)" for b e
    using geo_push_grows [of b e] by (simp add: geo_view_def)
qed (rule new_depicts_all, simp_all add: builder_defs geo_finish_def)

interpretation hll_b: batch_builder THyperLogLog hll_new hll_push hll_len hll_is_empty hll_data_bytes
  hll_columns hll_finish
proof
  show "grows (schema_for THyperLogLog) (hll_columns b, hll_len b, hll_data_bytes b)
      (hll_columns (hll_push b e), hll_len (hll_push b e), hll_data_bytes (hll_push b e))
      (entry_rows THyperLogLog e) (entry_bytes THyperLogLog e)" for b e
    using hll_push_grows [of b e] by (simp add: hll_view_def)
qed (rule new_depicts_all, simp_all add: builder_defs hll_finish_def)

interpretation stream_b: batch_builder TStream stream_new stream_push stream_len stream_is_empty stream_data_bytes
  stream_columns stream_finish
proof
  show "grows (schema_for TStream) (stream_columns b, stream_len b, stream_data_bytes b)
      (stream_columns (stream_push b e), stream_len (stream_push b e), stream_data_bytes (stream_push b e))
      (entry_rows TStream e) (entry_bytes TStream e)" for b e
    using stream_push_grows [of b e] by (simp add: stream_view_def)
qed (rule new_depicts_all, simp_all add: builder_defs stream_finish_def)

interpretation module_b: batch_builder TModule module_new module_push module_len module_is_empty module_data_bytes
  module_columns module_finish
proof
  show "grows (schema_for TModule) (module_columns b, module_len b, module_data_bytes b)
      (module_columns (module_push b e), module_len (module_push b e), module_data_bytes (module_push b e))
      (entry_rows TModule e) (entry_bytes TModule e)" for b e
    using module_push_grows [of b e] by (simp add: module_view_def)
qed (rule new_depicts_all, simp_all add: builder_defs module_finish_def)

end
