(* ===== verification/Batcher.thy ===== *)
theory Batcher
  imports Builder_Impl
begin

text \<open>
  \<open>crates/rdb-to-arrow/src/batcher.rs\<close>: the batcher, which routes each entry to the builder
  of its tag (and a geo set also to the geo builder), flushes a builder that has crossed a
  threshold, and the iterator that drives it from an iterator of entries.

  \<open>&mut dyn BatchBuilder\<close> is the sum of the nine builders with the operations dispatched on
  its constructor; \<open>builder_ref\<close> and \<open>builder_put\<close> are the two directions of
  \<open>builder_mut\<close>.  The operations take \<open>RecordBatch::try_new\<close> as their first argument.
\<close>

section \<open>Configuration and estimate\<close>

record batcher_config =
  batch_size :: usize
  batch_bytes :: "usize option"
  max_entry_bytes :: "usize option"
  heuristics :: "heuristic set"

definition batcher_config_default :: batcher_config where
  "batcher_config_default =
     \<lparr>batch_size = 65536, batch_bytes = Some (64 * 1024 * 1024), max_entry_bytes = None,
      heuristics = set heuristic_all\<rparr>"

definition estimate_entry_bytes :: "rdb_entry \<Rightarrow> usize" where
  "estimate_entry_bytes e =
     (let key_len = length (e_key e) in
      case e_value e of
        VString v \<Rightarrow> key_len + length v
      | VList xs \<Rightarrow> key_len * max (length xs) 1 + sum_list (List.map length xs)
      | VSet xs \<Rightarrow> key_len * max (length xs) 1 + sum_list (List.map length xs)
      | VSortedSet xs \<Rightarrow>
          key_len * max (length xs) 1 + sum_list (List.map (\<lambda>(m, _). length m + 8) xs)
      | VHash xs \<Rightarrow>
          key_len * max (length xs) 1 +
          sum_list (List.map (\<lambda>f. length (hf_field f) + length (hf_value f)) xs)
      | VStream d \<Rightarrow>
          let rows = max (sum_list (List.map (\<lambda>se. max (length (se_fields se)) 1) (sd_entries d))) 1 in
          key_len * rows + sum_list (List.map
            (\<lambda>se. sum_list (List.map (\<lambda>(f, v). length f + length v) (se_fields se))) (sd_entries d))
      | VModule d \<Rightarrow>
          key_len * max (length (m_values d)) 1 +
          sum_list (List.map (\<lambda>v. case v of MString s \<Rightarrow> length s | _ \<Rightarrow> 8) (m_values d)))"

section \<open>The builders behind one interface\<close>

datatype dyn_builder =
    DString string_builder
  | DList list_builder
  | DSet set_builder
  | DZset zset_builder
  | DHash hash_builder
  | DGeo geo_builder
  | DHll hll_builder
  | DModule module_builder
  | DStream stream_builder

fun dyn_push :: "dyn_builder \<Rightarrow> rdb_entry \<Rightarrow> dyn_builder" where
  "dyn_push (DString b) e = DString (string_push b e)"
| "dyn_push (DList b) e = DList (list_push b e)"
| "dyn_push (DSet b) e = DSet (set_push b e)"
| "dyn_push (DZset b) e = DZset (zset_push b e)"
| "dyn_push (DHash b) e = DHash (hash_push b e)"
| "dyn_push (DGeo b) e = DGeo (geo_push b e)"
| "dyn_push (DHll b) e = DHll (hll_push b e)"
| "dyn_push (DModule b) e = DModule (module_push b e)"
| "dyn_push (DStream b) e = DStream (stream_push b e)"

fun dyn_len :: "dyn_builder \<Rightarrow> usize" where
  "dyn_len (DString b) = string_len b"
| "dyn_len (DList b) = list_len b"
| "dyn_len (DSet b) = set_len b"
| "dyn_len (DZset b) = zset_len b"
| "dyn_len (DHash b) = hash_len b"
| "dyn_len (DGeo b) = geo_len b"
| "dyn_len (DHll b) = hll_len b"
| "dyn_len (DModule b) = module_len b"
| "dyn_len (DStream b) = stream_len b"

fun dyn_is_empty :: "dyn_builder \<Rightarrow> bool" where
  "dyn_is_empty (DString b) = string_is_empty b"
| "dyn_is_empty (DList b) = list_is_empty b"
| "dyn_is_empty (DSet b) = set_is_empty b"
| "dyn_is_empty (DZset b) = zset_is_empty b"
| "dyn_is_empty (DHash b) = hash_is_empty b"
| "dyn_is_empty (DGeo b) = geo_is_empty b"
| "dyn_is_empty (DHll b) = hll_is_empty b"
| "dyn_is_empty (DModule b) = module_is_empty b"
| "dyn_is_empty (DStream b) = stream_is_empty b"

fun dyn_data_bytes :: "dyn_builder \<Rightarrow> usize" where
  "dyn_data_bytes (DString b) = string_data_bytes b"
| "dyn_data_bytes (DList b) = list_data_bytes b"
| "dyn_data_bytes (DSet b) = set_data_bytes b"
| "dyn_data_bytes (DZset b) = zset_data_bytes b"
| "dyn_data_bytes (DHash b) = hash_data_bytes b"
| "dyn_data_bytes (DGeo b) = geo_data_bytes b"
| "dyn_data_bytes (DHll b) = hll_data_bytes b"
| "dyn_data_bytes (DModule b) = module_data_bytes b"
| "dyn_data_bytes (DStream b) = stream_data_bytes b"

definition boxed ::
  "('b \<Rightarrow> dyn_builder) \<Rightarrow> 'a \<times> 'b \<Rightarrow> 'a \<times> dyn_builder" where
  "boxed c p = (case p of (r, b) \<Rightarrow> (r, c b))"

fun dyn_finish :: "try_new \<Rightarrow> dyn_builder \<Rightarrow> (record_batch, convert_error) res \<times> dyn_builder" where
  "dyn_finish tn (DString b) = boxed DString (string_finish tn b)"
| "dyn_finish tn (DList b) = boxed DList (list_finish tn b)"
| "dyn_finish tn (DSet b) = boxed DSet (set_finish tn b)"
| "dyn_finish tn (DZset b) = boxed DZset (zset_finish tn b)"
| "dyn_finish tn (DHash b) = boxed DHash (hash_finish tn b)"
| "dyn_finish tn (DGeo b) = boxed DGeo (geo_finish tn b)"
| "dyn_finish tn (DHll b) = boxed DHll (hll_finish tn b)"
| "dyn_finish tn (DModule b) = boxed DModule (module_finish tn b)"
| "dyn_finish tn (DStream b) = boxed DStream (stream_finish tn b)"

section \<open>The batcher\<close>

record typed_batch =
  tb_tag :: type_tag
  tb_batch :: record_batch

record arrow_batcher =
  ab_config :: batcher_config
  ab_string :: string_builder
  ab_list :: list_builder
  ab_set :: set_builder
  ab_zset :: zset_builder
  ab_hash :: hash_builder
  ab_geo :: geo_builder
  ab_hll :: hll_builder
  ab_module :: module_builder
  ab_stream :: stream_builder
  skipped_oversized :: u64

definition batcher_new :: "batcher_config \<Rightarrow> arrow_batcher" where
  "batcher_new cfg =
     \<lparr>ab_config = cfg, ab_string = string_new, ab_list = list_new, ab_set = set_new,
      ab_zset = zset_new, ab_hash = hash_new, ab_geo = geo_new,
      ab_hll = hll_new, ab_module = module_new, ab_stream = stream_new,
      skipped_oversized = 0\<rparr>"

fun builder_ref :: "type_tag \<Rightarrow> arrow_batcher \<Rightarrow> dyn_builder" where
  "builder_ref TString st = DString (ab_string st)"
| "builder_ref TList st = DList (ab_list st)"
| "builder_ref TSet st = DSet (ab_set st)"
| "builder_ref TSortedSet st = DZset (ab_zset st)"
| "builder_ref THash st = DHash (ab_hash st)"
| "builder_ref TGeo st = DGeo (ab_geo st)"
| "builder_ref THyperLogLog st = DHll (ab_hll st)"
| "builder_ref TModule st = DModule (ab_module st)"
| "builder_ref TStream st = DStream (ab_stream st)"

fun builder_put :: "dyn_builder \<Rightarrow> arrow_batcher \<Rightarrow> arrow_batcher" where
  "builder_put (DString b) st = st\<lparr>ab_string := b\<rparr>"
| "builder_put (DList b) st = st\<lparr>ab_list := b\<rparr>"
| "builder_put (DSet b) st = st\<lparr>ab_set := b\<rparr>"
| "builder_put (DZset b) st = st\<lparr>ab_zset := b\<rparr>"
| "builder_put (DHash b) st = st\<lparr>ab_hash := b\<rparr>"
| "builder_put (DGeo b) st = st\<lparr>ab_geo := b\<rparr>"
| "builder_put (DHll b) st = st\<lparr>ab_hll := b\<rparr>"
| "builder_put (DModule b) st = st\<lparr>ab_module := b\<rparr>"
| "builder_put (DStream b) st = st\<lparr>ab_stream := b\<rparr>"

type_synonym 'a batch_op = "(arrow_batcher, 'a, convert_error) st"

definition flush_tag :: "try_new \<Rightarrow> type_tag \<Rightarrow> typed_batch list \<Rightarrow> typed_batch list batch_op" where
  "flush_tag tn tag out st =
     (let builder = builder_ref tag st in
      if dyn_is_empty builder then (Ok out, st)
      else (case dyn_finish tn builder of (r, builder) \<Rightarrow>
        (and_then r (\<lambda>batch. Ok (out @ [\<lparr>tb_tag = tag, tb_batch = batch\<rparr>])),
         builder_put builder st)))"

definition maybe_flush_tag ::
  "try_new \<Rightarrow> type_tag \<Rightarrow> typed_batch list \<Rightarrow> typed_batch list batch_op" where
  "maybe_flush_tag tn tag out st =
     (let b = builder_ref tag st; len = dyn_len b; bytes = dyn_data_bytes b;
          row_exceeded = len \<ge> batch_size (ab_config st);
          bytes_exceeded = (case batch_bytes (ab_config st) of None \<Rightarrow> False | Some m \<Rightarrow> bytes \<ge> m) in
      if row_exceeded \<or> bytes_exceeded then flush_tag tn tag out st else (Ok out, st))"

definition oversized :: "batcher_config \<Rightarrow> rdb_entry \<Rightarrow> bool" where
  "oversized cfg e =
     (case max_entry_bytes cfg of None \<Rightarrow> False | Some m \<Rightarrow> estimate_entry_bytes e > m)"

text \<open>The \<open>debug_assert!\<close> that the tag is not \<open>Geo\<close> panics in a debug build.\<close>

definition batcher_push :: "try_new \<Rightarrow> rdb_entry \<Rightarrow> typed_batch list batch_op" where
  "batcher_push tn e st =
     (case type_tag_for e of
        None \<Rightarrow> (Ok [], st)
      | Some tag \<Rightarrow>
          if oversized (ab_config st) e then
            (Ok [], st\<lparr>skipped_oversized := sat_add (skipped_oversized st) 1\<rparr>)
          else if tag = TGeo then (Panic, st)
          else
            let st = builder_put (dyn_push (builder_ref tag st) e) st;
                also_geo = should_emit_geo (heuristics (ab_config st)) tag e;
                st = (if also_geo then st\<lparr>ab_geo := geo_push (ab_geo st) e\<rparr> else st) in
            st_bind (maybe_flush_tag tn tag [])
              (\<lambda>out. if also_geo then maybe_flush_tag tn TGeo out else st_ret out) st)"

fun flush_tags :: "try_new \<Rightarrow> type_tag list \<Rightarrow> typed_batch list \<Rightarrow> typed_batch list batch_op" where
  "flush_tags tn [] out = st_ret out"
| "flush_tags tn (t # ts) out = st_bind (flush_tag tn t out) (flush_tags tn ts)"

definition batcher_flush :: "try_new \<Rightarrow> typed_batch list batch_op" where
  "batcher_flush tn = flush_tags tn tag_all []"

section \<open>The iterator adapter\<close>

text \<open>
  The inner iterator is its \<open>next\<close> function and its state.  \<open>batch_step\<close> is one turn of
  the loop in \<open>next\<close>: it returns from \<open>next\<close> (\<open>Inl\<close>) or goes round again (\<open>Inr\<close>).
\<close>

type_synonym 'i entry_source = "'i \<Rightarrow> rdb_entry parsed option \<times> 'i"

record 'i batch_iterator =
  bi_batcher :: arrow_batcher
  bi_iter :: 'i
  bi_pending :: "typed_batch list"
  bi_finished :: bool
  bi_skipped :: u64

definition batcher_process :: "arrow_batcher \<Rightarrow> 'i \<Rightarrow> 'i batch_iterator" where
  "batcher_process b i =
     \<lparr>bi_batcher = b, bi_iter = i, bi_pending = [], bi_finished = False, bi_skipped = 0\<rparr>"

definition skipped_count :: "'i batch_iterator \<Rightarrow> u64" where
  "skipped_count it = bi_skipped it"

definition skipped_oversized_count :: "'i batch_iterator \<Rightarrow> u64" where
  "skipped_oversized_count it = skipped_oversized (bi_batcher it)"

type_synonym batch_item = "(typed_batch, convert_error) res"

text \<open>What the iterator does with the outcome of \<open>push\<close> or \<open>flush\<close>.\<close>

definition batch_deliver ::
  "(typed_batch list, convert_error) res \<times> arrow_batcher \<Rightarrow> 'i batch_iterator \<Rightarrow>
   (batch_item option \<times> 'i batch_iterator) + 'i batch_iterator" where
  "batch_deliver p it =
     (case p of
        (Ok bs, b) \<Rightarrow> Inr (it\<lparr>bi_batcher := b, bi_pending := bi_pending it @ bs\<rparr>)
      | (Err e, b) \<Rightarrow> Inl (Some (Err e), it\<lparr>bi_batcher := b\<rparr>)
      | (Panic, b) \<Rightarrow> Inl (Some Panic, it\<lparr>bi_batcher := b\<rparr>))"

definition batch_step ::
  "try_new \<Rightarrow> 'i entry_source \<Rightarrow> 'i batch_iterator \<Rightarrow>
   (batch_item option \<times> 'i batch_iterator) + 'i batch_iterator" where
  "batch_step tn nxt it =
     (case bi_pending it of
        batch # rest \<Rightarrow> Inl (Some (Ok batch), it\<lparr>bi_pending := rest\<rparr>)
      | [] \<Rightarrow>
        if bi_finished it then Inl (None, it)
        else
          (case nxt (bi_iter it) of
             (Some (Ok e), i) \<Rightarrow>
               batch_deliver (batcher_push tn e (bi_batcher it)) (it\<lparr>bi_iter := i\<rparr>)
           | (Some (Err e), i) \<Rightarrow>
               (case e of
                  UnknownType _ \<Rightarrow> Inr (it\<lparr>bi_iter := i, bi_skipped := bi_skipped it + 1\<rparr>)
                | _ \<Rightarrow> Inl (Some (Err (Parser e)), it\<lparr>bi_iter := i\<rparr>))
           | (Some Panic, i) \<Rightarrow> Inl (Some Panic, it\<lparr>bi_iter := i\<rparr>)
           | (None, i) \<Rightarrow>
               batch_deliver (batcher_flush tn (bi_batcher it))
                 (it\<lparr>bi_iter := i, bi_finished := True\<rparr>)))"

partial_function (option) batch_next ::
  "try_new \<Rightarrow> 'i entry_source \<Rightarrow> 'i batch_iterator \<Rightarrow>
   (batch_item option \<times> 'i batch_iterator) option" where
  "batch_next tn nxt it =
     (case batch_step tn nxt it of
        Inl r \<Rightarrow> Some r
      | Inr it \<Rightarrow> batch_next tn nxt it)"

text \<open>Every item until the iterator is exhausted.\<close>

partial_function (option) batch_collect ::
  "try_new \<Rightarrow> 'i entry_source \<Rightarrow> 'i batch_iterator \<Rightarrow>
   (batch_item list \<times> 'i batch_iterator) option" where
  "batch_collect tn nxt it =
     Option.bind (batch_next tn nxt it) (\<lambda>(x, it). case x of
        None \<Rightarrow> Some ([], it)
      | Some item \<Rightarrow>
          Option.bind (batch_collect tn nxt it) (\<lambda>(items, it). Some (item # items, it)))"

end
