(* ===== verification/Row_Payload.thy ===== *)
theory Row_Payload
  imports Batcher
begin

text \<open>
  The bytes of an entry's rows: sums of the bytes the builders count, and the payload of some
  rows, which is what their binary cells occupy.  The payload of an entry's rows exceeds
  neither the bytes its builder counts nor the estimate of the whole entry.
\<close>

section \<open>Sums of bytes\<close>

lemma sum_list_add_const:
  fixes c :: nat
  shows "sum_list (List.map (\<lambda>x. c + f x) xs) = c * length xs + sum_list (List.map f xs)"
  by (induction xs) (simp_all add: algebra_simps)

lemma element_bytes_eq:
  "element_bytes e w xs = length (e_key e) * max (length xs) 1 + sum_list (List.map w xs)"
  by (cases xs) (simp_all add: element_bytes_def sum_list_add_const)

lemma sum_list_le:
  fixes f g :: "'a \<Rightarrow> nat"
  assumes "\<And>x. x \<in> set xs \<Longrightarrow> f x \<le> g x"
  shows "sum_list (List.map f xs) \<le> sum_list (List.map g xs)"
  using assms by (induction xs) (auto intro: add_mono)

lemma stream_entry_bytes_ge:
  "length (e_key e) * max (length (se_fields se)) 1 +
     sum_list (List.map (\<lambda>(f, v). length f + length v) (se_fields se)) \<le> stream_entry_bytes e se"
proof (cases "se_fields se = []")
  case False
  have "sum_list (List.map (\<lambda>p. length (e_key e) + (case p of (f, v) \<Rightarrow> length f + length v)) (se_fields se))
      \<le> stream_entry_bytes e se"
    unfolding stream_entry_bytes_def using False by (auto intro!: sum_list_le)
  moreover have "max (length (se_fields se)) 1 = length (se_fields se)"
    using False by (cases "se_fields se") simp_all
  ultimately show ?thesis by (simp only: sum_list_add_const)
qed (simp add: stream_entry_bytes_def)

section \<open>The bytes of binary cells\<close>

text \<open>
  The payload of some rows is the number of bytes in their binary cells, which the byte counter
  of a builder never falls below.
\<close>

definition cell_payload :: "cell \<Rightarrow> nat" where
  "cell_payload c = (case c of CBin b \<Rightarrow> length b | _ \<Rightarrow> 0)"

definition row_payload :: "row \<Rightarrow> nat" where
  "row_payload r = sum_list (List.map cell_payload r)"

definition payload :: "row list \<Rightarrow> nat" where
  "payload rows = sum_list (List.map row_payload rows)"

lemma cell_payload_simps [simp]:
  "cell_payload Null = 0" "cell_payload (CU8 a) = 0" "cell_payload (CU32 b) = 0"
  "cell_payload (CU64 c) = 0" "cell_payload (CI64 d) = 0" "cell_payload (CF64 f) = 0"
  "cell_payload (CBin g) = length g" "cell_payload (CStr h) = 0"
  by (simp_all add: cell_payload_def)

lemma row_payload_simps [simp]:
  "row_payload [] = 0" "row_payload (c # r) = cell_payload c + row_payload r"
  "row_payload (r @ q) = row_payload r + row_payload q"
  by (simp_all add: row_payload_def)

lemma payload_simps [simp]:
  "payload [] = 0" "payload (r # rows) = row_payload r + payload rows"
  "payload (rows @ rows') = payload rows + payload rows'"
  by (simp_all add: payload_def)

lemma payload_concat: "payload (List.concat rss) = sum_list (List.map payload rss)"
  by (induction rss) simp_all

lemma cell_payload_opt [simp]:
  "cell_payload (opt_cell CI64 x) = 0" "cell_payload (opt_cell CU64 y) = 0"
  "cell_payload (opt_cell CU8 z) = 0" "cell_payload (opt_cell CF64 u) = 0"
  by (cases x; cases y; cases z; cases u; simp)+

lemma row_payload_common [simp]: "row_payload (common_cells e n ty) = length (e_key e)"
  by (simp add: common_cells_def)

lemma payload_elements:
  assumes "\<And>i x. row_payload (f i x) = w x" "row_payload nulls = 0"
  shows "payload (element_rows e ty nulls f xs) = element_bytes e w xs"
proof -
  have "payload (List.map (\<lambda>(i, x). common_cells e n ty @ f i x) (enumerate k xs)) =
      sum_list (List.map (\<lambda>x. length (e_key e) + w x) xs)" for n k
    by (induction xs arbitrary: k) (simp_all add: assms(1))
  then show ?thesis by (simp add: element_rows_def element_bytes_def assms(2))
qed

lemma payload_stream_cells:
  "payload (List.map (\<lambda>r. common_cells e n ty @ r) (stream_entry_cells se)) =
     length (e_key e) * max (length (se_fields se)) 1 +
     sum_list (List.map (\<lambda>(f, v). length f + length v) (se_fields se))"
proof -
  have "payload (List.map (\<lambda>r. common_cells e n ty @ r)
          (List.map (\<lambda>(f, v). [CStr s, CBin f, CBin v]) fs)) =
      length (e_key e) * length fs + sum_list (List.map (\<lambda>(f, v). length f + length v) fs)" for s fs
    by (induction fs) (auto simp: algebra_simps)
  then show ?thesis
    by (cases "se_fields se = []")
      (simp_all add: stream_entry_cells_def max_absorb1 Suc_le_eq del: List.map_map)
qed

section \<open>The payload of an entry\<close>

definition module_payload :: "module_value \<Rightarrow> nat" where
  "module_payload v = (case v of MString s \<Rightarrow> length s | _ \<Rightarrow> 0)"

lemma payload_stream_rows:
  "payload (stream_rows e d) =
     (if sd_entries d = [] then length (e_key e)
      else sum_list (List.map (\<lambda>se. length (e_key e) * max (length (se_fields se)) 1 +
        sum_list (List.map (\<lambda>(f, v). length f + length v) (se_fields se))) (sd_entries d)))"
  by (simp add: stream_rows_def map_concat payload_concat payload_stream_cells comp_def)

lemma row_payload_geo: "row_payload (geo_cells p) = (case p of (m, s) \<Rightarrow> length m)"
  by (simp add: geo_cells_def split: prod.splits)

lemma row_payload_module: "row_payload (module_cells d i v) = module_payload v"
  by (simp add: module_cells_def module_payload_def split: module_value.splits)

lemma payload_entry_rows_eq:
  "payload (entry_rows t e) =
     (case (t, e_value e) of
        (TString, VString v) \<Rightarrow> length (e_key e) + length v
      | (TList, VList xs) \<Rightarrow> element_bytes e length xs
      | (TSet, VSet xs) \<Rightarrow> element_bytes e length xs
      | (TSortedSet, VSortedSet xs) \<Rightarrow> element_bytes e (\<lambda>(m, s). length m) xs
      | (THash, VHash xs) \<Rightarrow> element_bytes e (\<lambda>hf. length (hf_field hf) + length (hf_value hf)) xs
      | (TGeo, VSortedSet xs) \<Rightarrow> element_bytes e (\<lambda>(m, s). length m) xs
      | (THyperLogLog, VString d) \<Rightarrow> length (e_key e) + length d
      | (TModule, VModule d) \<Rightarrow> element_bytes e module_payload (m_values d)
      | (TStream, VStream d) \<Rightarrow> payload (stream_rows e d)
      | _ \<Rightarrow> 0)"
  by (cases t; cases "e_value e";
      simp add: entry_rows_def payload_elements row_payload_geo row_payload_module
        prod.case_distrib [of row_payload])

text \<open>The bytes the builder counts, and the estimate, of any tag the entry has rows for.\<close>

lemma payload_entry_rows: "payload (entry_rows t e) \<le> entry_bytes t e"
proof -
  note st = stream_entry_bytes_ge [unfolded One_nat_def]
  show ?thesis
    by (cases t; cases "e_value e")
      (auto simp: payload_entry_rows_eq entry_bytes_def payload_stream_rows st element_bytes_eq
        module_payload_def module_row_bytes_def module_value_bytes_def
        intro!: sum_list_le split: module_value.splits)
qed

lemma payload_le_estimate: "payload (entry_rows t e) \<le> estimate_entry_bytes e"
proof -
  have st: "sum_list (List.map (\<lambda>se. k * f se + g se) xs) =
      k * sum_list (List.map f xs) + sum_list (List.map g xs)" for k :: nat and f g and xs :: "stream_entry list"
    by (simp add: sum_list_addf sum_list_const_mult)
  show ?thesis
    by (cases t; cases "e_value e")
      (auto simp: payload_entry_rows_eq estimate_entry_bytes_def payload_stream_rows st element_bytes_eq
        module_payload_def Let_def intro!: sum_list_le split: module_value.splits)
qed

section \<open>The payload of a batch\<close>

text \<open>The bytes of the values of a column of type \<open>Binary\<close>.\<close>

definition binary_bytes :: "array \<Rightarrow> nat" where
  "binary_bytes c =
     (case c of
        BinaryArray xs \<Rightarrow> sum_list (List.map (\<lambda>x. case x of Some v \<Rightarrow> length v | None \<Rightarrow> 0) xs)
      | _ \<Rightarrow> 0)"

lemma binary_bytes_cells: "binary_bytes c = sum_list (List.map cell_payload (cells c))"
proof (cases c)
  case (BinaryArray xs)
  have "cell_payload (opt_cell CBin x) = (case x of Some v \<Rightarrow> length v | None \<Rightarrow> 0)" for x
    by (cases x) simp_all
  then show ?thesis by (simp add: BinaryArray binary_bytes_def comp_def)
qed (auto simp: binary_bytes_def comp_def opt_cell_def intro!: sum_list_0 [symmetric]
      split: option.splits)

lemma sum_list_swap:
  fixes f :: "'a \<Rightarrow> 'b \<Rightarrow> nat"
  shows "sum_list (List.map (\<lambda>x. sum_list (List.map (f x) ys)) xs) =
         sum_list (List.map (\<lambda>y. sum_list (List.map (\<lambda>x. f x y) xs)) ys)"
  by (induction xs) (simp_all add: sum_list_addf)

lemma batch_payload:
  assumes "conforms s (rb_columns rb)"
  shows "payload (batch_rows rb) = sum_list (List.map binary_bytes (rb_columns rb))"
proof -
  have len: "length (cells c) = num_rows rb" if "c \<in> set (rb_columns rb)" for c
    using assms that by (cases "rb_columns rb") (auto simp: conforms_def num_rows_def)
  have "List.map (\<lambda>i. cells c ! i) [0..<num_rows rb] = cells c" if "c \<in> set (rb_columns rb)" for c
    using len [OF that] by (metis map_nth)
  then have "binary_bytes c = sum_list (List.map (\<lambda>i. cell_payload (cells c ! i)) [0..<num_rows rb])"
    if "c \<in> set (rb_columns rb)" for c
    using that by (metis (no_types, lifting) binary_bytes_cells List.map_map comp_def map_cong)
  then have "sum_list (List.map binary_bytes (rb_columns rb)) =
      sum_list (List.map (\<lambda>c. sum_list (List.map (\<lambda>i. cell_payload (cells c ! i)) [0..<num_rows rb]))
        (rb_columns rb))"
    by (metis (no_types, lifting) map_cong)
  also have "\<dots> = payload (batch_rows rb)"
    by (subst sum_list_swap) (simp add: payload_def row_payload_def batch_rows_def comp_def)
  finally show ?thesis by simp
qed

end
