(* ===== verification/Batcher_Laws.thy ===== *)
theory Batcher_Laws
  imports Row_Payload
begin

text \<open>
  The batcher against its specification.  The abstract state gives each tag the rows that
  wait in its builder; \<open>routed\<close> says which entries go to which tag.  A push appends the rows
  of the entry to its tags and may move all rows of a tag into a batch; nothing is lost,
  duplicated or reordered, and no builder is left past a threshold.
\<close>

section \<open>One builder\<close>

fun dyn_holds :: "type_tag \<Rightarrow> dyn_builder \<Rightarrow> row list \<Rightarrow> usize \<Rightarrow> bool" where
  "dyn_holds t (DString b) rows k \<longleftrightarrow> t = TString \<and> string_b.holds b rows k"
| "dyn_holds t (DList b) rows k \<longleftrightarrow> t = TList \<and> list_b.holds b rows k"
| "dyn_holds t (DSet b) rows k \<longleftrightarrow> t = TSet \<and> set_b.holds b rows k"
| "dyn_holds t (DZset b) rows k \<longleftrightarrow> t = TSortedSet \<and> zset_b.holds b rows k"
| "dyn_holds t (DHash b) rows k \<longleftrightarrow> t = THash \<and> hash_b.holds b rows k"
| "dyn_holds t (DGeo b) rows k \<longleftrightarrow> t = TGeo \<and> geo_b.holds b rows k"
| "dyn_holds t (DHll b) rows k \<longleftrightarrow> t = THyperLogLog \<and> hll_b.holds b rows k"
| "dyn_holds t (DModule b) rows k \<longleftrightarrow> t = TModule \<and> module_b.holds b rows k"
| "dyn_holds t (DStream b) rows k \<longleftrightarrow> t = TStream \<and> stream_b.holds b rows k"

lemma dyn_holds_push:
  "dyn_holds t d rows k \<Longrightarrow>
   dyn_holds t (dyn_push d e) (rows @ entry_rows t e) (k + entry_bytes t e)"
  by (cases d)
    (auto intro: string_b.holds_push list_b.holds_push set_b.holds_push zset_b.holds_push
      hash_b.holds_push geo_b.holds_push hll_b.holds_push module_b.holds_push stream_b.holds_push)

lemmas holds_defs =
  string_b.holds_def list_b.holds_def set_b.holds_def zset_b.holds_def hash_b.holds_def
  geo_b.holds_def hll_b.holds_def module_b.holds_def stream_b.holds_def

lemma dyn_counts:
  assumes "dyn_holds t d rows k"
  shows "dyn_len d = length rows" "dyn_data_bytes d = k" "dyn_is_empty d \<longleftrightarrow> rows = []"
  using assms
  by (cases d; auto simp: holds_defs string_b.is_empty_len list_b.is_empty_len set_b.is_empty_len
      zset_b.is_empty_len hash_b.is_empty_len geo_b.is_empty_len hll_b.is_empty_len
      module_b.is_empty_len stream_b.is_empty_len)+

text \<open>A batch with its rows, which is what \<open>finish\<close> makes of a builder.\<close>

definition batch_of :: "type_tag \<Rightarrow> row list \<Rightarrow> record_batch \<Rightarrow> bool" where
  "batch_of t rows rb \<longleftrightarrow>
     rb_schema rb = schema_for t \<and> depicts (schema_for t) (rb_columns rb) rows"

lemma batch_of_rows:
  assumes "batch_of t rows rb"
  shows "batch_rows rb = rows" "num_rows rb = length rows" "conforms (schema_for t) (rb_columns rb)"
  using assms depicts_batch_rows [OF _ schema_for_not_Nil, of t rb rows]
    depicts_conforms [OF _ schema_for_not_Nil, of t "rb_columns rb" rows]
  by (simp_all add: batch_of_def)

lemma dyn_finish_ok:
  assumes "dyn_holds t d rows k" "try_new_accepts tn"
  shows "\<exists>rb d'. dyn_finish tn d = (Ok rb, d') \<and> batch_of t rows rb \<and> dyn_holds t d' [] 0"
  using assms(1)
  by (cases d)
    (auto simp: boxed_def batch_of_def holds_defs
      string_b.finish_ok(1) [OF _ assms(2)] list_b.finish_ok(1) [OF _ assms(2)]
      set_b.finish_ok(1) [OF _ assms(2)] zset_b.finish_ok(1) [OF _ assms(2)]
      hash_b.finish_ok(1) [OF _ assms(2)] geo_b.finish_ok(1) [OF _ assms(2)]
      hll_b.finish_ok(1) [OF _ assms(2)] module_b.finish_ok(1) [OF _ assms(2)]
      stream_b.finish_ok(1) [OF _ assms(2)]
      string_b.new_depicts list_b.new_depicts set_b.new_depicts zset_b.new_depicts
      hash_b.new_depicts geo_b.new_depicts hll_b.new_depicts module_b.new_depicts
      stream_b.new_depicts string_b.new_counts list_b.new_counts set_b.new_counts
      zset_b.new_counts hash_b.new_counts geo_b.new_counts hll_b.new_counts
      module_b.new_counts stream_b.new_counts)

section \<open>All builders\<close>

definition st_holds :: "arrow_batcher \<Rightarrow> (type_tag \<Rightarrow> row list) \<Rightarrow> (type_tag \<Rightarrow> usize) \<Rightarrow> bool" where
  "st_holds st R K \<longleftrightarrow>
     (\<forall>t. dyn_holds t (builder_ref t st) (R t) (K t) \<and> payload (R t) \<le> K t)"

lemma ref_put:
  "dyn_holds t d r k \<Longrightarrow> builder_ref u (builder_put d st) = (if u = t then d else builder_ref u st)"
  by (cases d; cases u) auto

lemma put_config [simp]:
  "ab_config (builder_put d st) = ab_config st"
  "skipped_oversized (builder_put d st) = skipped_oversized st"
  by (cases d; simp)+

lemma st_holds_put:
  "st_holds st R K \<Longrightarrow> dyn_holds t d r k \<Longrightarrow> payload r \<le> k \<Longrightarrow>
   st_holds (builder_put d st) (R(t := r)) (K(t := k))"
  by (simp add: st_holds_def ref_put)

lemma st_holds_push:
  assumes "st_holds st R K"
  shows "st_holds (builder_put (dyn_push (builder_ref t st) e) st)
    (R(t := R t @ entry_rows t e)) (K(t := K t + entry_bytes t e))"
  using assms payload_entry_rows [of t e]
  by (intro st_holds_put dyn_holds_push) (simp_all add: st_holds_def add_mono)

lemma geo_push_put:
  "st\<lparr>ab_geo := geo_push (ab_geo st) e\<rparr> = builder_put (dyn_push (builder_ref TGeo st) e) st"
  by simp

lemma st_holds_new: "st_holds (batcher_new cfg) (\<lambda>_. []) (\<lambda>_. 0)"
  unfolding st_holds_def
proof
  show "dyn_holds t (builder_ref t (batcher_new cfg)) [] 0 \<and> payload [] \<le> 0" for t
    by (cases t)
      (simp_all add: batcher_new_def string_b.holds_new list_b.holds_new set_b.holds_new
        zset_b.holds_new hash_b.holds_new geo_b.holds_new hll_b.holds_new module_b.holds_new
        stream_b.holds_new)
qed

section \<open>Flushing\<close>

definition tag_rows :: "type_tag \<Rightarrow> typed_batch list \<Rightarrow> row list" where
  "tag_rows t bs = List.concat (List.map (\<lambda>b. batch_rows (tb_batch b)) (filter (\<lambda>b. tb_tag b = t) bs))"

definition good_batch :: "typed_batch \<Rightarrow> bool" where
  "good_batch b \<longleftrightarrow>
     rb_schema (tb_batch b) = schema_for (tb_tag b) \<and>
     conforms (schema_for (tb_tag b)) (rb_columns (tb_batch b)) \<and>
     batch_rows (tb_batch b) \<noteq> [] \<and> num_rows (tb_batch b) = length (batch_rows (tb_batch b))"

lemma tag_rows_simps [simp]:
  "tag_rows t [] = []" "tag_rows t (bs @ cs) = tag_rows t bs @ tag_rows t cs"
  "tag_rows t (b # bs) = (if tb_tag b = t then batch_rows (tb_batch b) else []) @ tag_rows t bs"
  by (simp_all add: tag_rows_def)

lemma batch_of_good:
  "batch_of t rows rb \<Longrightarrow> rows \<noteq> [] \<Longrightarrow> good_batch \<lparr>tb_tag = t, tb_batch = rb\<rparr>"
  using batch_of_rows [of t rows rb] by (simp add: good_batch_def batch_of_def)

text \<open>
  One flush: the rows of the tag become a batch, if there are any, and its builder is empty.
  \<open>settles\<close> collects what a flush, conditional or not, does to the tag \<open>t\<close>.
\<close>

definition settles ::
  "type_tag \<Rightarrow> arrow_batcher \<Rightarrow> (type_tag \<Rightarrow> row list) \<Rightarrow> (type_tag \<Rightarrow> usize) \<Rightarrow> typed_batch list \<Rightarrow>
   arrow_batcher \<Rightarrow> (type_tag \<Rightarrow> row list) \<Rightarrow> (type_tag \<Rightarrow> usize) \<Rightarrow> bool" where
  "settles t st R K bs st' R' K' \<longleftrightarrow>
     st_holds st' R' K' \<and> (\<forall>u. u \<noteq> t \<longrightarrow> R' u = R u \<and> K' u = K u) \<and>
     tag_rows t bs @ R' t = R t \<and>
     (\<forall>b \<in> set bs. good_batch b \<and> tb_tag b = t \<and> batch_rows (tb_batch b) = R t) \<and>
     ab_config st' = ab_config st \<and> skipped_oversized st' = skipped_oversized st"

lemma settles_refl: "st_holds st R K \<Longrightarrow> settles t st R K [] st R K"
  by (simp add: settles_def)

lemma flush_tag_ok:
  assumes "st_holds st R K" "try_new_accepts tn"
  shows "\<exists>bs st' R' K'. flush_tag tn t out st = (Ok (out @ bs), st') \<and>
    settles t st R K bs st' R' K' \<and> R' t = []"
proof -
  have d: "dyn_holds t (builder_ref t st) (R t) (K t)"
    using assms(1) by (simp add: st_holds_def)
  show ?thesis
  proof (cases "R t = []")
    case True
    then have "flush_tag tn t out st = (Ok (out @ []), st)"
      using dyn_counts(3) [OF d] by (simp add: flush_tag_def)
    then show ?thesis using True settles_refl [OF assms(1)] by blast
  next
    case False
    obtain rb d' where f: "dyn_finish tn (builder_ref t st) = (Ok rb, d')" "batch_of t (R t) rb"
      "dyn_holds t d' [] 0"
      using dyn_finish_ok [OF d assms(2)] by auto
    let ?bs = "[\<lparr>tb_tag = t, tb_batch = rb\<rparr>]"
    have "flush_tag tn t out st = (Ok (out @ ?bs), builder_put d' st)"
      using False dyn_counts(3) [OF d] by (simp add: flush_tag_def f)
    moreover have "settles t st R K ?bs (builder_put d' st) (R(t := [])) (K(t := 0))"
      using st_holds_put [OF assms(1) f(3)] batch_of_good [OF f(2) False] batch_of_rows(1) [OF f(2)]
      by (simp add: settles_def)
    ultimately show ?thesis by (metis fun_upd_same)
  qed
qed

text \<open>A builder is calm when it is empty or below both thresholds.\<close>

definition calm_tag :: "batcher_config \<Rightarrow> row list \<Rightarrow> usize \<Rightarrow> bool" where
  "calm_tag cfg rows k \<longleftrightarrow>
     rows = [] \<or> length rows < batch_size cfg \<and> (\<forall>m. batch_bytes cfg = Some m \<longrightarrow> k < m)"

lemma maybe_flush_tag_ok:
  assumes "st_holds st R K" "try_new_accepts tn"
  shows "\<exists>bs st' R' K'. maybe_flush_tag tn t out st = (Ok (out @ bs), st') \<and>
    settles t st R K bs st' R' K' \<and> calm_tag (ab_config st) (R' t) (K' t)"
proof -
  have d: "dyn_holds t (builder_ref t st) (R t) (K t)"
    using assms(1) by (simp add: st_holds_def)
  note c = dyn_counts(1,2) [OF d]
  show ?thesis
  proof (cases "calm_tag (ab_config st) (R t) (K t) \<and> R t \<noteq> []")
    case True
    then have "maybe_flush_tag tn t out st = (Ok (out @ []), st)"
      by (auto simp: maybe_flush_tag_def c calm_tag_def split: option.splits)
    then show ?thesis using True settles_refl [OF assms(1)] by blast
  next
    case False
    obtain bs st' R' K' where f: "flush_tag tn t out st = (Ok (out @ bs), st')"
      "settles t st R K bs st' R' K'" "R' t = []"
      using flush_tag_ok [OF assms] by blast
    show ?thesis
    proof (cases "R t = []")
      case True
      have "maybe_flush_tag tn t out st = (Ok (out @ []), st)"
        using True dyn_counts(3) [OF d] by (auto simp: maybe_flush_tag_def flush_tag_def Let_def)
      then show ?thesis using True settles_refl [OF assms(1)] by (metis calm_tag_def)
    next
      case rows: False
      then have "maybe_flush_tag tn t out st = flush_tag tn t out st"
        using False by (auto simp: maybe_flush_tag_def c calm_tag_def split: option.splits)
      then show ?thesis using f by (metis calm_tag_def)
    qed
  qed
qed

section \<open>Pushing an entry\<close>

definition routed :: "batcher_config \<Rightarrow> type_tag \<Rightarrow> rdb_entry \<Rightarrow> bool" where
  "routed cfg t e \<longleftrightarrow> \<not> oversized cfg e \<and>
     (type_tag_for e = Some t \<or>
      t = TGeo \<and> (\<exists>tag. type_tag_for e = Some tag \<and> should_emit_geo (heuristics cfg) tag e))"

definition routed_rows :: "batcher_config \<Rightarrow> type_tag \<Rightarrow> rdb_entry \<Rightarrow> row list" where
  "routed_rows cfg t e = (if routed cfg t e then entry_rows t e else [])"

text \<open>The invariant between calls: every builder holds the rows waiting, and is calm.\<close>

definition waiting :: "arrow_batcher \<Rightarrow> (type_tag \<Rightarrow> row list) \<Rightarrow> bool" where
  "waiting st R \<longleftrightarrow>
     (\<exists>K. st_holds st R K \<and> (\<forall>t. calm_tag (ab_config st) (R t) (K t)))"

lemma waiting_new: "waiting (batcher_new cfg) (\<lambda>_. [])"
  unfolding waiting_def calm_tag_def using st_holds_new by blast

text \<open>What a push does to the batcher once the entry's rows are in its builders.\<close>

definition emits ::
  "arrow_batcher \<Rightarrow> (type_tag \<Rightarrow> row list) \<Rightarrow> typed_batch list \<Rightarrow> arrow_batcher \<Rightarrow>
   (type_tag \<Rightarrow> row list) \<Rightarrow> bool" where
  "emits st R bs st' R' \<longleftrightarrow>
     (\<forall>u. tag_rows u bs @ R' u = R u) \<and>
     (\<forall>b \<in> set bs. good_batch b \<and> batch_rows (tb_batch b) = R (tb_tag b)) \<and>
     ab_config st' = ab_config st \<and> skipped_oversized st' = skipped_oversized st"

lemma settles_emits:
  assumes "settles t st R K bs st' R' K'"
  shows "emits st R bs st' R'"
proof -
  have "tag_rows u bs @ R' u = R u" for u
  proof (cases "u = t")
    case False
    then have "tag_rows u bs = []"
      using assms by (auto simp: settles_def tag_rows_def filter_empty_conv)
    then show ?thesis using False assms by (simp add: settles_def)
  qed (use assms in \<open>simp add: settles_def\<close>)
  then show ?thesis using assms by (auto simp: emits_def settles_def)
qed

lemma emits_trans:
  assumes "emits st R bs st' R'" "settles g st' R' K' cs st'' R'' K''" "R' g = R g"
  shows "emits st R (bs @ cs) st'' R''"
proof -
  have "batch_rows (tb_batch b) = R (tb_tag b)" if "b \<in> set cs" for b
    using assms(2,3) that by (auto simp: settles_def)
  then show ?thesis
    using assms(1) settles_emits [OF assms(2)] by (auto simp: emits_def)
qed

lemma push_one_tag:
  assumes "st_holds st R K" "try_new_accepts tn"
    "\<And>u. u \<noteq> t \<Longrightarrow> calm_tag (ab_config st) (R u) (K u)"
  shows "\<exists>bs st' R'. maybe_flush_tag tn t [] st = (Ok bs, st') \<and> waiting st' R' \<and>
    emits st R bs st' R'"
proof -
  obtain bs st' R' K' where f: "maybe_flush_tag tn t [] st = (Ok bs, st')"
    "settles t st R K bs st' R' K'" "calm_tag (ab_config st) (R' t) (K' t)"
    using maybe_flush_tag_ok [OF assms(1,2), of t "[]"] by auto
  have "calm_tag (ab_config st') (R' u) (K' u)" for u
    using f(2,3) assms(3) [of u] by (cases "u = t") (auto simp: settles_def)
  then have "waiting st' R'"
    using f(2) by (auto simp: waiting_def settles_def)
  then show ?thesis using f settles_emits by blast
qed

lemma push_two_tags:
  assumes "st_holds st R K" "try_new_accepts tn" "t \<noteq> g"
    "\<And>u. u \<noteq> t \<Longrightarrow> u \<noteq> g \<Longrightarrow> calm_tag (ab_config st) (R u) (K u)"
  shows "\<exists>bs st' R'. st_bind (maybe_flush_tag tn t []) (maybe_flush_tag tn g) st = (Ok bs, st') \<and>
    waiting st' R' \<and> emits st R bs st' R'"
proof -
  obtain bs st1 R1 K1 where 1: "maybe_flush_tag tn t [] st = (Ok bs, st1)"
    "settles t st R K bs st1 R1 K1" "calm_tag (ab_config st) (R1 t) (K1 t)"
    using maybe_flush_tag_ok [OF assms(1,2), of t "[]"] by auto
  have h1: "st_holds st1 R1 K1" "ab_config st1 = ab_config st" "R1 g = R g"
    using 1(2) assms(3) by (auto simp: settles_def)
  obtain cs st2 R2 K2 where 2: "maybe_flush_tag tn g bs st1 = (Ok (bs @ cs), st2)"
    "settles g st1 R1 K1 cs st2 R2 K2" "calm_tag (ab_config st1) (R2 g) (K2 g)"
    using maybe_flush_tag_ok [OF h1(1) assms(2), of g bs] by auto
  have c2: "ab_config st2 = ab_config st" "\<And>u. u \<noteq> g \<Longrightarrow> R2 u = R1 u \<and> K2 u = K1 u"
    "\<And>u. u \<noteq> t \<Longrightarrow> R1 u = R u \<and> K1 u = K u"
    using 1(2) 2(2) h1(2) by (simp_all add: settles_def)
  have "calm_tag (ab_config st2) (R2 u) (K2 u)" for u
    using 1(3) 2(3) c2 h1(2) assms(3) assms(4) [of u] by (cases "u = g"; cases "u = t") simp_all
  then have "waiting st2 R2"
    using 2(2) by (auto simp: waiting_def settles_def)
  moreover have "emits st R (bs @ cs) st2 R2"
    using emits_trans [OF settles_emits [OF 1(2)] 2(2) h1(3)] .
  ultimately show ?thesis using 1(1) 2(1) by (metis st_bind_Ok)
qed

definition rows_after :: "batcher_config \<Rightarrow> rdb_entry \<Rightarrow> (type_tag \<Rightarrow> row list) \<Rightarrow> type_tag \<Rightarrow> row list" where
  "rows_after cfg e R t = R t @ routed_rows cfg t e"

lemma batcher_push_ok:
  assumes "waiting st R" "try_new_accepts tn" "\<not> oversized (ab_config st) e"
  shows "\<exists>bs st' R'. batcher_push tn e st = (Ok bs, st') \<and> waiting st' R' \<and>
    emits st (rows_after (ab_config st) e R) bs st' R'"
proof -
  let ?cfg = "ab_config st"
  obtain K where K: "st_holds st R K" "\<And>t. calm_tag ?cfg (R t) (K t)"
    using assms(1) by (auto simp: waiting_def)
  obtain tag where tag: "type_tag_for e = Some tag" "tag \<noteq> TGeo"
    using type_tag_for_some by blast
  let ?st1 = "builder_put (dyn_push (builder_ref tag st) e) st"
  let ?R1 = "R(tag := R tag @ entry_rows tag e)" and ?K1 = "K(tag := K tag + entry_bytes tag e)"
  have h1: "st_holds ?st1 ?R1 ?K1" using st_holds_push [OF K(1)] .
  show ?thesis
  proof (cases "should_emit_geo (heuristics ?cfg) tag e")
    case False
    have R1: "rows_after ?cfg e R = ?R1"
      using False tag assms(3) by (auto simp: rows_after_def routed_rows_def routed_def)
    obtain bs st' R' where f: "maybe_flush_tag tn tag [] ?st1 = (Ok bs, st')" "waiting st' R'"
      "emits ?st1 ?R1 bs st' R'"
      using push_one_tag [OF h1 assms(2), of tag] K(2) by auto
    have "batcher_push tn e st = (Ok bs, st')"
      using f(1) False tag assms(3) by (simp add: batcher_push_def)
    then show ?thesis using f(2,3) R1 by (auto simp: emits_def)
  next
    case True
    let ?st2 = "builder_put (dyn_push (builder_ref TGeo ?st1) e) ?st1"
    let ?R2 = "?R1(TGeo := ?R1 TGeo @ entry_rows TGeo e)"
    have R2: "rows_after ?cfg e R = ?R2"
      using True tag assms(3) by (auto simp: rows_after_def routed_rows_def routed_def)
    have h2: "st_holds ?st2 ?R2 (?K1(TGeo := ?K1 TGeo + entry_bytes TGeo e))"
      using st_holds_push [OF h1] .
    obtain bs st' R' where f:
      "st_bind (maybe_flush_tag tn tag []) (maybe_flush_tag tn TGeo) ?st2 = (Ok bs, st')"
      "waiting st' R'" "emits ?st2 ?R2 bs st' R'"
      using push_two_tags [OF h2 assms(2) tag(2)] K(2) by auto
    have "batcher_push tn e st = (Ok bs, st')"
      using f(1) True tag assms(3) by (simp add: batcher_push_def)
    then show ?thesis using f(2,3) R2 by (auto simp: emits_def)
  qed
qed

lemma batcher_push_skip:
  "oversized (ab_config st) e \<Longrightarrow>
   batcher_push tn e st = (Ok [], st\<lparr>skipped_oversized := sat_add (skipped_oversized st) 1\<rparr>)"
  using type_tag_for_some [of e] by (auto simp: batcher_push_def)

text \<open>The rows that may wait below both thresholds.\<close>

definition calm_rows :: "batcher_config \<Rightarrow> row list \<Rightarrow> bool" where
  "calm_rows cfg rows \<longleftrightarrow>
     rows = [] \<or> length rows < batch_size cfg \<and> (\<forall>m. batch_bytes cfg = Some m \<longrightarrow> payload rows < m)"

lemma waiting_calm: "waiting st R \<Longrightarrow> calm_rows (ab_config st) (R t)"
proof -
  assume "waiting st R"
  then obtain K where "calm_tag (ab_config st) (R t) (K t)" "payload (R t) \<le> K t"
    by (auto simp: waiting_def st_holds_def)
  then show ?thesis by (force simp: calm_tag_def calm_rows_def)
qed

end
