(* ===== verification/Batch_Iter.thy ===== *)
theory Batch_Iter
  imports Batcher_Laws
begin

text \<open>
  The iterator adapter of \<open>batcher.rs\<close> against its specification: driven by any source that
  ends, it ends, and what it yields is the function \<open>outputs\<close> of the list of items the
  source supplies; its batches hold, tag by tag, exactly the rows of the routed entries in
  order, and its errors are the errors of the source in order.
\<close>

section \<open>Flushing everything\<close>

lemma flush_tags_ok:
  assumes "st_holds st R K" "try_new_accepts tn" "distinct ts"
  shows "\<exists>bs st' R' K'. flush_tags tn ts out st = (Ok (out @ bs), st') \<and> st_holds st' R' K' \<and>
    emits st R bs st' R' \<and> (\<forall>t. R' t = (if t \<in> set ts then [] else R t))"
  using assms(1,3)
proof (induction ts arbitrary: st R K out)
  case Nil
  then show ?case
    by (intro exI [of _ "[]"] exI [of _ st] exI [of _ R] exI [of _ K]) (simp add: emits_def)
next
  case (Cons t ts)
  obtain bs s1 R1 K1 where 1: "flush_tag tn t out st = (Ok (out @ bs), s1)"
    "settles t st R K bs s1 R1 K1" "R1 t = []"
    using flush_tag_ok [OF Cons.prems(1) assms(2)] by blast
  have h1: "st_holds s1 R1 K1" "\<And>u. u \<noteq> t \<Longrightarrow> R1 u = R u" using 1(2) by (simp_all add: settles_def)
  obtain cs s2 R2 K2 where 2: "flush_tags tn ts (out @ bs) s1 = (Ok ((out @ bs) @ cs), s2)"
    "st_holds s2 R2 K2" "emits s1 R1 cs s2 R2" "\<forall>t. R2 t = (if t \<in> set ts then [] else R1 t)"
    using Cons.IH [OF h1(1), of "out @ bs"] Cons.prems(2) by auto
  have e1: "emits st R bs s1 R1" using settles_emits [OF 1(2)] .
  have own: "batch_rows (tb_batch b) = R (tb_tag b)" if b: "b \<in> set cs" for b
  proof -
    have g: "good_batch b" "batch_rows (tb_batch b) = R1 (tb_tag b)"
      using 2(3) b by (auto simp: emits_def)
    then have "tb_tag b \<noteq> t" using 1(3) by (auto simp: good_batch_def)
    then show ?thesis using g(2) h1(2) by simp
  qed
  have "emits st R (bs @ cs) s2 R2"
    using e1 2(3) own by (auto simp: emits_def)
  moreover have "\<forall>u. R2 u = (if u \<in> set (t # ts) then [] else R u)"
    using 2(4) 1(3) h1(2) by auto
  moreover have "flush_tags tn (t # ts) out st = (Ok (out @ (bs @ cs)), s2)"
    using 1(1) 2(1) by simp
  ultimately show ?case using 2(2) by blast
qed

lemma batcher_flush_ok:
  assumes "waiting st R" "try_new_accepts tn"
  shows "\<exists>bs st'. batcher_flush tn st = (Ok bs, st') \<and> waiting st' (\<lambda>_. []) \<and>
    emits st R bs st' (\<lambda>_. [])"
proof -
  obtain K where K: "st_holds st R K" using assms(1) by (auto simp: waiting_def)
  obtain bs st' R' K' where f: "flush_tags tn tag_all [] st = (Ok bs, st')" "st_holds st' R' K'"
    "emits st R bs st' R'" "\<forall>t. R' t = (if t \<in> set tag_all then [] else R t)"
    using flush_tags_ok [OF K assms(2) tag_all_sorted(2), of "[]"] by auto
  have R': "R' = (\<lambda>_. [])" using f(4) by (simp add: fun_eq_iff tag_all_UNIV)
  have "waiting st' (\<lambda>_. [])"
    using f(2) by (auto simp: waiting_def calm_tag_def R')
  then show ?thesis using f(1,3) by (auto simp: batcher_flush_def R')
qed

section \<open>The specification over a list of items\<close>

primrec supplies ::
  "'i entry_source \<Rightarrow> 'i \<Rightarrow> rdb_entry parsed list \<Rightarrow> 'i \<Rightarrow> bool" where
  "supplies nxt i [] i' \<longleftrightarrow> nxt i = (None, i')"
| "supplies nxt i (x # xs) i' \<longleftrightarrow> (\<exists>j. nxt i = (Some x, j) \<and> supplies nxt j xs i')"

definition out_items :: "(typed_batch list, convert_error) res \<Rightarrow> batch_item list" where
  "out_items r = (case r of Ok bs \<Rightarrow> List.map Ok bs | Err e \<Rightarrow> [Err e] | Panic \<Rightarrow> [Panic])"

fun skips :: "rdb_entry parsed \<Rightarrow> bool" where
  "skips (Err (UnknownType t)) \<longleftrightarrow> True"
| "skips x \<longleftrightarrow> False"

definition item_out :: "try_new \<Rightarrow> rdb_entry parsed \<Rightarrow> arrow_batcher \<Rightarrow> batch_item list \<times> arrow_batcher" where
  "item_out tn x b =
     (case x of
        Ok e \<Rightarrow> (case batcher_push tn e b of (r, b') \<Rightarrow> (out_items r, b'))
      | Err e \<Rightarrow> (if skips x then [] else [Err (Parser e)], b)
      | Panic \<Rightarrow> ([Panic], b))"

fun outputs ::
  "try_new \<Rightarrow> arrow_batcher \<Rightarrow> rdb_entry parsed list \<Rightarrow> batch_item list \<times> arrow_batcher" where
  "outputs tn b [] = (case batcher_flush tn b of (r, b') \<Rightarrow> (out_items r, b'))"
| "outputs tn b (x # xs) =
     (case item_out tn x b of (os, b') \<Rightarrow>
      (case outputs tn b' xs of (os', b'') \<Rightarrow> (os @ os', b'')))"

section \<open>The iterator computes the specification\<close>

lemma batch_collect_step:
  "batch_collect tn nxt it =
     (case batch_step tn nxt it of
        Inl (None, it') \<Rightarrow> Some ([], it')
      | Inl (Some x, it') \<Rightarrow>
          Option.bind (batch_collect tn nxt it') (\<lambda>(items, it'). Some (x # items, it'))
      | Inr it' \<Rightarrow> batch_collect tn nxt it')"
proof (cases "batch_step tn nxt it")
  case (Inl p)
  then have "batch_next tn nxt it = Some p"
    by (subst batch_next.simps) simp
  then show ?thesis
    unfolding Inl by (subst batch_collect.simps) (cases p; simp)
next
  case (Inr it')
  then have "batch_next tn nxt it = batch_next tn nxt it'"
    by (subst batch_next.simps) simp
  then have "batch_collect tn nxt it = batch_collect tn nxt it'"
    by (subst batch_collect.simps, subst (2) batch_collect.simps, rule arg_cong)
  then show ?thesis by (simp add: Inr)
qed

definition prefixed :: "'a list \<Rightarrow> ('a list \<times> 's) option \<Rightarrow> ('a list \<times> 's) option" where
  "prefixed os m = map_option (\<lambda>(items, s). (os @ items, s)) m"

lemma prefixed_simps [simp]:
  "prefixed os None = None" "prefixed os (Some (items, s)) = Some (os @ items, s)"
  by (simp_all add: prefixed_def)

lemma prefixed_Nil [simp]: "prefixed [] m = m"
  by (cases m) auto

lemma prefixed_prefixed [simp]: "prefixed os (prefixed ps m) = prefixed (os @ ps) m"
  by (cases m) auto

lemma bind_prefixed:
  "Option.bind m (\<lambda>(items, s). Some (x # items, s)) = prefixed [x] m"
  by (cases m) auto

lemma drain_pending:
  "batch_collect tn nxt (it\<lparr>bi_pending := ps\<rparr>) =
   prefixed (List.map Ok ps) (batch_collect tn nxt (it\<lparr>bi_pending := []\<rparr>))"
proof (induction ps)
  case (Cons p ps)
  have "batch_collect tn nxt (it\<lparr>bi_pending := p # ps\<rparr>) =
      prefixed [Ok p] (batch_collect tn nxt (it\<lparr>bi_pending := ps\<rparr>))"
    by (subst batch_collect_step) (simp add: batch_step_def bind_prefixed)
  then show ?case by (simp add: Cons.IH)
qed simp

lemma collect_finished:
  "bi_finished it \<Longrightarrow> bi_pending it = [] \<Longrightarrow> batch_collect tn nxt it = Some ([], it)"
  by (subst batch_collect_step) (simp add: batch_step_def)

lemma collect_deliver:
  assumes "batch_step tn nxt it = batch_deliver (r, b) it'" "bi_pending it' = []"
  shows "batch_collect tn nxt it =
    prefixed (out_items r) (batch_collect tn nxt (it'\<lparr>bi_batcher := b, bi_pending := []\<rparr>))"
proof -
  have e: "it'\<lparr>bi_batcher := b, bi_pending := []\<rparr> = it'\<lparr>bi_batcher := b\<rparr>"
    using assms(2) by (cases it') simp
  show ?thesis
  proof (cases r)
    case (Ok bs)
    then show ?thesis
      using assms drain_pending [of tn nxt bs "it'\<lparr>bi_batcher := b\<rparr>"]
      by (subst batch_collect_step) (simp add: batch_deliver_def out_items_def)
  next
    case (Err e)
    then show ?thesis
      using assms by (subst batch_collect_step) (simp add: batch_deliver_def out_items_def e bind_prefixed)
  next
    case Panic
    then show ?thesis
      using assms by (subst batch_collect_step) (simp add: batch_deliver_def out_items_def e bind_prefixed)
  qed
qed

lemma batch_collect_outputs:
  assumes "supplies nxt (bi_iter it) items i'" "\<not> bi_finished it" "bi_pending it = []"
  shows "batch_collect tn nxt it =
    (case outputs tn (bi_batcher it) items of (os, b) \<Rightarrow>
       Some (os, it\<lparr>bi_batcher := b, bi_iter := i', bi_finished := True,
         bi_skipped := bi_skipped it + word_of_nat (length (filter skips items))\<rparr>))"
  using assms
proof (induction items arbitrary: it)
  case Nil
  then have n: "nxt (bi_iter it) = (None, i')" by simp
  obtain r b where f: "batcher_flush tn (bi_batcher it) = (r, b)" by (cases "batcher_flush tn (bi_batcher it)")
  let ?t = "it\<lparr>bi_iter := i', bi_finished := True\<rparr>"
  have "batch_step tn nxt it = batch_deliver (r, b) ?t"
    using Nil by (simp add: batch_step_def f n)
  then have "batch_collect tn nxt it =
      prefixed (out_items r) (batch_collect tn nxt (?t\<lparr>bi_batcher := b, bi_pending := []\<rparr>))"
    by (rule collect_deliver) (simp add: Nil)
  also have "batch_collect tn nxt (?t\<lparr>bi_batcher := b, bi_pending := []\<rparr>) =
      Some ([], ?t\<lparr>bi_batcher := b, bi_pending := []\<rparr>)"
    by (rule collect_finished) simp_all
  finally show ?case
    using Nil f by (cases it) simp
next
  case (Cons x items)
  then obtain j where n: "nxt (bi_iter it) = (Some x, j)" and s: "supplies nxt j items i'" by auto
  obtain os b where o: "item_out tn x (bi_batcher it) = (os, b)"
    by (cases "item_out tn x (bi_batcher it)")
  let ?t = "it\<lparr>bi_iter := j, bi_batcher := b, bi_skipped := bi_skipped it + (if skips x then 1 else 0)\<rparr>"
  have "batch_collect tn nxt it = prefixed os (batch_collect tn nxt ?t)"
  proof (cases x)
    case (Ok e)
    obtain r b' where p: "batcher_push tn e (bi_batcher it) = (r, b')" by (cases "batcher_push tn e (bi_batcher it)")
    have "batch_step tn nxt it = batch_deliver (r, b') (it\<lparr>bi_iter := j\<rparr>)"
      using Cons.prems Ok by (simp add: batch_step_def n p)
    then have "batch_collect tn nxt it = prefixed (out_items r)
        (batch_collect tn nxt (it\<lparr>bi_iter := j\<rparr>\<lparr>bi_batcher := b', bi_pending := []\<rparr>))"
      by (rule collect_deliver) (simp add: Cons.prems)
    then show ?thesis
      using o Ok p Cons.prems by (cases it) (simp add: item_out_def)
  next
    case (Err e)
    then show ?thesis
      using o n Cons.prems(2,3)
      by (subst batch_collect_step)
        (cases it; cases e; simp add: batch_step_def item_out_def bind_prefixed)
  next
    case Panic
    then show ?thesis
      using o n Cons.prems(2,3)
      by (subst batch_collect_step) (cases it; simp add: batch_step_def item_out_def bind_prefixed)
  qed
  moreover have "batch_collect tn nxt ?t = (case outputs tn b items of (os', b') \<Rightarrow>
      Some (os', ?t\<lparr>bi_batcher := b', bi_iter := i', bi_finished := True,
        bi_skipped := bi_skipped ?t + word_of_nat (length (filter skips items))\<rparr>))"
    using Cons.IH [of ?t] s Cons.prems by simp
  ultimately show ?case
    using o by (auto simp: add.assoc split: prod.splits)
qed

section \<open>What the specification yields\<close>

definition oks :: "('a, 'e) res list \<Rightarrow> 'a list" where
  "oks xs = List.concat (List.map (\<lambda>x. case x of Ok a \<Rightarrow> [a] | _ \<Rightarrow> []) xs)"

definition errs :: "('a, 'e) res list \<Rightarrow> 'e list" where
  "errs xs = List.concat (List.map (\<lambda>x. case x of Err e \<Rightarrow> [e] | _ \<Rightarrow> []) xs)"

lemma oks_simps [simp]:
  "oks [] = []" "oks (xs @ ys) = oks xs @ oks ys" "oks (Ok a # xs) = a # oks xs"
  "oks (Err e # xs) = oks xs" "oks (Panic # xs) = oks xs" "oks (List.map Ok as) = as"
  by (simp_all add: oks_def comp_def concat_singletons [where f = "\<lambda>x. x"])

lemma errs_simps [simp]:
  "errs [] = []" "errs (xs @ ys) = errs xs @ errs ys" "errs (Ok a # xs) = errs xs"
  "errs (Err e # xs) = e # errs xs" "errs (Panic # xs) = errs xs" "errs (List.map Ok as) = []"
  by (simp_all add: errs_def comp_def)

definition unsupported :: "rdb_error \<Rightarrow> bool" where
  "unsupported e \<longleftrightarrow> (\<exists>t. e = UnknownType t)"

lemma unsupported_skips: "unsupported e \<longleftrightarrow> skips (Err e)"
  by (cases e) (auto simp: unsupported_def)

primrec sat_count :: "u64 \<Rightarrow> nat \<Rightarrow> u64" where
  "sat_count s 0 = s"
| "sat_count s (Suc n) = sat_count (sat_add s 1) n"

lemma sat_count_add: "sat_count (sat_count s m) n = sat_count s (m + n)"
  by (induction m arbitrary: s) auto

lemma unat_sat_add_1: "unat (sat_add s 1) = min (2 ^ 64 - 1) (unat s + 1)"
proof (cases "unat s + 1 < 2 ^ 64")
  case True
  then show ?thesis by (simp add: sat_add_def unat_word_ariths)
next
  case False
  then have "unat s = 2 ^ 64 - 1" using unsigned_less [of s, where ?'a = nat] by simp
  then show ?thesis by (simp add: sat_add_def)
qed

lemma unat_sat_count: "unat (sat_count s n) = min (2 ^ 64 - 1) (unat s + n)"
proof (induction n arbitrary: s)
  case 0
  then show ?case using unsigned_less [of s, where ?'a = nat] by simp
next
  case (Suc n)
  have "sat_count s (Suc n) = sat_count (sat_add s 1) n" by simp
  then show ?case by (simp only: Suc.IH unat_sat_add_1)
qed

text \<open>
  How full a batch is: the rows that waited below both thresholds, then the rows of at most one
  of the entries.
\<close>

definition filled :: "batcher_config \<Rightarrow> rdb_entry list \<Rightarrow> typed_batch \<Rightarrow> bool" where
  "filled cfg es tb \<longleftrightarrow>
     (\<exists>w x. batch_rows (tb_batch tb) = w @ x \<and> calm_rows cfg w \<and>
        (x = [] \<or> (\<exists>e \<in> set es. x = routed_rows cfg (tb_tag tb) e)))"

lemma filled_mono: "filled cfg es tb \<Longrightarrow> set es \<subseteq> set es' \<Longrightarrow> filled cfg es' tb"
  unfolding filled_def by blast

text \<open>The outcome of a run, for the rows, errors, batches and counters.\<close>

definition run_ok ::
  "batcher_config \<Rightarrow> (type_tag \<Rightarrow> row list) \<Rightarrow> u64 \<Rightarrow> rdb_entry parsed list \<Rightarrow>
   batch_item list \<Rightarrow> arrow_batcher \<Rightarrow> bool" where
  "run_ok cfg R sk items os b' \<longleftrightarrow>
     (\<forall>t. tag_rows t (oks os) = R t @ List.concat (List.map (routed_rows cfg t) (oks items))) \<and>
     errs os = List.map Parser (filter (\<lambda>e. \<not> unsupported e) (errs items)) \<and>
     Panic \<notin> set os \<and> (\<forall>tb \<in> set (oks os). good_batch tb) \<and>
     (\<forall>tb \<in> set (oks os). filled cfg (oks items) tb) \<and>
     skipped_oversized b' = sat_count sk (length (filter (oversized cfg) (oks items)))"

lemma emits_filled:
  assumes "emits st (rows_after cfg e R) bs st' R'" "\<And>t. calm_rows cfg (R t)" "tb \<in> set bs"
  shows "filled cfg [e] tb"
proof -
  have "batch_rows (tb_batch tb) = R (tb_tag tb) @ routed_rows cfg (tb_tag tb) e"
    using assms(1,3) by (simp add: emits_def rows_after_def)
  then show ?thesis using assms(2) unfolding filled_def by auto
qed

lemma emits_calm:
  assumes "emits st R bs st' R'" "\<And>t. calm_rows cfg (R t)" "tb \<in> set bs"
  shows "filled cfg es tb"
proof -
  have "batch_rows (tb_batch tb) = R (tb_tag tb) @ []"
    using assms(1,3) by (simp add: emits_def)
  then show ?thesis using assms(2) unfolding filled_def by blast
qed

text \<open>What it means for the rows and for the payload of the batch.\<close>

lemma filled_rows:
  assumes "filled cfg es tb" "\<forall>e \<in> set es. \<forall>t. length (entry_rows t e) \<le> M"
  shows "length (batch_rows (tb_batch tb)) \<le> batch_size cfg - 1 + M"
proof -
  obtain w x where b: "batch_rows (tb_batch tb) = w @ x" "calm_rows cfg w"
    "x = [] \<or> (\<exists>e \<in> set es. x = routed_rows cfg (tb_tag tb) e)"
    using assms(1) by (auto simp: filled_def)
  have "length w \<le> batch_size cfg - 1" using b(2) by (auto simp: calm_rows_def)
  moreover have "length x \<le> M" using b(3) assms(2) by (auto simp: routed_rows_def)
  ultimately show ?thesis by (simp add: b(1))
qed

lemma filled_payload:
  assumes "filled cfg es tb" "batch_bytes cfg = Some m"
    "\<And>e t. e \<in> set es \<Longrightarrow> routed cfg t e \<Longrightarrow> payload (entry_rows t e) \<le> M"
  shows "payload (batch_rows (tb_batch tb)) \<le> m - 1 + M"
proof -
  obtain w x where b: "batch_rows (tb_batch tb) = w @ x" "calm_rows cfg w"
    "x = [] \<or> (\<exists>e \<in> set es. x = routed_rows cfg (tb_tag tb) e)"
    using assms(1) by (auto simp: filled_def)
  have "payload w \<le> m - 1" using b(2) assms(2) by (auto simp: calm_rows_def)
  moreover have "payload x \<le> M" using b(3) assms(3) by (auto simp: routed_rows_def)
  ultimately show ?thesis by (simp add: b(1))
qed

lemma run_step:
  assumes "run_ok cfg R1 sk1 items os b'" "Panic \<notin> set os1"
    "\<And>t. tag_rows t (oks os1) @ R1 t = R t @ List.concat (List.map (routed_rows cfg t) (oks [x]))"
    "errs os1 = List.map Parser (filter (\<lambda>e. \<not> unsupported e) (errs [x]))"
    "\<And>tb. tb \<in> set (oks os1) \<Longrightarrow> good_batch tb"
    "\<And>tb. tb \<in> set (oks os1) \<Longrightarrow> filled cfg (oks [x]) tb"
    "sk1 = sat_count sk (length (filter (oversized cfg) (oks [x])))"
  shows "run_ok cfg R sk (x # items) (os1 @ os) b'"
proof -
  have ox: "oks (x # items) = oks [x] @ oks items" "errs (x # items) = errs [x] @ errs items"
    by (cases x; simp)+
  have "skipped_oversized b' =
      sat_count sk (length (filter (oversized cfg) (oks (x # items))))"
    using assms(1) unfolding run_ok_def ox assms(7) sat_count_add by simp
  moreover have "tag_rows t (oks (os1 @ os)) =
      R t @ List.concat (List.map (routed_rows cfg t) (oks (x # items)))" for t
    using assms(1) assms(3) [of t] unfolding run_ok_def ox by simp
  moreover have "errs (os1 @ os) = List.map Parser (filter (\<lambda>e. \<not> unsupported e) (errs (x # items)))"
    using assms(1,4) unfolding run_ok_def ox by simp
  moreover have "Panic \<notin> set (os1 @ os)" "\<forall>tb \<in> set (oks (os1 @ os)). good_batch tb"
    using assms(1,2,5) unfolding run_ok_def by auto
  moreover have "filled cfg (oks (x # items)) tb" if tb: "tb \<in> set (oks (os1 @ os))" for tb
  proof (cases "tb \<in> set (oks os1)")
    case True
    show ?thesis by (rule filled_mono [OF assms(6) [OF True]]) (simp add: ox)
  next
    case False
    then have "filled cfg (oks items) tb" using tb assms(1) by (simp add: run_ok_def)
    then show ?thesis by (rule filled_mono) (simp add: ox)
  qed
  ultimately show ?thesis unfolding run_ok_def by blast
qed

lemma outputs_ok:
  assumes "waiting b R" "try_new_accepts tn" "Panic \<notin> set items"
  shows "\<exists>os b'. outputs tn b items = (os, b') \<and> waiting b' (\<lambda>_. []) \<and>
    run_ok (ab_config b) R (skipped_oversized b) items os b' \<and> ab_config b' = ab_config b"
  using assms(1,3)
proof (induction items arbitrary: b R)
  case Nil
  obtain bs b' where f: "batcher_flush tn b = (Ok bs, b')" "waiting b' (\<lambda>_. [])"
    "emits b R bs b' (\<lambda>_. [])"
    using batcher_flush_ok [OF Nil(1) assms(2)] by blast
  have "filled (ab_config b) [] tb" if "tb \<in> set bs" for tb
    using emits_calm [OF f(3) waiting_calm [OF Nil(1)] that] .
  then have "run_ok (ab_config b) R (skipped_oversized b) [] (List.map Ok bs) b'"
    using f(3) by (auto simp: run_ok_def emits_def)
  then show ?case using f by (auto simp: out_items_def emits_def)
next
  case (Cons x items)
  note IH = Cons.IH and np = Cons.prems(2)
  show ?case
  proof (cases x)
    case (Ok e)
    show ?thesis
    proof (cases "oversized (ab_config b) e")
      case True
      let ?b = "b\<lparr>skipped_oversized := sat_add (skipped_oversized b) 1\<rparr>"
      have w: "waiting ?b R"
      proof -
        have "builder_ref t ?b = builder_ref t b" for t by (cases t) simp_all
        then show ?thesis using Cons.prems(1) by (simp add: waiting_def st_holds_def)
      qed
      obtain os b' where o: "outputs tn ?b items = (os, b')" "waiting b' (\<lambda>_. [])"
        "run_ok (ab_config ?b) R (skipped_oversized ?b) items os b'" "ab_config b' = ab_config ?b"
        using IH [OF w] np by auto
      have "run_ok (ab_config b) R (skipped_oversized b) (x # items) ([] @ os) b'"
        by (rule run_step [OF o(3) [simplified]])
          (simp_all add: Ok True routed_rows_def routed_def)
      then show ?thesis
        using o Ok True by (simp add: item_out_def batcher_push_skip out_items_def)
    next
      case False
      obtain bs b1 R1 where p: "batcher_push tn e b = (Ok bs, b1)" "waiting b1 R1"
        "emits b (rows_after (ab_config b) e R) bs b1 R1"
        using batcher_push_ok [OF Cons.prems(1) assms(2) False] by blast
      obtain os b' where o: "outputs tn b1 items = (os, b')" "waiting b' (\<lambda>_. [])"
        "run_ok (ab_config b1) R1 (skipped_oversized b1) items os b'" "ab_config b' = ab_config b1"
        using IH [OF p(2)] np by auto
      have c: "ab_config b1 = ab_config b" "skipped_oversized b1 = skipped_oversized b"
        using p(3) by (simp_all add: emits_def)
      have fill: "filled (ab_config b) [e] tb" if "tb \<in> set bs" for tb
        using emits_filled [OF p(3) waiting_calm [OF Cons.prems(1)] that] .
      have "run_ok (ab_config b) R (skipped_oversized b) (x # items) (List.map Ok bs @ os) b'"
      proof (rule run_step [OF o(3) [unfolded c]])
        show "tag_rows t (oks (List.map Ok bs)) @ R1 t =
            R t @ List.concat (List.map (routed_rows (ab_config b) t) (oks [x]))" for t
          using p(3) by (simp add: emits_def rows_after_def Ok)
        show "good_batch tb" if "tb \<in> set (oks (List.map Ok bs))" for tb
          using p(3) that by (simp add: emits_def)
        show "filled (ab_config b) (oks [x]) tb" if "tb \<in> set (oks (List.map Ok bs))" for tb
          using fill that Ok by simp
      qed (use False in \<open>auto simp: Ok\<close>)
      then show ?thesis
        using o p c Ok by (simp add: item_out_def out_items_def)
    qed
  next
    case (Err e)
    obtain os b' where o: "outputs tn b items = (os, b')" "waiting b' (\<lambda>_. [])"
      "run_ok (ab_config b) R (skipped_oversized b) items os b'" "ab_config b' = ab_config b"
      using IH [OF Cons.prems(1)] np by auto
    have "run_ok (ab_config b) R (skipped_oversized b) (x # items)
        ((if skips x then [] else [Err (Parser e)]) @ os) b'"
      by (rule run_step [OF o(3)]) (auto simp: Err unsupported_skips split: if_splits)
    then show ?thesis using o Err by (simp add: item_out_def)
  next
    case Panic
    then show ?thesis using np by simp
  qed
qed

end
