(* ===== verification/Writer.thy ===== *)
theory Writer
  imports Batch_Iter
begin

text \<open>
  \<open>crates/rdb-to-arrow/src/writer.rs\<close>: the driver shared by the format writers, their
  configuration and the file metadata.  The file formats are other crates: the functions
  that create, feed and close a writer are parameters, and act on a world of their own.
  The theorems say which writers the driver opens, what it hands to each, and that it closes
  every one of them on every path; they are stated over the log of these calls.
\<close>

section \<open>The driver\<close>

text \<open>\<open>write\<close> gets \<open>&mut Wr\<close>: it returns the writer it leaves behind.\<close>

record ('w, 'raw, 'wr, 'ce) writer_ops =
  wo_factory :: "type_tag \<Rightarrow> ('w, 'raw, convert_error) st"
  wo_open :: "type_tag \<Rightarrow> 'raw \<Rightarrow> ('w, 'wr, convert_error) st"
  wo_write :: "'wr \<Rightarrow> record_batch \<Rightarrow> 'w \<Rightarrow> (unit, convert_error) res \<times> 'wr \<times> 'w"
  wo_close :: "'wr \<Rightarrow> ('w, unit, 'ce) st"
  wo_into :: "'ce \<Rightarrow> convert_error"

type_synonym 'wr writers = "type_tag \<rightharpoonup> 'wr"

text \<open>A \<open>BTreeMap\<close> is iterated in the order of its keys.\<close>

definition in_order :: "'wr writers \<Rightarrow> (type_tag \<times> 'wr) list" where
  "in_order ws =
     List.concat (List.map (\<lambda>t. case ws t of Some wr \<Rightarrow> [(t, wr)] | None \<Rightarrow> []) tag_all)"

fun close_each ::
  "('w, 'raw, 'wr, 'ce) writer_ops \<Rightarrow> (type_tag \<times> 'wr) list \<Rightarrow> convert_error option \<Rightarrow>
   ('w, convert_error option, convert_error) st" where
  "close_each ops [] first_err w = (Ok first_err, w)"
| "close_each ops ((t, wr) # rest) first_err w =
     (case wo_close ops wr w of
        (Ok _, w) \<Rightarrow> close_each ops rest first_err w
      | (Err e, w) \<Rightarrow>
          close_each ops rest
            (case first_err of None \<Rightarrow> Some (wo_into ops e) | Some f \<Rightarrow> Some f) w
      | (Panic, w) \<Rightarrow> (Panic, w))"

definition close_all ::
  "('w, 'raw, 'wr, 'ce) writer_ops \<Rightarrow> 'wr writers \<Rightarrow> ('w, unit, convert_error) st" where
  "close_all ops ws =
     st_bind (close_each ops (in_order ws) None)
       (\<lambda>first_err. case first_err of Some e \<Rightarrow> st_err e | None \<Rightarrow> st_ret ())"

text \<open>The writer of a tag, opened and inserted at the first batch of the tag.\<close>

definition writer_entry ::
  "('w, 'raw, 'wr, 'ce) writer_ops \<Rightarrow> type_tag \<Rightarrow> ('wr writers \<times> 'w, 'wr, convert_error) st" where
  "writer_entry ops tag s =
     (case s of (ws, w) \<Rightarrow>
      (case ws tag of
         Some wr \<Rightarrow> (Ok wr, s)
       | None \<Rightarrow>
           (case st_bind (wo_factory ops tag) (wo_open ops tag) w of
              (Ok wr, w) \<Rightarrow> (Ok wr, (ws(tag \<mapsto> wr), w))
            | (Err e, w) \<Rightarrow> (Err e, (ws, w))
            | (Panic, w) \<Rightarrow> (Panic, (ws, w)))))"

definition write_batch ::
  "('w, 'raw, 'wr, 'ce) writer_ops \<Rightarrow> typed_batch \<Rightarrow> 'wr \<Rightarrow> ('wr writers \<times> 'w, unit, convert_error) st" where
  "write_batch ops tb wr s =
     (case s of (ws, w) \<Rightarrow>
      (case wo_write ops wr (tb_batch tb) w of (r, wr, w) \<Rightarrow> (r, (ws(tb_tag tb \<mapsto> wr), w))))"

fun populate ::
  "('w, 'raw, 'wr, 'ce) writer_ops \<Rightarrow> batch_item list \<Rightarrow> ('wr writers \<times> 'w, unit, convert_error) st" where
  "populate ops [] = st_ret ()"
| "populate ops (batch_result # rest) =
     st_bind (st_lift batch_result) (\<lambda>tb.
     st_bind (writer_entry ops (tb_tag tb)) (\<lambda>wr.
     st_bind (write_batch ops tb wr) (\<lambda>_.
     populate ops rest)))"

definition run_writer_pipeline ::
  "('w, 'raw, 'wr, 'ce) writer_ops \<Rightarrow> batch_item list \<Rightarrow> ('w, unit, convert_error) st" where
  "run_writer_pipeline ops batches w =
     (case populate ops batches (Map.empty, w) of
        (Panic, (ws, w)) \<Rightarrow> (Panic, w)
      | (populate_result, (ws, w)) \<Rightarrow>
          (case close_all ops ws w of
             (Panic, w) \<Rightarrow> (Panic, w)
           | (close_result, w) \<Rightarrow> (and_then populate_result (\<lambda>_. close_result), w)))"

section \<open>The formats\<close>

datatype compression = ZSTD | SNAPPY | LZ4 | LZ4_RAW | GZIP | UNCOMPRESSED

record parquet_config =
  compression :: compression
  max_row_group_size :: usize
  file_metadata :: "bytes \<rightharpoonup> bytes"

definition unknown_compression :: "bytes \<Rightarrow> bytes" where
  "unknown_compression other =
     str_bytes ''unknown compression: '' @ [39] @ other @ [39] @
     str_bytes ''. Valid: zstd, snappy, lz4, lz4-raw, gzip, none''"

definition parse_compression :: "bytes \<Rightarrow> (compression, bytes) res" where
  "parse_compression name =
     (let l = to_ascii_lowercase name in
      if l = str_bytes ''zstd'' then Ok ZSTD
      else if l = str_bytes ''snappy'' then Ok SNAPPY
      else if l = str_bytes ''lz4'' then Ok LZ4
      else if l = str_bytes ''lz4-raw'' \<or> l = str_bytes ''lz4_raw'' then Ok LZ4_RAW
      else if l = str_bytes ''gzip'' then Ok GZIP
      else if l = str_bytes ''none'' then Ok UNCOMPRESSED
      else Err (unknown_compression l))"

definition parquet_config_default :: parquet_config where
  "parquet_config_default =
     \<lparr>compression = ZSTD, max_row_group_size = 1048576, file_metadata = Map.empty\<rparr>"

text \<open>
  The file formats as their crates provide them: create a writer, append a batch, finish.
  Parquet takes a schema with metadata and the properties, Arrow IPC a schema; the creation
  of a CSV or JSON writer cannot fail.
\<close>

type_synonym ('w, 'wr) append_batch = "'wr \<Rightarrow> record_batch \<Rightarrow> 'w \<Rightarrow> (unit, string) res \<times> 'wr \<times> 'w"

record ('w, 'raw, 'wr) parquet_format =
  pf_try_new :: "'raw \<Rightarrow> schema \<times> (bytes \<rightharpoonup> bytes) \<Rightarrow> compression \<times> usize \<Rightarrow> ('w, 'wr, string) st"
  pf_write :: "('w, 'wr) append_batch"
  pf_close :: "'wr \<Rightarrow> ('w, unit, string) st"

record ('w, 'raw, 'wr) ipc_format =
  if_try_new :: "'raw \<Rightarrow> schema \<Rightarrow> ('w, 'wr, string) st"
  if_write :: "('w, 'wr) append_batch"
  if_finish :: "'wr \<Rightarrow> ('w, unit, string) st"

record ('w, 'raw, 'wr) line_format =
  lf_new :: "'raw \<Rightarrow> 'wr"
  lf_write :: "('w, 'wr) append_batch"
  lf_finish :: "'wr \<Rightarrow> ('w, unit, string) st"

definition into_write ::
  "(string \<Rightarrow> convert_error) \<Rightarrow> ('w, 'wr) append_batch \<Rightarrow>
   'wr \<Rightarrow> record_batch \<Rightarrow> 'w \<Rightarrow> (unit, convert_error) res \<times> 'wr \<times> 'w" where
  "into_write err f wr batch w = (case f wr batch w of (r, wr, w) \<Rightarrow> (map_err err r, wr, w))"

definition into_open ::
  "(string \<Rightarrow> convert_error) \<Rightarrow> ('w, 'wr, string) st \<Rightarrow> ('w, 'wr, convert_error) st" where
  "into_open err f w = (case f w of (r, w) \<Rightarrow> (map_err err r, w))"

definition write_parquet ::
  "('w, 'raw, 'wr) parquet_format \<Rightarrow> parquet_config \<Rightarrow>
   (type_tag \<Rightarrow> ('w, 'raw, convert_error) st) \<Rightarrow> batch_item list \<Rightarrow> ('w, unit, convert_error) st" where
  "write_parquet ff config factory batches =
     (let props = (compression config, max_row_group_size config) in
      run_writer_pipeline
        \<lparr>wo_factory = factory,
         wo_open = (\<lambda>tag raw.
           let schema = (if file_metadata config = Map.empty then (schema_for tag, Map.empty)
                         else (schema_for tag, file_metadata config)) in
           into_open Parquet (pf_try_new ff raw schema props)),
         wo_write = into_write Parquet (pf_write ff),
         wo_close = pf_close ff,
         wo_into = Parquet\<rparr> batches)"

definition write_arrow_ipc ::
  "('w, 'raw, 'wr) ipc_format \<Rightarrow> (type_tag \<Rightarrow> ('w, 'raw, convert_error) st) \<Rightarrow>
   batch_item list \<Rightarrow> ('w, unit, convert_error) st" where
  "write_arrow_ipc ff factory batches =
     run_writer_pipeline
       \<lparr>wo_factory = factory,
        wo_open = (\<lambda>tag raw. into_open Arrow (if_try_new ff raw (schema_for tag))),
        wo_write = into_write Arrow (if_write ff),
        wo_close = if_finish ff,
        wo_into = Arrow\<rparr> batches"

definition write_csv ::
  "('w, 'raw, 'wr) line_format \<Rightarrow> (type_tag \<Rightarrow> ('w, 'raw, convert_error) st) \<Rightarrow>
   batch_item list \<Rightarrow> ('w, unit, convert_error) st" where
  "write_csv ff factory batches =
     run_writer_pipeline
       \<lparr>wo_factory = factory,
        wo_open = (\<lambda>tag raw. st_ret (lf_new ff raw)),
        wo_write = into_write Arrow (lf_write ff),
        wo_close = (\<lambda>wr w. case lf_finish ff wr w of (r, w) \<Rightarrow> (map_err Convert_Io r, w)),
        wo_into = (\<lambda>e. e)\<rparr> batches"

definition write_json ::
  "('w, 'raw, 'wr) line_format \<Rightarrow> (type_tag \<Rightarrow> ('w, 'raw, convert_error) st) \<Rightarrow>
   batch_item list \<Rightarrow> ('w, unit, convert_error) st" where
  "write_json ff factory batches =
     run_writer_pipeline
       \<lparr>wo_factory = factory,
        wo_open = (\<lambda>tag raw. st_ret (lf_new ff raw)),
        wo_write = into_write Arrow (lf_write ff),
        wo_close = lf_finish ff,
        wo_into = Arrow\<rparr> batches"

section \<open>File metadata\<close>

definition RDB_EXPORTED_BY_KEY :: bytes where "RDB_EXPORTED_BY_KEY = str_bytes ''rdb.exported_by''"
definition RDB_HEURISTICS_KEY :: bytes where "RDB_HEURISTICS_KEY = str_bytes ''rdb.heuristics''"
definition RDB_EXPORTED_BY_VALUE :: bytes where
  "RDB_EXPORTED_BY_VALUE = str_bytes ''valkey-rdb-tools''"

text \<open>The AUX fields under prefixed keys; the keys of a map are distinct, so order is immaterial.\<close>

definition prefixed_aux :: "(bytes \<rightharpoonup> bytes) \<Rightarrow> (bytes \<rightharpoonup> bytes)" where
  "prefixed_aux a = (\<lambda>k. if take 4 k = str_bytes ''rdb.'' then a (drop 4 k) else None)"

definition metadata_from_rdb :: "rdb_metadata \<Rightarrow> heuristic set \<Rightarrow> (bytes \<rightharpoonup> bytes)" where
  "metadata_from_rdb meta hs =
     (prefixed_aux (aux meta))
       (RDB_EXPORTED_BY_KEY \<mapsto> RDB_EXPORTED_BY_VALUE, RDB_HEURISTICS_KEY \<mapsto> heuristic_format_set hs)"

section \<open>The log of the calls\<close>

text \<open>
  \<open>logged ops\<close> does what \<open>ops\<close> does and records every writer opened, every batch handed to
  a writer, every writer closed, and after each of these calls that fails, its error; a
  writer carries its tag.
\<close>

datatype event =
    Opened type_tag
  | Wrote type_tag record_batch
  | Closed type_tag
  | Failed convert_error

definition failed :: "('a, convert_error) res \<Rightarrow> event list" where
  "failed r = (case r of Err e \<Rightarrow> [Failed e] | _ \<Rightarrow> [])"

lemma failed_simps [simp]: "failed (Ok x) = []" "failed (Err e) = [Failed e]" "failed Panic = []"
  by (simp_all add: failed_def)

definition logged ::
  "('w, 'raw, 'wr, 'ce) writer_ops \<Rightarrow> ('w \<times> event list, 'raw, type_tag \<times> 'wr, 'ce) writer_ops" where
  "logged ops =
     \<lparr>wo_factory = (\<lambda>t (w, log). case wo_factory ops t w of (r, w) \<Rightarrow> (r, (w, log @ failed r))),
      wo_open = (\<lambda>t raw (w, log). case wo_open ops t raw w of
          (Ok wr, w) \<Rightarrow> (Ok (t, wr), (w, log @ [Opened t]))
        | (Err e, w) \<Rightarrow> (Err e, (w, log @ [Failed e]))
        | (Panic, w) \<Rightarrow> (Panic, (w, log))),
      wo_write = (\<lambda>(t, wr) b (w, log). case wo_write ops wr b w of
          (r, wr, w) \<Rightarrow> (r, (t, wr), (w, log @ Wrote t b # failed r))),
      wo_close = (\<lambda>(t, wr) (w, log). case wo_close ops wr w of
          (r, w) \<Rightarrow> (r, (w, log @ Closed t # failed (map_err (wo_into ops) r)))),
      wo_into = wo_into ops\<rparr>"

definition opened :: "event list \<Rightarrow> type_tag list" where
  "opened log = List.concat (List.map (\<lambda>e. case e of Opened t \<Rightarrow> [t] | _ \<Rightarrow> []) log)"

definition closed :: "event list \<Rightarrow> type_tag list" where
  "closed log = List.concat (List.map (\<lambda>e. case e of Closed t \<Rightarrow> [t] | _ \<Rightarrow> []) log)"

definition written :: "type_tag \<Rightarrow> event list \<Rightarrow> record_batch list" where
  "written t log =
     List.concat (List.map (\<lambda>e. case e of Wrote u b \<Rightarrow> if u = t then [b] else [] | _ \<Rightarrow> []) log)"

definition failures :: "event list \<Rightarrow> convert_error list" where
  "failures log = List.concat (List.map (\<lambda>e. case e of Failed e \<Rightarrow> [e] | _ \<Rightarrow> []) log)"

text \<open>The log up to the first writer that is closed, and from there on.\<close>

definition is_closed :: "event \<Rightarrow> bool" where
  "is_closed e = (case e of Closed _ \<Rightarrow> True | _ \<Rightarrow> False)"

definition before_close :: "event list \<Rightarrow> event list" where
  "before_close log = takeWhile (\<lambda>e. \<not> is_closed e) log"

definition at_close :: "event list \<Rightarrow> event list" where
  "at_close log = dropWhile (\<lambda>e. \<not> is_closed e) log"

lemma failures_simps [simp]:
  "failures [] = []" "failures (l @ m) = failures l @ failures m" "failures (Opened t # l) = failures l"
  "failures (Wrote t b # l) = failures l" "failures (Closed t # l) = failures l"
  "failures (Failed e # l) = e # failures l"
  by (simp_all add: failures_def)

lemma log_Cons [simp]:
  "opened (Failed e # l) = opened l" "closed (Failed e # l) = closed l" "written u (Failed e # l) = written u l"
  "opened (Closed t # l) = opened l" "closed (Closed t # l) = t # closed l" "written u (Closed t # l) = written u l"
  "opened (Wrote t b # l) = opened l" "closed (Wrote t b # l) = closed l"
  "written u (Wrote t b # l) = (if t = u then [b] else []) @ written u l"
  by (simp_all add: opened_def closed_def written_def)

lemma log_failed [simp]: "opened (failed r) = []" "closed (failed r) = []" "written u (failed r) = []"
  by (cases r; simp add: opened_def closed_def written_def)+

lemma failures_failed [simp]:
  "failures (failed r) = (case r of Err e \<Rightarrow> [e] | _ \<Rightarrow> [])"
  by (cases r) simp_all

lemma log_simps [simp]:
  "opened [] = []" "opened (l @ m) = opened l @ opened m" "opened [Opened t] = [t]"
  "opened [Wrote t b] = []" "opened [Closed t] = []"
  "closed [] = []" "closed (l @ m) = closed l @ closed m" "closed [Opened t] = []"
  "closed [Wrote t b] = []" "closed [Closed t] = [t]"
  "written u [] = []" "written u (l @ m) = written u l @ written u m" "written u [Opened t] = []"
  "written u [Wrote t b] = (if t = u then [b] else [])" "written u [Closed t] = []"
  by (simp_all add: opened_def closed_def written_def)

definition tag_batches :: "type_tag \<Rightarrow> typed_batch list \<Rightarrow> record_batch list" where
  "tag_batches t bs = List.map tb_batch (filter (\<lambda>b. tb_tag b = t) bs)"

text \<open>The open writers are those opened in the log, each once, under its own tag.\<close>

definition tracked :: "(type_tag \<times> 'wr) writers \<Rightarrow> event list \<Rightarrow> bool" where
  "tracked ws log \<longleftrightarrow>
     distinct (opened log) \<and> closed log = [] \<and>
     (\<forall>t. ws t = None \<longleftrightarrow> t \<notin> set (opened log)) \<and> (\<forall>t wr. ws t = Some wr \<longrightarrow> fst wr = t)"

lemma tracked_D:
  assumes "tracked ws log"
  shows "ws t = None \<longleftrightarrow> t \<notin> set (opened log)" "ws t = Some wr \<Longrightarrow> fst wr = t"
    "distinct (opened log)" "closed log = []"
  using assms unfolding tracked_def by blast+

lemma tracked_put:
  assumes "tracked ws log" "distinct (opened log')" "closed log' = []"
    "set (opened log') = insert t (set (opened log))"
  shows "tracked (ws(t \<mapsto> (t, wr))) log'"
proof -
  have "(ws(t \<mapsto> (t, wr))) u = None \<longleftrightarrow> u \<notin> set (opened log')" for u
    using tracked_D(1) [OF assms(1), of u] assms(4) by (cases "u = t") simp_all
  moreover have "fst x = u" if "(ws(t \<mapsto> (t, wr))) u = Some x" for u x
    using tracked_D(2) [OF assms(1), of u x] that by (cases "u = t") auto
  ultimately show ?thesis using assms(2,3) unfolding tracked_def by blast
qed

lemma tracked_open:
  "tracked ws log \<Longrightarrow> ws t = None \<Longrightarrow> tracked (ws(t \<mapsto> (t, wr))) (log @ [Opened t])"
  by (rule tracked_put) (simp_all add: tracked_D)

lemma tracked_write:
  "tracked ws log \<Longrightarrow> ws t \<noteq> None \<Longrightarrow> tracked (ws(t \<mapsto> (t, wr))) (log @ Wrote t b # failed r)"
  using tracked_D(1) [of ws log t] by (intro tracked_put) (auto simp: tracked_D)

lemma tracked_failed: "tracked ws log \<Longrightarrow> tracked ws (log @ failed r)"
  by (cases r) (simp_all add: tracked_def)

lemma writer_entry_logged:
  assumes "writer_entry (logged ops) t (ws, (w, log)) = (r, (ws', (w', log')))" "tracked ws log"
  shows "tracked ws' log' \<and> (\<forall>u. written u log' = written u log) \<and>
    (\<forall>wr. r = Ok wr \<longrightarrow> fst wr = t \<and> ws' t \<noteq> None)"
proof (cases "ws t")
  case (Some wr)
  then show ?thesis using assms tracked_D(2) [OF assms(2) Some] by (auto simp: writer_entry_def)
next
  case None
  show ?thesis
    using assms(1) tracked_open [OF assms(2) None] assms(2) tracked_failed [OF assms(2), of "Err _"]
    by (auto simp: writer_entry_def logged_def None st_bind_def split: prod.splits res.splits)
qed

lemma write_batch_logged:
  assumes "write_batch (logged ops) tb wr (ws, (w, log)) = (r, (ws', (w', log')))" "tracked ws log"
    "fst wr = tb_tag tb" "ws (tb_tag tb) \<noteq> None"
  shows "tracked ws' log' \<and> (\<forall>u. written u log' = written u log @ tag_batches u [tb])"
  using assms(1,3) tracked_write [OF assms(2,4)]
  by (auto simp: write_batch_def logged_def tag_batches_def split: prod.splits)

text \<open>
  The loop keeps this up; it hands the batches to their writers in order, up to the one it
  stopped at, and to the end when it succeeds.
\<close>

lemma tag_batches_simps [simp]:
  "tag_batches u [] = []"
  "tag_batches u (b # bs) = (if tb_tag b = u then [tb_batch b] else []) @ tag_batches u bs"
  by (simp_all add: tag_batches_def)

lemma populate_logged:
  assumes "populate (logged ops) items (ws, (w, log)) = (r, (ws', (w', log')))" "tracked ws log"
  shows "tracked ws' log' \<and>
    (\<exists>n. errs (take n items) = [] \<and>
      (\<forall>u. written u log' = written u log @ tag_batches u (oks (take n items)))) \<and>
    (r = Ok () \<longrightarrow> (\<forall>x \<in> set items. \<exists>b. x = Ok b) \<and>
      (\<forall>u. written u log' = written u log @ tag_batches u (oks items)))"
  using assms
proof (induction items arbitrary: ws w log)
  case Nil
  then show ?case by auto
next
  case (Cons x items)
  show ?case
  proof (cases x)
    case (Ok tb)
    obtain re ws1 w1 log1 where e:
      "writer_entry (logged ops) (tb_tag tb) (ws, (w, log)) = (re, (ws1, (w1, log1)))"
      by (metis prod.exhaust)
    note we = writer_entry_logged [OF e Cons.prems(2)]
    show ?thesis
    proof (cases re)
      case wr: (Ok wr)
      obtain rb ws2 w2 log2 where b:
        "write_batch (logged ops) tb wr (ws1, (w1, log1)) = (rb, (ws2, (w2, log2)))"
        by (metis prod.exhaust)
      have wb: "tracked ws2 log2 \<and> (\<forall>u. written u log2 = written u log1 @ tag_batches u [tb])"
        by (rule write_batch_logged [OF b]) (use we wr in simp_all)
      show ?thesis
      proof (cases rb)
        case rb: (Ok _)
        have "populate (logged ops) items (ws2, (w2, log2)) = (r, (ws', (w', log')))"
          using Cons.prems(1) Ok e wr b rb by simp
        note IH = Cons.IH [OF this conjunct1 [OF wb]]
        then obtain n where n: "errs (take n items) = []"
          "\<forall>u. written u log' = written u log2 @ tag_batches u (oks (take n items))" by auto
        have "errs (take (Suc n) (x # items)) = [] \<and>
            (\<forall>u. written u log' = written u log @ tag_batches u (oks (take (Suc n) (x # items))))"
          using n wb we Ok by simp
        moreover have "r = Ok () \<longrightarrow> (\<forall>y \<in> set (x # items). \<exists>b. y = Ok b) \<and>
            (\<forall>u. written u log' = written u log @ tag_batches u (oks (x # items)))"
          using IH wb we Ok by simp
        ultimately show ?thesis using IH by blast
      next
        case (Err e')
        then have f: "r = Err e'" "ws' = ws2" "log' = log2"
          using Cons.prems(1) Ok e wr b by simp_all
        have "errs (take 1 (x # items)) = [] \<and>
            (\<forall>u. written u log' = written u log @ tag_batches u (oks (take 1 (x # items))))"
          using wb we Ok f by simp
        then show ?thesis using wb f by blast
      next
        case Panic
        then have f: "r = Panic" "ws' = ws2" "log' = log2"
          using Cons.prems(1) Ok e wr b by simp_all
        have "errs (take 1 (x # items)) = [] \<and>
            (\<forall>u. written u log' = written u log @ tag_batches u (oks (take 1 (x # items))))"
          using wb we Ok f by simp
        then show ?thesis using wb f by blast
      qed
    next
      case (Err e')
      then have f: "r = Err e'" "ws' = ws1" "log' = log1"
        using Cons.prems(1) Ok e by simp_all
      have "errs (take 0 (x # items)) = [] \<and>
            (\<forall>u. written u log' = written u log @ tag_batches u (oks (take 0 (x # items))))"
        using we f by simp
      then show ?thesis using we f by blast
    next
      case Panic
      then have f: "r = Panic" "ws' = ws1" "log' = log1"
        using Cons.prems(1) Ok e by simp_all
      have "errs (take 0 (x # items)) = [] \<and>
            (\<forall>u. written u log' = written u log @ tag_batches u (oks (take 0 (x # items))))"
        using we f by simp
      then show ?thesis using we f by blast
    qed
  next
    case (Err e)
    then have f: "r = Err e" "ws' = ws" "log' = log"
      using Cons.prems(1) by simp_all
    have "errs (take 0 (x # items)) = [] \<and>
            (\<forall>u. written u log' = written u log @ tag_batches u (oks (take 0 (x # items))))"
      using f by simp
    then show ?thesis using Cons.prems(2) f by blast
  next
    case Panic
    then have f: "r = Panic" "ws' = ws" "log' = log"
      using Cons.prems(1) by simp_all
    have "errs (take 0 (x # items)) = [] \<and>
            (\<forall>u. written u log' = written u log @ tag_batches u (oks (take 0 (x # items))))"
      using f by simp
    then show ?thesis using Cons.prems(2) f by blast
  qed
qed

lemma close_each_logged:
  assumes "\<forall>(t, wr) \<in> set ps. fst wr = t" "\<And>wr w. fst (wo_close ops wr w) \<noteq> Panic"
  shows "\<exists>first w' log'. close_each (logged ops) ps f (w, log) = (Ok first, (w', log')) \<and>
    closed log' = closed log @ List.map fst ps \<and> opened log' = opened log \<and>
    (\<forall>u. written u log' = written u log) \<and> (f \<noteq> None \<longrightarrow> first = f)"
  using assms(1)
proof (induction ps arbitrary: f w log)
  case (Cons p ps)
  obtain t wr where p: "p = (t, (t, wr))" using Cons.prems by (cases p) auto
  obtain r w1 where c: "wo_close ops wr w = (r, w1)" by (cases "wo_close ops wr w")
  have cl: "wo_close (logged ops) (t, wr) (w, log) = (r, (w1, log @ Closed t # failed (map_err (wo_into ops) r)))"
    by (simp add: logged_def c)
  have "r \<noteq> Panic" using assms(2) [of wr w] c by simp
  then obtain f' where f': "close_each (logged ops) (p # ps) f (w, log) =
      close_each (logged ops) ps f' (w1, log @ Closed t # failed (map_err (wo_into ops) r))" "f \<noteq> None \<longrightarrow> f' = f"
    by (cases r) (auto simp: p cl split: option.splits)
  then show ?case using Cons.IH [of f' w1 "log @ Closed t # failed (map_err (wo_into ops) r)"] Cons.prems p by auto
qed simp

lemma in_order_tags:
  "List.map fst (in_order ws) = filter (\<lambda>t. ws t \<noteq> None) tag_all"
  "(t, wr) \<in> set (in_order ws) \<Longrightarrow> ws t = Some wr"
proof -
  have "List.map fst (List.concat (List.map (\<lambda>t. case ws t of Some wr \<Rightarrow> [(t, wr)] | None \<Rightarrow> []) ts)) =
      filter (\<lambda>t. ws t \<noteq> None) ts" for ts
    by (induction ts) (auto split: option.splits)
  then show "List.map fst (in_order ws) = filter (\<lambda>t. ws t \<noteq> None) tag_all"
    by (simp add: in_order_def)
  show "(t, wr) \<in> set (in_order ws) \<Longrightarrow> ws t = Some wr"
    by (auto simp: in_order_def split: option.splits)
qed

text \<open>The writers at the end of a loop that succeeds are those of the batches.\<close>

lemma populate_dom:
  "populate ops items (ws, w) = (Ok (), (ws', w')) \<Longrightarrow> dom ws' = dom ws \<union> tb_tag ` set (oks items)"
proof (induction items arbitrary: ws w)
  case (Cons x items)
  obtain tb wr ws1 w1 ws2 w2 where x: "x = Ok tb" and e: "writer_entry ops (tb_tag tb) (ws, w) = (Ok wr, (ws1, w1))"
    and b: "write_batch ops tb wr (ws1, w1) = (Ok (), (ws2, w2))"
    and p: "populate ops items (ws2, w2) = (Ok (), (ws', w'))"
    using Cons.prems by (cases x) (auto simp: st_bind_def split: prod.splits res.splits)
  have "dom ws1 = insert (tb_tag tb) (dom ws)"
    using e by (auto simp: writer_entry_def split: option.splits prod.splits res.splits)
  moreover have "dom ws2 = insert (tb_tag tb) (dom ws1)"
    using b by (auto simp: write_batch_def split: prod.splits)
  ultimately show ?case using Cons.IH [OF p] x by auto
qed simp

text \<open>
  The whole driver, for a run in which no writer panics on closing: every writer opened is
  closed, once, in the order of the tags; what was written is a prefix of the batches, tag
  by tag, and all of them if the run succeeds.
\<close>

lemma pipeline_logged:
  assumes run: "run_writer_pipeline (logged ops) items (w, []) = (r, (w', log))"
    and close: "\<And>wr w. fst (wo_close ops wr w) \<noteq> Panic" and "r \<noteq> Panic"
  shows "closed log = filter (\<lambda>t. t \<in> set (opened log)) tag_all" "distinct (opened log)"
    "\<exists>n. errs (take n items) = [] \<and> (\<forall>u. written u log = tag_batches u (oks (take n items)))"
    "r = Ok () \<Longrightarrow> (\<forall>x \<in> set items. \<exists>b. x = Ok b) \<and> (\<forall>u. written u log = tag_batches u (oks items))"
    "r = Ok () \<Longrightarrow> set (opened log) = tb_tag ` set (oks items)"
proof -
  obtain p ws w1 log1 where p: "populate (logged ops) items (Map.empty, (w, [])) = (p, (ws, (w1, log1)))"
    by (metis prod.exhaust)
  have "tracked (Map.empty :: (type_tag \<times> 'c) writers) []" by (simp add: tracked_def)
  note pl = populate_logged [OF p this]
  have np: "p \<noteq> Panic" using run assms(3) by (auto simp: run_writer_pipeline_def p)
  have "\<forall>(t, wr) \<in> set (in_order ws). fst wr = t"
    using pl in_order_tags(2) tracked_D(2) by fastforce
  then obtain first w2 log2 where c: "close_each (logged ops) (in_order ws) None (w1, log1) =
      (Ok first, (w2, log2))" "closed log2 = closed log1 @ List.map fst (in_order ws)"
    "opened log2 = opened log1" "\<forall>u. written u log2 = written u log1"
    using close_each_logged [OF _ close, of "in_order ws" None w1 log1] by blast
  have ca: "close_all (logged ops) ws (w1, log1) =
      (case first of Some e \<Rightarrow> Err e | None \<Rightarrow> Ok (), (w2, log2))"
    using c(1) by (simp add: close_all_def split: option.splits)
  have l: "log = log2" "r = Ok () \<Longrightarrow> p = Ok ()"
    using run np by (cases p; auto simp: run_writer_pipeline_def p ca split: option.splits)+
  have "List.map fst (in_order ws) = filter (\<lambda>t. t \<in> set (opened log)) tag_all"
    unfolding in_order_tags(1) l(1) c(3) using tracked_D(1) [OF conjunct1 [OF pl]] by simp
  then show "closed log = filter (\<lambda>t. t \<in> set (opened log)) tag_all"
    using c(2) l(1) tracked_D(4) [OF conjunct1 [OF pl]] by simp
  show "distinct (opened log)"
    using c(3) l(1) tracked_D(3) [OF conjunct1 [OF pl]] by simp
  show "\<exists>n. errs (take n items) = [] \<and> (\<forall>u. written u log = tag_batches u (oks (take n items)))"
    using pl c(4) l(1) by simp
  show "r = Ok () \<Longrightarrow> (\<forall>x \<in> set items. \<exists>b. x = Ok b) \<and> (\<forall>u. written u log = tag_batches u (oks items))"
    using pl c(4) l by simp
  show "set (opened log) = tb_tag ` set (oks items)" if "r = Ok ()"
  proof -
    have "dom ws = tb_tag ` set (oks items)"
      using populate_dom [of "logged ops" items Map.empty "(w, [])"] p l(2) [OF that] by simp
    moreover have "t \<in> set (opened log) \<longleftrightarrow> t \<in> dom ws" for t
      unfolding l(1) c(3) using tracked_D(1) [OF conjunct1 [OF pl], of t] by auto
    ultimately show ?thesis by blast
  qed
qed

section \<open>Which error is reported\<close>

lemma writer_entry_failures:
  assumes "writer_entry (logged ops) t (ws, (w, log)) = (r, (ws', (w', log')))"
  shows "\<exists>l. log' = log @ l @ failed r \<and> failures l = []"
proof (cases "ws t")
  case (Some wr)
  then show ?thesis using assms by (auto simp: writer_entry_def)
next
  case None
  show ?thesis
    using assms
    by (auto simp: writer_entry_def logged_def None st_bind_def split: prod.splits res.splits)
qed

lemma write_batch_failures:
  assumes "write_batch (logged ops) tb wr (ws, (w, log)) = (r, (ws', (w', log')))"
  shows "\<exists>l. log' = log @ l @ failed r \<and> failures l = []"
  using assms by (cases wr) (auto simp: write_batch_def logged_def split: prod.splits)

text \<open>
  The loop stops at the first failure: of a call, which is then the last event, or of the
  source of the batches.
\<close>

lemma populate_failures:
  assumes "populate (logged ops) items (ws, (w, log)) = (r, (ws', (w', log')))"
  shows "\<exists>l m. log' = log @ l @ m \<and> failures l = [] \<and>
    (case r of Ok _ \<Rightarrow> m = [] \<and> errs items = []
      | Err e \<Rightarrow> m = [Failed e] \<or> m = [] \<and> (\<exists>es. errs items = e # es)
      | Panic \<Rightarrow> True)"
  using assms
proof (induction items arbitrary: ws w log)
  case Nil
  then show ?case by auto
next
  case (Cons x items)
  show ?case
  proof (cases x)
    case (Ok tb)
    obtain re ws1 w1 log1 where e:
      "writer_entry (logged ops) (tb_tag tb) (ws, (w, log)) = (re, (ws1, (w1, log1)))"
      by (metis prod.exhaust)
    obtain l1 where l1: "log1 = log @ l1 @ failed re" "failures l1 = []"
      using writer_entry_failures [OF e] by blast
    show ?thesis
    proof (cases re)
      case wr: (Ok wr)
      obtain rb ws2 w2 log2 where b:
        "write_batch (logged ops) tb wr (ws1, (w1, log1)) = (rb, (ws2, (w2, log2)))"
        by (metis prod.exhaust)
      obtain l2 where l2: "log2 = log1 @ l2 @ failed rb" "failures l2 = []"
        using write_batch_failures [OF b] by blast
      show ?thesis
      proof (cases rb)
        case rb: (Ok _)
        have "populate (logged ops) items (ws2, (w2, log2)) = (r, (ws', (w', log')))"
          using Cons.prems Ok e wr b rb by simp
        from Cons.IH [OF this] obtain l m where "log' = log2 @ l @ m" "failures l = []"
          "case r of Ok _ \<Rightarrow> m = [] \<and> errs items = []
            | Err e \<Rightarrow> m = [Failed e] \<or> m = [] \<and> (\<exists>es. errs items = e # es) | Panic \<Rightarrow> True"
          by blast
        then show ?thesis
          using l1 l2 wr rb Ok by - (rule exI [of _ "l1 @ l2 @ l"], rule exI [of _ m], simp split: res.splits)
      qed (use Cons.prems Ok e wr b l1 l2 in \<open>auto intro: exI [of _ "l1 @ l2"]\<close>)
    qed (use Cons.prems Ok e l1 in \<open>auto intro: exI [of _ l1]\<close>)
  qed (use Cons.prems in auto)
qed

lemma close_each_failures:
  assumes "\<forall>(t, wr) \<in> set ps. fst wr = t"
    and "close_each (logged ops) ps f (w, log) = (Ok first, (w', log'))"
  shows "\<exists>l. log' = log @ l \<and> (l = [] \<or> is_closed (hd l)) \<and>
    first = (case f of Some e \<Rightarrow> Some e | None \<Rightarrow> (case failures l of [] \<Rightarrow> None | e # _ \<Rightarrow> Some e))"
  using assms
proof (induction ps arbitrary: f w log)
  case (Cons p ps)
  obtain t wr where p: "p = (t, (t, wr))" using Cons.prems(1) by (cases p) auto
  obtain r w1 where c: "wo_close ops wr w = (r, w1)" by (cases "wo_close ops wr w")
  let ?l = "Closed t # failed (map_err (wo_into ops) r)"
  have cl: "wo_close (logged ops) (t, wr) (w, log) = (r, (w1, log @ ?l))" "wo_into (logged ops) = wo_into ops"
    by (simp_all add: logged_def c)
  have "r \<noteq> Panic" using Cons.prems(2) by (auto simp: p cl)
  then obtain f' where f': "close_each (logged ops) ps f' (w1, log @ ?l) = (Ok first, (w', log'))"
    "f' = (case f of Some e \<Rightarrow> Some e | None \<Rightarrow> (case r of Err e \<Rightarrow> Some (wo_into ops e) | _ \<Rightarrow> None))"
    using Cons.prems(2) by (cases r; cases f) (auto simp: p cl)
  have "\<forall>(t, wr) \<in> set ps. fst wr = t" using Cons.prems(1) by simp
  from Cons.IH [OF this f'(1)] obtain l where "log' = (log @ ?l) @ l"
    "first = (case f' of Some e \<Rightarrow> Some e | None \<Rightarrow> (case failures l of [] \<Rightarrow> None | e # _ \<Rightarrow> Some e))"
    by blast
  then show ?case
    using f'(2) by (intro exI [of _ "?l @ l"]) (cases f; cases r; simp add: is_closed_def)
qed (auto split: option.split)

text \<open>
  What the whole driver reports: the failure of a call before the closing, or else the error
  of the source, or else the first failure of a closing.
\<close>

lemma pipeline_reports:
  assumes run: "run_writer_pipeline (logged ops) items (w, []) = (r, (w', log))"
    and "\<And>wr w. fst (wo_close ops wr w) \<noteq> Panic" "r \<noteq> Panic"
  shows "r = (case failures (before_close log) @ errs items @ failures (at_close log) of
      [] \<Rightarrow> Ok () | e # _ \<Rightarrow> Err e)"
    and "failures (butlast (before_close log)) = []"
proof -
  obtain p ws w1 log1 where p: "populate (logged ops) items (Map.empty, (w, [])) = (p, (ws, (w1, log1)))"
    by (metis prod.exhaust)
  have tr: "tracked (Map.empty :: (type_tag \<times> 'c) writers) []" by (simp add: tracked_def)
  note pl = populate_logged [OF p tr]
  have np: "p \<noteq> Panic" using run assms(3) by (auto simp: run_writer_pipeline_def p)
  have tags: "\<forall>(t, wr) \<in> set (in_order ws). fst wr = t"
    using pl in_order_tags(2) tracked_D(2) by fastforce
  then obtain first w2 log2 where c: "close_each (logged ops) (in_order ws) None (w1, log1) =
      (Ok first, (w2, log2))"
    using close_each_logged [OF _ assms(2), of "in_order ws" None w1 log1] by blast
  obtain l where l: "log2 = log1 @ l" "l = [] \<or> is_closed (hd l)"
    "first = (case failures l of [] \<Rightarrow> None | e # _ \<Rightarrow> Some e)"
    using close_each_failures [OF tags c] by auto
  have log: "log = log1 @ l" "r = and_then p (\<lambda>_. case first of Some e \<Rightarrow> Err e | None \<Rightarrow> Ok ())"
    using run np l(1) by (cases p; auto simp: run_writer_pipeline_def p close_all_def c split: option.splits)+
  have "closed log1 = []" using tracked_D(4) [OF conjunct1 [OF pl]] .
  then have "\<forall>e \<in> set log1. \<not> is_closed e"
    by (auto simp: closed_def is_closed_def split: event.splits)
  then have split: "before_close log = log1" "at_close log = l"
    using l(2) unfolding log(1) before_close_def at_close_def
    by (cases l; simp add: takeWhile_append2 dropWhile_append2)+
  obtain k m where k: "log1 = k @ m" "failures k = []"
    "case p of Ok _ \<Rightarrow> m = [] \<and> errs items = []
      | Err e \<Rightarrow> m = [Failed e] \<or> m = [] \<and> (\<exists>es. errs items = e # es) | Panic \<Rightarrow> True"
    using populate_failures [OF p] by auto
  show "r = (case failures (before_close log) @ errs items @ failures (at_close log) of
      [] \<Rightarrow> Ok () | e # _ \<Rightarrow> Err e)"
    unfolding split log(2) l(3) using k np by (cases p) (auto split: list.split)
  have "failures (butlast k) = []"
  proof (cases k rule: rev_cases)
    case (snoc ks e)
    then show ?thesis using k(2) by simp
  qed simp
  then show "failures (butlast (before_close log)) = []"
    unfolding split using k np by (cases p) (auto simp: butlast_append)
qed

text \<open>Logging changes nothing: the run without the log has the same result and world.\<close>

definition unlogged :: "(type_tag \<times> 'wr) writers \<Rightarrow> 'wr writers" where
  "unlogged ws = (\<lambda>t. map_option snd (ws t))"

lemma unlogged_upd: "unlogged (ws(t \<mapsto> p)) = (unlogged ws)(t \<mapsto> snd p)"
  by (auto simp: unlogged_def fun_eq_iff)

lemma writer_entry_unlogged:
  assumes "writer_entry (logged ops) t (ws, (w, log)) = (r, (ws', (w', log')))"
  shows "writer_entry ops t (unlogged ws, w) =
    (and_then r (\<lambda>wr. Ok (snd wr)), (unlogged ws', w'))"
proof (cases "ws t")
  case (Some wr)
  then show ?thesis using assms by (auto simp: writer_entry_def unlogged_def)
next
  case None
  then have u: "unlogged ws t = None" by (simp add: unlogged_def)
  obtain f w1 where f: "wo_factory ops t w = (f, w1)" by (cases "wo_factory ops t w")
  show ?thesis
  proof (cases f)
    case (Ok raw)
    obtain q w2 where "wo_open ops t raw w1 = (q, w2)" by (cases "wo_open ops t raw w1")
    then show ?thesis
      using assms None u f Ok
      by (cases q) (auto simp: writer_entry_def logged_def st_bind_def unlogged_upd)
  qed (use assms None u f in \<open>auto simp: writer_entry_def logged_def st_bind_def\<close>)
qed

lemma write_batch_unlogged:
  assumes "write_batch (logged ops) tb wr (ws, (w, log)) = (r, (ws', (w', log')))"
    "fst wr = tb_tag tb"
  shows "write_batch ops tb (snd wr) (unlogged ws, w) = (r, (unlogged ws', w'))"
  using assms by (cases wr) (auto simp: write_batch_def logged_def unlogged_upd split: prod.splits)

lemma populate_unlogged:
  assumes "populate (logged ops) items (ws, (w, log)) = (r, (ws', (w', log')))" "tracked ws log"
  shows "populate ops items (unlogged ws, w) = (r, (unlogged ws', w'))"
  using assms
proof (induction items arbitrary: ws w log)
  case Nil
  then show ?case by auto
next
  case (Cons x items)
  show ?case
  proof (cases x)
    case (Ok tb)
    obtain re ws1 w1 log1 where e:
      "writer_entry (logged ops) (tb_tag tb) (ws, (w, log)) = (re, (ws1, (w1, log1)))"
      by (metis prod.exhaust)
    note we = writer_entry_logged [OF e Cons.prems(2)] and ue = writer_entry_unlogged [OF e]
    show ?thesis
    proof (cases re)
      case wr: (Ok wr)
      obtain rb ws2 w2 log2 where b:
        "write_batch (logged ops) tb wr (ws1, (w1, log1)) = (rb, (ws2, (w2, log2)))"
        by (metis prod.exhaust)
      have t: "fst wr = tb_tag tb" "ws1 (tb_tag tb) \<noteq> None" using we wr by simp_all
      have wb: "tracked ws2 log2"
        using write_batch_logged [OF b conjunct1 [OF we] t] by simp
      note ub = write_batch_unlogged [OF b t(1)]
      show ?thesis
      proof (cases rb)
        case rb: (Ok _)
        have "populate (logged ops) items (ws2, (w2, log2)) = (r, (ws', (w', log')))"
          using Cons.prems(1) Ok e wr b rb by simp
        from Cons.IH [OF this wb] show ?thesis using Ok ue wr ub rb by simp
      qed (use Cons.prems(1) Ok e wr b ue ub in \<open>auto simp: st_bind_def\<close>)
    qed (use Cons.prems(1) Ok e ue in \<open>auto simp: st_bind_def\<close>)
  qed (use Cons.prems(1) in simp_all)
qed

lemma close_each_unlogged:
  "close_each (logged ops) ps f (w, log) = (r, (w', log')) \<Longrightarrow>
   \<forall>(t, wr) \<in> set ps. fst wr = t \<Longrightarrow>
   close_each ops (List.map (\<lambda>(t, wr). (t, snd wr)) ps) f w = (r, w')"
proof (induction ps arbitrary: f w log)
  case (Cons p ps)
  obtain t wr where p: "p = (t, (t, wr))" using Cons.prems(2) by (cases p) auto
  obtain c w1 where c: "wo_close ops wr w = (c, w1)" by (cases "wo_close ops wr w")
  have cl: "wo_close (logged ops) (t, wr) (w, log) = (c, (w1, log @ Closed t # failed (map_err (wo_into ops) c)))"
    "wo_into (logged ops) = wo_into ops"
    by (simp_all add: logged_def c)
  show ?case
    using Cons.prems Cons.IH [where log = "log @ Closed t # failed (map_err (wo_into ops) c)" and w = w1]
    by (cases c; cases f) (auto simp: p cl c)
qed simp

lemma in_order_unlogged:
  "in_order (unlogged ws) = List.map (\<lambda>(t, wr). (t, snd wr)) (in_order ws)"
proof -
  have "List.concat (List.map (\<lambda>t. case unlogged ws t of Some wr \<Rightarrow> [(t, wr)] | None \<Rightarrow> []) ts) =
      List.map (\<lambda>(t, wr). (t, snd wr))
        (List.concat (List.map (\<lambda>t. case ws t of Some wr \<Rightarrow> [(t, wr)] | None \<Rightarrow> []) ts))" for ts
    by (induction ts) (auto simp: unlogged_def split: option.splits)
  then show ?thesis by (simp add: in_order_def)
qed

lemma pipeline_unlogged:
  assumes "run_writer_pipeline (logged ops) items (w, []) = (r, (w', log))"
  shows "run_writer_pipeline ops items w = (r, w')"
proof -
  obtain p ws w1 log1 where p: "populate (logged ops) items (Map.empty, (w, [])) = (p, (ws, (w1, log1)))"
    by (metis prod.exhaust)
  have tr: "tracked (Map.empty :: (type_tag \<times> 'c) writers) []" by (simp add: tracked_def)
  have e: "unlogged (Map.empty :: (type_tag \<times> 'c) writers) = Map.empty" by (simp add: unlogged_def)
  have u: "populate ops items (Map.empty, w) = (p, (unlogged ws, w1))"
    using populate_unlogged [OF p tr] e by simp
  obtain c w2 log2 where c: "close_each (logged ops) (in_order ws) None (w1, log1) = (c, (w2, log2))"
    by (metis prod.exhaust)
  have "\<forall>(t, wr) \<in> set (in_order ws). fst wr = t"
    using populate_logged [OF p tr] in_order_tags(2) tracked_D(2) by fastforce
  then have uc: "close_each ops (in_order (unlogged ws)) None w1 = (c, w2)"
    using close_each_unlogged [OF c] by (simp add: in_order_unlogged)
  show ?thesis
    using assms by (cases p; cases c)
      (auto simp: run_writer_pipeline_def p u close_all_def c uc st_bind_def split: option.splits)
qed

section \<open>Metadata facts\<close>

lemma prefixed_key: "take 4 (str_bytes ''rdb.'' @ k) = str_bytes ''rdb.''" "drop 4 (str_bytes ''rdb.'' @ k) = k"
  by (simp_all add: str_bytes_def)

lemma metadata_heuristics:
  "metadata_from_rdb meta hs RDB_HEURISTICS_KEY = Some (heuristic_format_set hs)"
  by (simp add: metadata_from_rdb_def)

lemma metadata_aux:
  assumes "k \<noteq> str_bytes ''exported_by''" "k \<noteq> str_bytes ''heuristics''"
  shows "metadata_from_rdb meta hs (str_bytes ''rdb.'' @ k) = aux meta k"
proof -
  have "str_bytes ''rdb.'' @ k \<noteq> RDB_EXPORTED_BY_KEY" "str_bytes ''rdb.'' @ k \<noteq> RDB_HEURISTICS_KEY"
    using assms by (auto simp: RDB_EXPORTED_BY_KEY_def RDB_HEURISTICS_KEY_def str_bytes_def)
  then show ?thesis
    unfolding metadata_from_rdb_def prefixed_aux_def by (simp only: fun_upd_apply prefixed_key if_False simp_thms if_True)
qed

end
