(* ===== verification/Row_Facts.thy ===== *)
theory Row_Facts
  imports Batch_Iter
begin

text \<open>
  How many rows an entry becomes and how many bytes it counts: \<open>expected_row_count\<close> of
  \<open>schema.rs\<close> is the number of rows the builders make, and the estimate the size limit is
  checked against never exceeds the bytes the builders count.
\<close>

section \<open>Row counts\<close>

lemma length_element_rows [simp]: "length (element_rows e ty nulls f xs) = max (length xs) 1"
  by (cases xs) (simp_all add: element_rows_def)

lemma length_stream_entry_cells [simp]: "length (stream_entry_cells se) = max (length (se_fields se)) 1"
  by (cases "se_fields se") (simp_all add: stream_entry_cells_def)

definition stream_row_count :: "stream_data \<Rightarrow> nat" where
  "stream_row_count d =
     max (sum_list (List.map (\<lambda>se. max (length (se_fields se)) 1) (sd_entries d))) 1"

lemma length_stream_rows: "length (stream_rows e d) = stream_row_count d"
proof (cases "sd_entries d")
  case (Cons se ses)
  have "length (stream_rows e d) = sum_list (List.map (\<lambda>se. max (length (se_fields se)) 1) (sd_entries d))"
    by (simp add: Cons stream_rows_def length_concat comp_def)
  then show ?thesis by (simp add: Cons stream_row_count_def)
qed (simp add: stream_rows_def stream_row_count_def)

lemma entry_rows_count:
  assumes "type_tag_for e = Some t \<or> t = TGeo \<and> (\<exists>ms. e_value e = VSortedSet ms)"
  shows "expected_row_count e = word_of_nat (length (entry_rows t e))"
  using assms
  by (cases "e_value e")
    (auto simp: type_tag_for_def entry_rows_def expected_row_count_def length_stream_rows
      stream_row_count_def Let_def split: if_splits)

lemma entry_rows_nonempty:
  "type_tag_for e = Some t \<Longrightarrow> entry_rows t e \<noteq> []"
proof -
  assume t: "type_tag_for e = Some t"
  have "0 < length (entry_rows t e)"
    using t by (cases "e_value e")
      (auto simp: type_tag_for_def entry_rows_def length_stream_rows stream_row_count_def
        simp del: length_greater_0_conv split: if_splits)
  then show ?thesis by simp
qed

section \<open>Bytes\<close>

lemma estimate_le_stream:
  assumes "e_value e = VStream d"
  shows "estimate_entry_bytes e \<le> entry_bytes TStream e"
proof (cases "sd_entries d")
  case (Cons se ses)
  let ?n = "\<lambda>se. max (length (se_fields se)) 1"
  let ?w = "\<lambda>se. sum_list (List.map (\<lambda>(f, v). length f + length v) (se_fields se))"
  have "estimate_entry_bytes e =
      length (e_key e) * sum_list (List.map ?n (sd_entries d)) + sum_list (List.map ?w (sd_entries d))"
    by (simp add: estimate_entry_bytes_def assms Let_def Cons)
  also have "\<dots> = sum_list (List.map (\<lambda>se. length (e_key e) * ?n se + ?w se) (sd_entries d))"
    by (simp add: sum_list_addf sum_list_const_mult)
  also have "\<dots> \<le> sum_list (List.map (stream_entry_bytes e) (sd_entries d))"
    by (rule sum_list_le) (rule stream_entry_bytes_ge)
  finally show ?thesis by (simp add: entry_bytes_def assms Cons)
qed (simp add: estimate_entry_bytes_def entry_bytes_def assms)

lemma estimate_le_module:
  assumes "e_value e = VModule d"
  shows "estimate_entry_bytes e \<le> entry_bytes TModule e"
proof (cases "m_values d = []")
  case False
  have "sum_list (List.map (\<lambda>v. case v of MString s \<Rightarrow> length s | _ \<Rightarrow> 8) (m_values d))
      \<le> sum_list (List.map (module_row_bytes d) (m_values d))"
    by (rule sum_list_le) (auto simp: module_row_bytes_def module_value_bytes_def split: module_value.splits)
  then show ?thesis
    using False by (simp add: estimate_entry_bytes_def entry_bytes_def assms element_bytes_eq)
qed (simp add: estimate_entry_bytes_def entry_bytes_def assms)

definition exact_estimate :: "rdb_value \<Rightarrow> bool" where
  "exact_estimate v \<longleftrightarrow> \<not> (\<exists>d. v = VModule d) \<and> \<not> (\<exists>d. v = VStream d)"

lemma estimate_exact:
  "type_tag_for e = Some t \<Longrightarrow> exact_estimate (e_value e) \<Longrightarrow> estimate_entry_bytes e = entry_bytes t e"
  by (cases "e_value e")
    (auto simp: type_tag_for_def exact_estimate_def estimate_entry_bytes_def entry_bytes_def
      element_bytes_eq Let_def split: if_splits)

lemma estimate_le:
  assumes "type_tag_for e = Some t"
  shows "estimate_entry_bytes e \<le> entry_bytes t e"
proof (cases "exact_estimate (e_value e)")
  case True
  then show ?thesis using estimate_exact [OF assms] by simp
next
  case False
  then show ?thesis
    using assms estimate_le_stream [of e] estimate_le_module [of e]
    by (auto simp: exact_estimate_def type_tag_for_def)
qed

end
