(* ===== verification/Summarize.thy ===== *)
theory Summarize
  imports Row_Facts
begin

text \<open>
  \<open>crates/rdb-to-arrow/src/summarize.rs\<close>: one pass over the entries that counts keys and
  rows.  The counters are \<open>u64\<close>; the maps are \<open>BTreeMap\<close>s.  The theorems: the pass ends
  when its source does and computes a fold over the items; the row counts are the numbers of
  rows the exporter writes for the same items.
\<close>

section \<open>Counters\<close>

record type_count =
  tc_keys :: u64
  tc_rows :: u64

definition type_count_default :: type_count where
  "type_count_default = \<lparr>tc_keys = 0, tc_rows = 0\<rparr>"

text \<open>The four accumulators of the loop.\<close>

record counters =
  totals :: "type_tag \<rightharpoonup> type_count"
  per_db :: "u32 \<rightharpoonup> (type_tag \<rightharpoonup> u64)"
  per_db_keys :: "u32 \<rightharpoonup> u64"
  total_keys :: u64

definition counters_new :: counters where
  "counters_new =
     \<lparr>totals = Map.empty, per_db = Map.empty, per_db_keys = Map.empty, total_keys = 0\<rparr>"

definition or_insert :: "'v \<Rightarrow> 'v option \<Rightarrow> 'v" where
  "or_insert d x = (case x of Some v \<Rightarrow> v | None \<Rightarrow> d)"

definition bump_total :: "type_tag \<Rightarrow> bool \<Rightarrow> u64 \<Rightarrow> counters \<Rightarrow> counters" where
  "bump_total tag is_first rows c =
     (let tc = or_insert type_count_default (totals c tag);
          tc = (if is_first then tc\<lparr>tc_keys := tc_keys tc + 1\<rparr> else tc);
          tc = tc\<lparr>tc_rows := tc_rows tc + rows\<rparr> in
      c\<lparr>totals := (totals c)(tag \<mapsto> tc)\<rparr>)"

definition bump_db :: "u32 \<Rightarrow> type_tag \<Rightarrow> counters \<Rightarrow> counters" where
  "bump_db db tag c =
     (let m = or_insert Map.empty (per_db c db) in
      c\<lparr>per_db := (per_db c)(db \<mapsto> m(tag \<mapsto> or_insert 0 (m tag) + 1))\<rparr>)"

definition bump_keys :: "u32 \<Rightarrow> counters \<Rightarrow> counters" where
  "bump_keys db c =
     c\<lparr>total_keys := total_keys c + 1,
       per_db_keys := (per_db_keys c)(db \<mapsto> or_insert 0 (per_db_keys c db) + 1)\<rparr>"

definition count_entry :: "heuristic set \<Rightarrow> rdb_entry \<Rightarrow> counters \<Rightarrow> counters" where
  "count_entry hs e c =
     (case type_tag_for e of
        None \<Rightarrow> c
      | Some tag \<Rightarrow>
          let is_first = is_first_chunk e; rows = expected_row_count e;
              c = bump_total tag is_first rows c;
              c = (if is_first then bump_db (e_db e) tag (bump_keys (e_db e) c) else c) in
          if should_emit_geo hs tag e then
            let c = bump_total TGeo is_first rows c in
            if is_first then bump_db (e_db e) TGeo c else c
          else c)"

section \<open>The pass\<close>

partial_function (option) count_loop ::
  "'i entry_source \<Rightarrow> heuristic set \<Rightarrow> 'i \<Rightarrow> counters \<Rightarrow> (counters parsed \<times> 'i) option" where
  "count_loop nxt hs i c =
     (case nxt i of
        (None, i) \<Rightarrow> Some (Ok c, i)
      | (Some (Ok e), i) \<Rightarrow> count_loop nxt hs i (count_entry hs e c)
      | (Some (Err e), i) \<Rightarrow>
          (case e of UnknownType _ \<Rightarrow> count_loop nxt hs i c | _ \<Rightarrow> Some (Err e, i))
      | (Some Panic, i) \<Rightarrow> Some (Panic, i))"

text \<open>The pass over a list of items: it stops at the first error that is not skipped.\<close>

fun count_items :: "heuristic set \<Rightarrow> rdb_entry parsed list \<Rightarrow> counters \<Rightarrow> counters parsed" where
  "count_items hs [] c = Ok c"
| "count_items hs (Ok e # xs) c = count_items hs xs (count_entry hs e c)"
| "count_items hs (Err (UnknownType _) # xs) c = count_items hs xs c"
| "count_items hs (Err e # xs) c = Err e"
| "count_items hs (Panic # xs) c = Panic"

lemma count_loop_items:
  "supplies nxt i items i' \<Longrightarrow> \<exists>j. count_loop nxt hs i c = Some (count_items hs items c, j) \<and>
     (count_items hs items c \<noteq> Panic \<and> (\<forall>e. count_items hs items c \<noteq> Err e) \<longrightarrow> j = i')"
proof (induction items arbitrary: i c)
  case Nil
  then show ?case by (subst count_loop.simps) simp
next
  case (Cons x items)
  then obtain j where n: "nxt i = (Some x, j)" and s: "supplies nxt j items i'" by auto
  show ?case
  proof (cases x)
    case (Ok e)
    then show ?thesis using Cons.IH [OF s] n by (subst count_loop.simps) simp
  next
    case (Err e)
    then show ?thesis using Cons.IH [OF s] n by (subst count_loop.simps) (cases e; simp)
  next
    case Panic
    then show ?thesis using n by (subst count_loop.simps) simp
  qed
qed

section \<open>What is counted\<close>

definition count_of_tag :: "heuristic set \<Rightarrow> type_tag \<Rightarrow> rdb_entry \<Rightarrow> bool" where
  "count_of_tag hs t e \<longleftrightarrow> type_tag_for e = Some t \<or>
     t = TGeo \<and> (\<exists>tag. type_tag_for e = Some tag \<and> should_emit_geo hs tag e)"

definition rows_in :: "counters \<Rightarrow> type_tag \<Rightarrow> u64" where
  "rows_in c t = (case totals c t of Some tc \<Rightarrow> tc_rows tc | None \<Rightarrow> 0)"

definition keys_in :: "counters \<Rightarrow> type_tag \<Rightarrow> u64" where
  "keys_in c t = (case totals c t of Some tc \<Rightarrow> tc_keys tc | None \<Rightarrow> 0)"

definition db_keys_in :: "counters \<Rightarrow> u32 \<Rightarrow> u64" where
  "db_keys_in c db = or_insert 0 (per_db_keys c db)"

definition db_tag_keys_in :: "counters \<Rightarrow> u32 \<Rightarrow> type_tag \<Rightarrow> u64" where
  "db_tag_keys_in c db t = or_insert 0 (or_insert Map.empty (per_db c db) t)"

lemma bump_total_simps [simp]:
  "rows_in (bump_total tag f n c) t = rows_in c t + (if t = tag then n else 0)"
  "keys_in (bump_total tag f n c) t = keys_in c t + (if t = tag \<and> f then 1 else 0)"
  "total_keys (bump_total tag f n c) = total_keys c"
  "per_db_keys (bump_total tag f n c) = per_db_keys c"
  "per_db (bump_total tag f n c) = per_db c"
  "t \<in> dom (totals (bump_total tag f n c)) \<longleftrightarrow> t = tag \<or> t \<in> dom (totals c)"
  by (auto simp: rows_in_def keys_in_def bump_total_def or_insert_def type_count_default_def Let_def
      split: option.splits)

lemma bump_others [simp]:
  "totals (bump_db db tag c) = totals c" "total_keys (bump_db db tag c) = total_keys c"
  "per_db_keys (bump_db db tag c) = per_db_keys c"
  "totals (bump_keys db c) = totals c" "total_keys (bump_keys db c) = total_keys c + 1"
  "per_db (bump_keys db c) = per_db c"
  by (simp_all add: bump_db_def bump_keys_def Let_def)

lemma rows_in_bumps [simp]:
  "rows_in (bump_db db tag c) t = rows_in c t" "rows_in (bump_keys db c) t = rows_in c t"
  "keys_in (bump_db db tag c) t = keys_in c t" "keys_in (bump_keys db c) t = keys_in c t"
  by (simp_all add: rows_in_def keys_in_def)

lemma db_in_bumps [simp]:
  "db_keys_in (bump_total tag f n c) db = db_keys_in c db"
  "db_keys_in (bump_db d tag c) db = db_keys_in c db"
  "db_keys_in (bump_keys d c) db = db_keys_in c db + (if db = d then 1 else 0)"
  "db_tag_keys_in (bump_total tag f n c) db t = db_tag_keys_in c db t"
  "db_tag_keys_in (bump_db d tag c) db t = db_tag_keys_in c db t + (if db = d \<and> t = tag then 1 else 0)"
  "db_tag_keys_in (bump_keys d c) db t = db_tag_keys_in c db t"
  by (simp_all add: db_keys_in_def db_tag_keys_in_def bump_db_def bump_keys_def or_insert_def Let_def
      split: option.splits)

text \<open>The rows counted for one entry are the rows the builders make of it.\<close>

lemma geo_is_zset: "should_emit_geo hs tag e \<Longrightarrow> \<exists>ms. e_value e = VSortedSet ms"
  by (cases "e_value e") (auto simp: should_emit_geo_def is_geo_entry_def split: if_splits)

lemma count_entry_tag:
  "rows_in (count_entry hs e c) t =
     rows_in c t + (if count_of_tag hs t e then word_of_nat (length (entry_rows t e)) else 0)"
  "keys_in (count_entry hs e c) t =
     keys_in c t + (if count_of_tag hs t e \<and> is_first_chunk e then 1 else 0)"
  "total_keys (count_entry hs e c) = total_keys c + (if is_first_chunk e then 1 else 0)"
  "t \<in> dom (totals (count_entry hs e c)) \<longleftrightarrow> count_of_tag hs t e \<or> t \<in> dom (totals c)"
  "db_keys_in (count_entry hs e c) db =
     db_keys_in c db + (if is_first_chunk e \<and> e_db e = db then 1 else 0)"
  "db_tag_keys_in (count_entry hs e c) db t =
     db_tag_keys_in c db t + (if count_of_tag hs t e \<and> is_first_chunk e \<and> e_db e = db then 1 else 0)"
proof -
  obtain tag where tag: "type_tag_for e = Some tag" "tag \<noteq> TGeo" using type_tag_for_some by blast
  have r: "expected_row_count e = word_of_nat (length (entry_rows tag e))"
    using entry_rows_count [of e tag] tag by simp
  have g: "should_emit_geo hs tag e \<Longrightarrow> expected_row_count e = word_of_nat (length (entry_rows TGeo e))"
    using entry_rows_count [of e TGeo] geo_is_zset by blast
  show "rows_in (count_entry hs e c) t =
     rows_in c t + (if count_of_tag hs t e then word_of_nat (length (entry_rows t e)) else 0)"
    using tag r g by (auto simp: count_entry_def Let_def count_of_tag_def)
  show "keys_in (count_entry hs e c) t =
     keys_in c t + (if count_of_tag hs t e \<and> is_first_chunk e then 1 else 0)"
    using tag by (auto simp: count_entry_def Let_def count_of_tag_def)
  show "total_keys (count_entry hs e c) = total_keys c + (if is_first_chunk e then 1 else 0)"
    using tag by (simp add: count_entry_def Let_def)
  show "t \<in> dom (totals (count_entry hs e c)) \<longleftrightarrow> count_of_tag hs t e \<or> t \<in> dom (totals c)"
    using tag by (auto simp: count_entry_def Let_def count_of_tag_def)
  show "db_keys_in (count_entry hs e c) db =
     db_keys_in c db + (if is_first_chunk e \<and> e_db e = db then 1 else 0)"
    using tag by (auto simp: count_entry_def Let_def)
  show "db_tag_keys_in (count_entry hs e c) db t =
     db_tag_keys_in c db t + (if count_of_tag hs t e \<and> is_first_chunk e \<and> e_db e = db then 1 else 0)"
    using tag by (auto simp: count_entry_def Let_def count_of_tag_def)
qed

definition fatal :: "rdb_entry parsed \<Rightarrow> bool" where
  "fatal x \<longleftrightarrow> x = Panic \<or> (\<exists>e. x = Err e \<and> \<not> unsupported e)"

lemma count_items_ok:
  "(\<And>x. x \<in> set items \<Longrightarrow> \<not> fatal x) \<Longrightarrow>
   count_items hs items c = Ok (fold (count_entry hs) (oks items) c)"
proof (induction hs items c rule: count_items.induct)
  case (2 hs e xs c)
  then show ?case by simp
qed (auto simp: fatal_def unsupported_def)

lemma fold_counts:
  "rows_in (fold (count_entry hs) es c) t =
     rows_in c t + word_of_nat (length (List.concat (List.map (entry_rows t) (filter (count_of_tag hs t) es))))"
  "keys_in (fold (count_entry hs) es c) t =
     keys_in c t + word_of_nat (length (filter (\<lambda>e. count_of_tag hs t e \<and> is_first_chunk e) es))"
  "total_keys (fold (count_entry hs) es c) =
     total_keys c + word_of_nat (length (filter is_first_chunk es))"
  "db_keys_in (fold (count_entry hs) es c) db =
     db_keys_in c db + word_of_nat (length (filter (\<lambda>e. is_first_chunk e \<and> e_db e = db) es))"
  "db_tag_keys_in (fold (count_entry hs) es c) db t =
     db_tag_keys_in c db t +
     word_of_nat (length (filter (\<lambda>e. count_of_tag hs t e \<and> is_first_chunk e \<and> e_db e = db) es))"
  by (induction es arbitrary: c) (simp_all add: count_entry_tag add.assoc)

lemma totals_dom:
  "t \<in> dom (totals (fold (count_entry hs) es c)) \<longleftrightarrow>
   (\<exists>e \<in> set es. count_of_tag hs t e) \<or> t \<in> dom (totals c)"
  by (induction es arbitrary: c) (auto simp: count_entry_tag)

lemma counted_rows_nonempty:
  assumes "count_of_tag hs t e" shows "entry_rows t e \<noteq> []"
proof (cases "type_tag_for e = Some t")
  case True
  then show ?thesis by (rule entry_rows_nonempty)
next
  case False
  then obtain ms where "t = TGeo" "e_value e = VSortedSet ms"
    using assms geo_is_zset unfolding count_of_tag_def by blast
  then show ?thesis by (cases ms) (simp_all add: entry_rows_def element_rows_def)
qed

end
