(* ===== verification/Export.thy ===== *)
theory Export
  imports Reader_File Writer Summarize
begin

text \<open>
  The crates put together: the reader as the source of the batcher and of the summary.  From
  the bytes of a file to its rows, with chunking, which must not change them.
\<close>

section \<open>The reader as a source\<close>

lemma collect_supplies: "collect r = Some (items, r') \<Longrightarrow> supplies reader_next r items r'"
proof (induction items arbitrary: r)
  case Nil
  then show ?case
    by (subst (asm) collect.simps) (auto split: prod.splits option.splits bind_splits)
next
  case (Cons x items)
  then show ?case
    by (subst (asm) collect.simps) (auto split: prod.splits option.splits bind_splits)
qed

record entry_summary =
  es_header :: rdb_header
  es_metadata :: rdb_metadata
  es_crc_verified :: bool
  es_counters :: counters

definition summarize_entries ::
  "rdb_reader \<Rightarrow> heuristic set \<Rightarrow> (entry_summary parsed \<times> rdb_reader) option" where
  "summarize_entries r hs =
     (let hd = header r in
      map_option (\<lambda>(res, r').
        (and_then res (\<lambda>c. Ok \<lparr>es_header = hd, es_metadata = metadata r',
            es_crc_verified = crc_checked r', es_counters = c\<rparr>), r'))
        (count_loop reader_next hs r counters_new))"

lemma summarize_collect:
  assumes "collect r = Some (items, r')"
  shows "\<exists>j. summarize_entries r hs =
      Some (and_then (count_items hs items counters_new)
        (\<lambda>c. Ok \<lparr>es_header = header r, es_metadata = metadata r', es_crc_verified = crc_checked r',
          es_counters = c\<rparr>), j)"
proof -
  obtain j where j: "count_loop reader_next hs r counters_new = Some (count_items hs items counters_new, j)"
    "count_items hs items counters_new \<noteq> Panic \<and> (\<forall>e. count_items hs items counters_new \<noteq> Err e) \<longrightarrow> j = r'"
    using count_loop_items [OF collect_supplies [OF assms]] by blast
  then show ?thesis
    by (cases "count_items hs items counters_new") (auto simp: summarize_entries_def)
qed

section \<open>Exporting a source\<close>

definition export_batches ::
  "try_new \<Rightarrow> batcher_config \<Rightarrow> rdb_reader \<Rightarrow> (batch_item list \<times> rdb_reader batch_iterator) option" where
  "export_batches tn cfg r = batch_collect tn reader_next (batcher_process (batcher_new cfg) r)"

definition tag_output :: "batcher_config \<Rightarrow> type_tag \<Rightarrow> rdb_entry parsed list \<Rightarrow> row list" where
  "tag_output cfg t items = List.concat (List.map (routed_rows cfg t) (oks items))"

lemma tag_output_simps [simp]:
  "tag_output cfg t [] = []" "tag_output cfg t (xs @ ys) = tag_output cfg t xs @ tag_output cfg t ys"
  by (simp_all add: tag_output_def)

lemma batch_collect_new:
  assumes "supplies nxt i items i'" "Panic \<notin> set items" "try_new_accepts tn"
  shows "\<exists>os it'. batch_collect tn nxt (batcher_process (batcher_new cfg) i) = Some (os, it') \<and>
    run_ok cfg (\<lambda>_. []) 0 items os (bi_batcher it') \<and> bi_iter it' = i' \<and>
    skipped_count it' = word_of_nat (length (filter skips items)) \<and>
    skipped_oversized_count it' = skipped_oversized (bi_batcher it')"
proof -
  let ?it = "batcher_process (batcher_new cfg) i"
  have c: "ab_config (batcher_new cfg) = cfg" "skipped_oversized (batcher_new cfg) = 0"
    by (simp_all add: batcher_new_def)
  obtain os b' where o: "outputs tn (batcher_new cfg) items = (os, b')"
    "run_ok cfg (\<lambda>_. []) 0 items os b'"
    using outputs_ok [OF waiting_new assms(3,2), of cfg] c by auto
  have "batch_collect tn nxt ?it =
      (case outputs tn (bi_batcher ?it) items of (os, b) \<Rightarrow>
        Some (os, ?it\<lparr>bi_batcher := b, bi_iter := i', bi_finished := True,
          bi_skipped := bi_skipped ?it + word_of_nat (length (filter skips items))\<rparr>))"
    by (rule batch_collect_outputs) (simp_all add: batcher_process_def assms(1))
  then show ?thesis
    using o by (simp add: batcher_process_def skipped_count_def skipped_oversized_count_def)
qed

section \<open>Chunked rows\<close>

lemma map_pieces:
  fixes h :: "nat \<Rightarrow> 'a \<Rightarrow> 'b" and xs :: "'a list"
  assumes "0 < n"
  shows "List.concat (List.map (\<lambda>(off, part). List.map (\<lambda>(i, x). h (off + i) x) (enumerate 0 part))
      (pieces n off xs)) = List.map (\<lambda>(i, x). h i x) (enumerate off xs)"
proof -
  have shift: "List.map (\<lambda>(i, x). h (o' + i) x) (enumerate 0 ys) =
      List.map (\<lambda>(i, x). h i x) (enumerate o' ys)" for o' ys
    by (rule nth_equalityI) (simp_all add: nth_enumerate_eq)
  show ?thesis
    using assms
  proof (induction n off xs rule: pieces.induct)
    case (1 n off xs)
    show ?case
    proof (cases "xs = []")
      case False
      have "pieces n off xs = (off, take n xs) # pieces n (off + n) (drop n xs)"
        using False 1(2) by (subst pieces.simps) simp
      moreover have "enumerate off xs = enumerate off (take n xs) @ enumerate (off + n) (drop n xs)"
      proof (cases "n \<le> length xs")
        case True
        then show ?thesis
          using enumerate_append_eq [of off "take n xs" "drop n xs"] by simp
      qed simp
      ultimately show ?thesis
        using 1(1) 1(2) False by (simp add: shift)
    qed simp
  qed
qed

lemma pieces_bound:
  "0 < n \<Longrightarrow> (off', part) \<in> set (pieces n off xs) \<Longrightarrow> off' + length part \<le> off + length xs \<and> part \<noteq> []"
proof (induction n off xs rule: pieces.induct)
  case (1 n off xs)
  show ?case
  proof (cases "xs = []")
    case False
    then have "pieces n off xs = (off, take n xs) # pieces n (off + n) (drop n xs)"
      using 1(2) by (subst pieces.simps) simp
    then have "(off', part) = (off, take n xs) \<or> (off', part) \<in> set (pieces n (off + n) (drop n xs))"
      using 1(3) by simp
    then show ?thesis
    proof
      assume "(off', part) \<in> set (pieces n (off + n) (drop n xs))"
      then have p: "off' + length part \<le> off + n + length (drop n xs)" "part \<noteq> []"
        using 1(1) 1(2) False by blast+
      moreover have "n \<le> length xs"
        using \<open>(off', part) \<in> set (pieces n (off + n) (drop n xs))\<close> by (cases "n \<le> length xs") auto
      ultimately show ?thesis by simp
    qed (use False 1(2) in auto)
  qed (use 1 in simp)
qed

lemma enumerate_map: "enumerate n (List.map g xs) = List.map (\<lambda>(i, x). (i, g x)) (enumerate n xs)"
  by (induction xs arbitrary: n) auto

lemma enumerate_mem: "(i, x) \<in> set (enumerate n xs) \<Longrightarrow> n \<le> i \<and> i < n + length xs"
  by (auto simp: in_set_enumerate_eq)

lemma element_rows_pieces:
  fixes es :: "'a list" and g :: "'a \<Rightarrow> 'b"
  assumes n: "0 < n" and ne: "es \<noteq> []"
    and same: "\<And>off k. common_cells (E off) k ty = common_cells E0 k ty"
    and count: "\<And>off m. count_of (E off) m = word_of_nat (length es)"
      "count_of E0 (length es) = word_of_nat (length es)"
    and F: "\<And>off i x. off + i < length es \<Longrightarrow> F off i x = F0 (off + i) x"
  shows "List.concat (List.map (\<lambda>(off, part). element_rows (E off) ty nulls (F off) (List.map g part))
      (pieces n 0 es)) = element_rows E0 ty nulls F0 (List.map g es)"
proof -
  let ?H = "\<lambda>i x. common_cells E0 (word_of_nat (length es)) ty @ F0 i (g x)"
  have one: "element_rows (E off) ty nulls (F off) (List.map g part) =
      List.map (\<lambda>(i, x). ?H (off + i) x) (enumerate 0 part)" if p: "(off, part) \<in> set (pieces n 0 es)" for off part
  proof -
    have b: "off + length part \<le> length es" "part \<noteq> []" using pieces_bound [OF n p] by simp_all
    have "F off i (g x) = F0 (off + i) (g x)" if "(i, x) \<in> set (enumerate 0 part)" for i x
      using enumerate_mem [OF that] b by (intro F) simp
    then show ?thesis
      using b(2) by (auto simp: element_rows_def enumerate_map same count)
  qed
  have "List.map (\<lambda>(off, part). element_rows (E off) ty nulls (F off) (List.map g part)) (pieces n 0 es) =
      List.map (\<lambda>(off, part). List.map (\<lambda>(i, x). ?H (off + i) x) (enumerate 0 part)) (pieces n 0 es)"
    by (rule map_cong [OF refl]) (use one in auto)
  then have "List.concat (List.map (\<lambda>(off, part). element_rows (E off) ty nulls (F off) (List.map g part))
      (pieces n 0 es)) = List.map (\<lambda>(i, x). ?H i x) (enumerate 0 es)"
    using map_pieces [OF n, of ?H 0 es] by (simp only:)
  also have "\<dots> = element_rows E0 ty nulls F0 (List.map g es)"
    using ne count(2) by (simp add: element_rows_def enumerate_map comp_def case_prod_beta)
  finally show ?thesis .
qed

lemma sat_add_nat: "off + i < 2 ^ 64 \<Longrightarrow> sat_add (word_of_nat off) (word_of_nat i) = word_of_nat (off + i)"
  by (simp add: sat_add_def unat_of_nat take_bit_nat_eq_self)

definition piece :: "db_ctx \<Rightarrow> u8 \<Rightarrow> bytes \<Rightarrow> nat \<Rightarrow> nat \<Rightarrow> rdb_value \<Rightarrow> rdb_entry" where
  "piece c t key len off v = ctx_entry c t key (Some (word_of_nat len)) (Some (word_of_nat off)) v"

definition whole :: "db_ctx \<Rightarrow> u8 \<Rightarrow> bytes \<Rightarrow> rdb_value \<Rightarrow> rdb_entry" where
  "whole c t key v = ctx_entry c t key None None v"

lemma piece_cells: "common_cells (piece c t key len off v) k ty = common_cells (whole c t key v') k ty"
  by (simp add: common_cells_def piece_def whole_def ctx_entry_def entry_encoding_name_def)

lemma piece_simps [simp]:
  "count_of (piece c t key len off v) m = word_of_nat len" "count_of (whole c t key v') m = word_of_nat m"
  "offset_of (piece c t key len off v) = word_of_nat off" "offset_of (whole c t key v') = 0"
  "e_value (piece c t key len off v) = v" "e_value (whole c t key v') = v'"
  by (simp_all add: count_of_def offset_of_def piece_def whole_def ctx_entry_def)

lemma piece_type: "type_bytes (piece c t key len off v) = type_bytes (whole c t key v')"
  by (simp add: type_bytes_def piece_def whole_def ctx_entry_def entry_type_name_def)

lemma piece_rows:
  fixes es :: "elem list"
  assumes "0 < n" "es \<noteq> []" "\<And>off part. T off part = T0"
    "\<And>off i x. off + i < length es \<Longrightarrow> F off i x = F0 (off + i) x"
  shows "List.concat (List.map (\<lambda>(off, part).
      element_rows (piece c t key (length es) off (V part)) (T off part) nulls (F off) (List.map g part))
      (pieces n 0 es)) = element_rows (whole c t key V0) T0 nulls F0 (List.map g es)"
proof -
  have e: "element_rows (piece c t key (length es) off (V part)) (T off part) nulls (F off) (List.map g part) =
      element_rows (piece c t key (length es) off V0) T0 nulls (F off) (List.map g part)" for off part
    unfolding element_rows_def assms(3) piece_simps
      piece_cells [of _ _ _ _ off "V part" _ _ V0] piece_cells [of _ _ _ _ off V0 _ _ V0]
    by (rule refl)
  show ?thesis
    unfolding e
    by (rule element_rows_pieces [OF assms(1,2)])
      (simp_all add: assms(4) piece_cells [of _ _ _ _ _ V0 _ _ V0])
qed

lemma piece_rows_plain:
  fixes es :: "elem list"
  assumes "0 < n" "es \<noteq> []"
  shows "List.concat (List.map (\<lambda>(off, part).
      element_rows (piece c t key (length es) off (K (List.map g part)))
        (type_bytes (piece c t key (length es) off (K (List.map g part)))) nulls (\<lambda>i. f)
        (List.map g part)) (pieces n 0 es)) =
    element_rows (whole c t key (K (List.map g es)))
      (type_bytes (whole c t key (K (List.map g es)))) nulls (\<lambda>i. f) (List.map g es)"
  by (rule piece_rows [OF assms piece_type]) (rule refl)

lemma concat_map_none: "List.concat (List.map (\<lambda>(off, part). []) ps) = []"
  by (induction ps) auto

lemma chunk_rows:
  assumes "0 < n" "es \<noteq> []" "length es < 2 ^ 64" "tag \<noteq> TGeo"
  shows "List.concat (List.map (\<lambda>(off, part).
      entry_rows tag (piece c t key (length es) off (plain_value t part))) (pieces n 0 es)) =
    entry_rows tag (whole c t key (plain_value t es))"
proof -
  consider (l) "\<And>xs. plain_value t xs = VList (List.map elem_string xs)"
    | (s) "\<And>xs. plain_value t xs = VSet (List.map elem_string xs)"
    | (z) "\<And>xs. plain_value t xs = VSortedSet (List.map elem_pair xs)"
    | (h) "\<And>xs. plain_value t xs = VHash (List.map elem_field xs)"
    unfolding plain_value_def by metis
  then show ?thesis
  proof cases
    case l
    have "List.concat (List.map (\<lambda>(off, part).
        element_rows (piece c t key (length es) off (VList (List.map elem_string part)))
          (type_bytes (piece c t key (length es) off (VList (List.map elem_string part)))) [Null, Null]
          (\<lambda>i x. [CU64 (sat_add (word_of_nat off) (word_of_nat i)), CBin x]) (List.map elem_string part))
        (pieces n 0 es)) =
      element_rows (whole c t key (VList (List.map elem_string es)))
        (type_bytes (whole c t key (VList (List.map elem_string es)))) [Null, Null]
        (\<lambda>i x. [CU64 (sat_add 0 (word_of_nat i)), CBin x]) (List.map elem_string es)"
    proof (rule piece_rows [OF assms(1,2) piece_type])
      fix off i x
      assume "off + i < length es"
      then show "[CU64 (sat_add (word_of_nat off) (word_of_nat i)), CBin x] =
          [CU64 (sat_add 0 (word_of_nat (off + i))), CBin x]"
        using assms(3) sat_add_nat [of off i] sat_add_nat [of 0 "off + i"] by simp
    qed
    then show ?thesis
      unfolding l by (cases tag) (simp_all add: entry_rows_def case_prod_beta)
  next
    case s
    show ?thesis
    proof (cases "tag = TSet")
      case True
      then show ?thesis
        unfolding s True entry_rows_def prod.case piece_simps rdb_value.case type_tag.case
        by (intro piece_rows_plain assms(1,2))
    next
      case False
      then show ?thesis
        using assms(4) unfolding s
        by (cases tag) (simp_all add: entry_rows_def concat_map_none)
    qed
  next
    case z
    show ?thesis
    proof (cases "tag = TSortedSet")
      case True
      then show ?thesis
        unfolding z True entry_rows_def prod.case piece_simps rdb_value.case type_tag.case
        by (intro piece_rows_plain assms(1,2))
    next
      case False
      then show ?thesis
        using assms(4) unfolding z
        by (cases tag) (simp_all add: entry_rows_def concat_map_none)
    qed
  next
    case h
    show ?thesis
    proof (cases "tag = THash")
      case True
      then show ?thesis
        unfolding h True entry_rows_def prod.case piece_simps rdb_value.case type_tag.case
        by (intro piece_rows_plain assms(1,2))
    next
      case False
      then show ?thesis
        using assms(4) unfolding h
        by (cases tag) (simp_all add: entry_rows_def concat_map_none)
    qed
  qed
qed

section \<open>The output does not depend on chunking\<close>

lemma routed_rows_plain:
  assumes "max_entry_bytes cfg = None" "t \<noteq> TGeo" "\<nexists>d. e_value e = VString d"
  shows "routed_rows cfg t e = entry_rows t e"
  using assms
  by (cases "e_value e"; cases t)
    (auto simp: routed_rows_def routed_def oversized_def type_tag_for_def entry_rows_def)

lemma plain_not_string: "\<nexists>d. e_value (ctx_entry c t key tot off (plain_value ty part)) = VString d"
  by (simp add: ctx_entry_def plain_value_def)

lemma key_output:
  assumes "item_ok (Key ty k v)" "limit \<noteq> Some 0" "max_entry_bytes cfg = None" "t \<noteq> TGeo"
  shows "tag_output cfg t (key_entries limit c ty key v) = tag_output cfg t (key_entries None c ty key v)"
proof (cases v)
  case (PlainEnc es)
  show ?thesis
  proof (cases "\<exists>n. limit = Some n \<and> length es > n")
    case True
    then obtain n where n: "limit = Some n" "n < length es" by auto
    then have n0: "0 < n" "es \<noteq> []" "length es < 2 ^ 64" using assms(1,2) PlainEnc by auto
    let ?es = "\<lambda>(off, part). piece c ty key (length es) off (plain_value ty part)"
    have k: "key_entries limit c ty key v = List.map Ok (List.map ?es (pieces n 0 es))"
      using n PlainEnc by (simp add: piece_def case_prod_beta comp_def)
    have "tag_output cfg t (key_entries limit c ty key v) =
        List.concat (List.map (\<lambda>(off, part).
          entry_rows t (piece c ty key (length es) off (plain_value ty part))) (pieces n 0 es))"
      unfolding k tag_output_def oks_simps
      by (simp add: comp_def case_prod_beta' piece_def
          routed_rows_plain [OF assms(3,4) plain_not_string])
    also have "\<dots> = entry_rows t (whole c ty key (plain_value ty es))"
      by (rule chunk_rows [OF n0 assms(4)])
    also have "\<dots> = tag_output cfg t (key_entries None c ty key v)"
      using PlainEnc
      by (simp add: tag_output_def whole_def routed_rows_plain [OF assms(3,4) plain_not_string])
    finally show ?thesis .
  next
    case False
    then show ?thesis using PlainEnc by (auto split: option.splits)
  qed
qed simp_all

lemma chunked_output:
  assumes "\<forall>x \<in> set xs. item_ok x" "limit \<noteq> Some 0" "max_entry_bytes cfg = None" "t \<noteq> TGeo"
  shows "tag_output cfg t (entries limit c xs) = tag_output cfg t (entries None c xs)"
  using assms(1)
proof (induction xs arbitrary: c)
  case (Cons x xs)
  then show ?case
  proof (cases x)
    case (Key ty k v)
    have "item_ok (Key ty k v)" using Cons.prems Key by simp
    then show ?thesis
      using key_output [OF _ assms(2-4)] Cons Key by simp
  qed simp
qed simp

section \<open>A file exported\<close>

lemma zipmap_unsupported: "blob_value RDB_TYPE_HASH_ZIPMAP b = Err (UnknownType RDB_TYPE_HASH_ZIPMAP)"
  by (simp add: blob_value_def Let_def)

lemma entries_items:
  assumes "\<forall>x \<in> set xs. item_ok x" "y \<in> set (entries limit c xs)"
  shows "(\<exists>e. y = Ok e) \<or> (\<exists>t. y = Err (UnknownType t))"
  using assms
proof (induction xs arbitrary: c)
  case (Cons x xs)
  show ?case
  proof (cases x)
    case (Key ty k v)
    have key: "(\<exists>e. y = Ok e) \<or> (\<exists>t. y = Err (UnknownType t))"
      if "y \<in> set (key_entries limit c ty (string_enc_value k) v)"
    proof (cases v)
      case (PlainEnc es)
      then show ?thesis using that by (auto split: option.splits if_splits)
    next
      case (BlobEnc s)
      then have "ty = RDB_TYPE_HASH_ZIPMAP \<or> (\<exists>v. blob_value ty (string_enc_value s) = Ok v)"
        using Cons.prems(1) Key by auto
      then show ?thesis using that BlobEnc by (auto simp: zipmap_unsupported)
    qed (use that in simp)
    then show ?thesis using Cons Key by auto
  qed (use Cons in simp)
qed simp

lemma errs_none:
  assumes "\<And>y. y \<in> set items \<Longrightarrow> (\<exists>e. y = Ok e) \<or> (\<exists>t. y = Err (UnknownType t))"
  shows "filter (\<lambda>e. \<not> unsupported e) (errs items) = []" "Panic \<notin> set items"
    "\<And>y. y \<in> set items \<Longrightarrow> \<not> fatal y"
proof -
  show "filter (\<lambda>e. \<not> unsupported e) (errs items) = []"
    using assms by (induction items) (force simp: unsupported_def)+
  show "Panic \<notin> set items" using assms by fastforce
  show "\<And>y. y \<in> set items \<Longrightarrow> \<not> fatal y"
    using assms by (force simp: fatal_def unsupported_def)
qed

end
