(* ===== verification/Arrow_Props.thy ===== *)
theory Arrow_Props
  imports Export
begin

text \<open>
  The properties of the conversion to Arrow: what the batches hold and how large they are,
  how chunking and the summary relate to them, and the counts the batcher relies on.
\<close>

section \<open>Concrete inputs for the witnesses\<close>

definition list_next :: "rdb_entry parsed list entry_source" where
  "list_next xs = (case xs of [] \<Rightarrow> (None, []) | x # xs \<Rightarrow> (Some x, xs))"

lemma supplies_list: "supplies list_next xs xs []"
  by (induction xs) (simp_all add: list_next_def)

definition sample_items :: "rdb_entry parsed list" where
  "sample_items =
     [Ok (entry_new [107] (VString [118]) RDB_TYPE_STRING),
      Err (UnknownType RDB_TYPE_HASH_ZIPMAP),
      Ok (entry_new [108] (VList [[97], [98], [99]]) RDB_TYPE_LIST),
      Err InvalidMagic,
      Ok (entry_new [109] (VList []) RDB_TYPE_LIST)]"

definition sample_config :: batcher_config where
  "sample_config = batcher_config_default\<lparr>batch_size := 2\<rparr>"

section \<open>Batches\<close>

text \<open>
  Claim C7. The batches hold the entries' rows. From any source of entries that ends, the
  batch iterator ends too, and for every tag the rows of its batches, concatenated, are
  exactly the rows of the entries routed to that tag, in order; unsupported types are
  skipped and counted, every other error of the source is passed on, in order and without
  ending the run, and no other error arises.
\<close>

theorem batches_hold_entry_rows:
  assumes "supplies nxt i items i'" "Panic \<notin> set items" "try_new_accepts tn"
  shows "\<exists>os it. batch_collect tn nxt (batcher_process (batcher_new cfg) i) = Some (os, it) \<and>
    (\<forall>t. tag_rows t (oks os) = List.concat (List.map (routed_rows cfg t) (oks items))) \<and>
    errs os = List.map Parser (filter (\<lambda>e. \<not> unsupported e) (errs items)) \<and>
    Panic \<notin> set os \<and> bi_iter it = i' \<and>
    skipped_count it = word_of_nat (length (filter skips items)) \<and>
    unat (skipped_oversized_count it) =
      min (2 ^ 64 - 1) (length (filter (oversized cfg) (oks items)))"
proof -
  obtain os it where r: "batch_collect tn nxt (batcher_process (batcher_new cfg) i) = Some (os, it)"
    "run_ok cfg (\<lambda>_. []) 0 items os (bi_batcher it)" "bi_iter it = i'"
    "skipped_count it = word_of_nat (length (filter skips items))"
    "skipped_oversized_count it = skipped_oversized (bi_batcher it)"
    using batch_collect_new [OF assms] by blast
  have "unat (skipped_oversized_count it) =
      min (2 ^ 64 - 1) (length (filter (oversized cfg) (oks items)))"
    using r(2) unfolding r(5) run_ok_def by (simp add: unat_sat_count)
  then show ?thesis using r unfolding run_ok_def by auto
qed

theorem batches_hold_entry_rows_witness:
  "\<exists>os it. batch_collect strict_try_new list_next
      (batcher_process (batcher_new sample_config) sample_items) = Some (os, it) \<and>
    (\<forall>t. tag_rows t (oks os) = List.concat (List.map (routed_rows sample_config t) (oks sample_items))) \<and>
    errs os = List.map Parser (filter (\<lambda>e. \<not> unsupported e) (errs sample_items)) \<and>
    Panic \<notin> set os \<and> bi_iter it = [] \<and>
    skipped_count it = word_of_nat (length (filter skips sample_items)) \<and>
    unat (skipped_oversized_count it) =
      min (2 ^ 64 - 1) (length (filter (oversized sample_config) (oks sample_items)))"
  by (rule batches_hold_entry_rows [OF supplies_list _ strict_try_new_accepts])
    (simp add: sample_items_def)

text \<open>
  Claim C20. Every batch is well formed and bounded: it has the schema of its tag, columns that
  conform to it, at least one row, and fewer rows than the configured batch size plus the
  rows of the largest entry.
\<close>

theorem batches_conform:
  assumes "supplies nxt i items i'" "Panic \<notin> set items" "try_new_accepts tn"
    and "\<forall>e \<in> set (oks items). \<forall>t. length (entry_rows t e) \<le> M"
  shows "\<exists>os it. batch_collect tn nxt (batcher_process (batcher_new cfg) i) = Some (os, it) \<and>
    (\<forall>tb \<in> set (oks os).
       rb_schema (tb_batch tb) = schema_for (tb_tag tb) \<and>
       conforms (schema_for (tb_tag tb)) (rb_columns (tb_batch tb)) \<and>
       0 < num_rows (tb_batch tb) \<and> num_rows (tb_batch tb) \<le> batch_size cfg - 1 + M)"
proof -
  obtain os it where r: "batch_collect tn nxt (batcher_process (batcher_new cfg) i) = Some (os, it)"
    "run_ok cfg (\<lambda>_. []) 0 items os (bi_batcher it)"
    using batch_collect_new [OF assms(1-3)] by blast
  have "num_rows (tb_batch tb) \<le> batch_size cfg - 1 + M" if "tb \<in> set (oks os)" for tb
    using r(2) filled_rows [OF _ assms(4)] that by (simp add: run_ok_def good_batch_def)
  then show ?thesis using r unfolding run_ok_def good_batch_def by auto
qed

lemma sample_rows: "\<forall>e \<in> set (oks sample_items). \<forall>t. length (entry_rows t e) \<le> 3"
proof -
  have "length (entry_rows t e) \<le> 3" if "e \<in> set (oks sample_items)" for e t
    using that by (cases t) (auto simp: sample_items_def entry_rows_def entry_new_def)
  then show ?thesis by blast
qed

theorem batches_conform_witness:
  "\<exists>os it. batch_collect strict_try_new list_next
      (batcher_process (batcher_new sample_config) sample_items) = Some (os, it) \<and>
    (\<forall>tb \<in> set (oks os).
       rb_schema (tb_batch tb) = schema_for (tb_tag tb) \<and>
       conforms (schema_for (tb_tag tb)) (rb_columns (tb_batch tb)) \<and>
       0 < num_rows (tb_batch tb) \<and> num_rows (tb_batch tb) \<le> batch_size sample_config - 1 + 3)"
  by (rule batches_conform [OF supplies_list _ strict_try_new_accepts sample_rows])
    (simp add: sample_items_def)



text \<open>
  Claim C21. A push keeps the batcher's invariant: every builder holds exactly the rows waiting
  for its tag and is empty or below both thresholds; the rows of the batches returned and
  the rows left waiting are the rows that waited before and those of the entry.
\<close>

theorem push_keeps_invariant:
  assumes "waiting st R" "try_new_accepts tn" "\<not> oversized (ab_config st) e"
  shows "\<exists>bs st' R'. batcher_push tn e st = (Ok bs, st') \<and> waiting st' R' \<and>
    (\<forall>t. tag_rows t bs @ R' t = R t @ routed_rows (ab_config st) t e) \<and>
    ab_config st' = ab_config st"
  using batcher_push_ok [OF assms] unfolding emits_def rows_after_def by blast

theorem push_keeps_invariant_witness:
  "\<exists>bs st' R'. batcher_push strict_try_new (entry_new [107] (VString [118]) RDB_TYPE_STRING)
      (batcher_new sample_config) = (Ok bs, st') \<and> waiting st' R' \<and>
    (\<forall>t. tag_rows t bs @ R' t = [] @ routed_rows (ab_config (batcher_new sample_config)) t
      (entry_new [107] (VString [118]) RDB_TYPE_STRING)) \<and>
    ab_config st' = ab_config (batcher_new sample_config)"
  by (rule push_keeps_invariant [OF waiting_new strict_try_new_accepts])
    (simp add: oversized_def batcher_new_def sample_config_def batcher_config_default_def)

text \<open>
  Claim C34. An entry of a collection type becomes one row per element and one row when it is
  empty: \<open>expected_row_count\<close> is the number of rows of the entry in the batches of its own
  tag, and of the geo tag for a sorted set, and it is never zero rows.
\<close>

theorem row_count_is_exact:
  assumes "type_tag_for e = Some t"
  shows "expected_row_count e = word_of_nat (length (entry_rows t e)) \<and> entry_rows t e \<noteq> [] \<and>
    (\<forall>hs. should_emit_geo hs t e \<longrightarrow> expected_row_count e = word_of_nat (length (entry_rows TGeo e)))"
  using entry_rows_count [of e t] entry_rows_count [of e TGeo] entry_rows_nonempty [OF assms]
    assms geo_is_zset by blast

theorem row_count_is_exact_witness:
  "expected_row_count (entry_new [108] (VList [[97], [98]]) RDB_TYPE_LIST) =
     word_of_nat (length (entry_rows TList (entry_new [108] (VList [[97], [98]]) RDB_TYPE_LIST))) \<and>
   entry_rows TList (entry_new [108] (VList [[97], [98]]) RDB_TYPE_LIST) \<noteq> []"
  using row_count_is_exact [of "entry_new [108] (VList [[97], [98]]) RDB_TYPE_LIST" TList]
  by (simp add: type_tag_for_def entry_new_def)

text \<open>
  Claim C35. The size limit never skips an entry that would fit: the estimate an entry is judged
  by is at most the bytes the builder of its tag counts for it, and equal to them except for
  modules and streams, whose names, ids and opcodes the estimate leaves out.
\<close>

theorem estimate_within_builder_bytes:
  assumes "type_tag_for e = Some t"
  shows "estimate_entry_bytes e \<le> entry_bytes t e \<and>
    (exact_estimate (e_value e) \<longrightarrow> estimate_entry_bytes e = entry_bytes t e)"
  using estimate_le [OF assms] estimate_exact [OF assms] by blast

theorem estimate_within_builder_bytes_witness:
  "estimate_entry_bytes (entry_new [108] (VSet [[97], [98]]) RDB_TYPE_SET) =
     entry_bytes TSet (entry_new [108] (VSet [[97], [98]]) RDB_TYPE_SET)"
  using estimate_within_builder_bytes [of "entry_new [108] (VSet [[97], [98]]) RDB_TYPE_SET" TSet]
  by (simp add: type_tag_for_def entry_new_def exact_estimate_def)

section \<open>From the file to the rows\<close>

lemma file_items:
  assumes "\<forall>x \<in> set xs. item_ok x"
  shows "filter (\<lambda>e. \<not> unsupported e) (errs (entries limit c xs)) = []"
    "Panic \<notin> set (entries limit c xs)" "\<forall>y \<in> set (entries limit c xs). \<not> fatal y"
  using errs_none [of "entries limit c xs", OF entries_items [OF assms, of _ limit c]] by blast+

definition export_items :: "item list" where
  "export_items =
     [Op (OSelectDb 3), Key RDB_TYPE_STRING (SRaw [107]) (BlobEnc (SInt8 (-5))),
      Key RDB_TYPE_HASH_ZIPMAP (SRaw [122]) (BlobEnc (SRaw [])),
      Key RDB_TYPE_LIST (SRaw [108]) (PlainEnc [EStr (SRaw [97]), EStr (SRaw [98]), EStr (SRaw [99])])]"

lemma export_items_ok: "\<forall>x \<in> set export_items. item_ok x"
  by (simp add: export_items_def is_blob_type_def blob_value_def is_plain_type_def)

text \<open>
  Claim C3. A file is exported as what it holds: for any file written by the grammar of the
  format, any chunk limit and any batcher configuration, reading it and batching it gives,
  for every tag, exactly the rows of the entries of the file, in order, and no error.
\<close>

theorem export_round_trip:
  assumes "version_ok m v" "\<forall>x \<in> set xs. item_ok x" "limit \<noteq> Some 0" "try_new_accepts tn"
  shows "\<exists>r q os it. reader_new (file_bytes m v xs) ending = Ok r \<and> configure limit r = Ok q \<and>
    export_batches tn cfg q = Some (os, it) \<and> errs os = [] \<and> Panic \<notin> set os \<and>
    (\<forall>t. tag_rows t (oks os) = tag_output cfg t (entries limit ctx0 xs))"
proof -
  obtain r q r' where f: "reader_new (file_bytes m v xs) ending = Ok r" "configure limit r = Ok q"
    "collect q = Some (entries limit ctx0 xs, r')"
    using file_collects [OF assms(1-3)] by blast
  note n = file_items [OF assms(2), of limit ctx0]
  obtain os it where "batch_collect tn reader_next (batcher_process (batcher_new cfg) q) = Some (os, it)"
    "run_ok cfg (\<lambda>_. []) 0 (entries limit ctx0 xs) os (bi_batcher it)"
    using batch_collect_new [OF collect_supplies [OF f(3)] n(2) assms(4)] by blast
  then show ?thesis using f n(1) unfolding run_ok_def export_batches_def tag_output_def by auto
qed

theorem export_round_trip_witness:
  "\<exists>r q os it. reader_new (file_bytes Redis 11 export_items) UnexpectedEof = Ok r \<and>
    configure (Some 2) r = Ok q \<and>
    export_batches strict_try_new sample_config q = Some (os, it) \<and> errs os = [] \<and> Panic \<notin> set os \<and>
    (\<forall>t. tag_rows t (oks os) = tag_output sample_config t (entries (Some 2) ctx0 export_items))"
  by (rule export_round_trip [OF _ export_items_ok _ strict_try_new_accepts])
    (simp_all add: version_ok_def)

text \<open>
  Claim C32. Chunking a well-formed file does not show in the output when there is no size
  limit: the rows a file of the grammar is exported as are the same whatever the chunk limit,
  indices and element counts included, for every tag but geo (a chunk is never taken for a
  geo set).  With \<open>max_entry_bytes\<close> set this is not so, since the limit is applied to a chunk
  at a time and the chunks of a value may pass where the whole is skipped.
\<close>

theorem chunking_keeps_rows:
  assumes "version_ok m v" "\<forall>x \<in> set xs. item_ok x" "limit \<noteq> Some 0" "try_new_accepts tn"
    and "max_entry_bytes cfg = None" "t \<noteq> TGeo"
  shows "\<exists>r q os it. reader_new (file_bytes m v xs) ending = Ok r \<and> configure limit r = Ok q \<and>
    export_batches tn cfg q = Some (os, it) \<and>
    tag_rows t (oks os) = tag_output cfg t (entries None ctx0 xs)"
proof -
  obtain r q r' where f: "reader_new (file_bytes m v xs) ending = Ok r" "configure limit r = Ok q"
    "collect q = Some (entries limit ctx0 xs, r')"
    using file_collects [OF assms(1-3)] by blast
  note n = file_items [OF assms(2), of limit ctx0]
  obtain os it where "batch_collect tn reader_next (batcher_process (batcher_new cfg) q) = Some (os, it)"
    "run_ok cfg (\<lambda>_. []) 0 (entries limit ctx0 xs) os (bi_batcher it)"
    using batch_collect_new [OF collect_supplies [OF f(3)] n(2) assms(4)] by blast
  then show ?thesis
    using f chunked_output [OF assms(2,3,5,6)]
    unfolding run_ok_def export_batches_def tag_output_def by auto
qed

theorem chunking_keeps_rows_witness:
  "\<exists>r q os it. reader_new (file_bytes Redis 11 export_items) UnexpectedEof = Ok r \<and>
    configure (Some 2) r = Ok q \<and> export_batches strict_try_new sample_config q = Some (os, it) \<and>
    tag_rows TList (oks os) = tag_output sample_config TList (entries None ctx0 export_items)"
  by (rule chunking_keeps_rows [OF _ export_items_ok _ strict_try_new_accepts])
    (simp_all add: version_ok_def sample_config_def batcher_config_default_def)

section \<open>The summary\<close>

lemma counters_new_zero [simp]:
  "rows_in counters_new t = 0" "keys_in counters_new t = 0" "total_keys counters_new = 0"
  "db_keys_in counters_new db = 0" "db_tag_keys_in counters_new db t = 0"
  by (simp_all add: rows_in_def keys_in_def db_keys_in_def db_tag_keys_in_def counters_new_def
      or_insert_def)

lemma sample_file:
  obtains q r' where "collect q = Some (entries (Some 2) ctx0 export_items, r')"
    "\<forall>y \<in> set (entries (Some 2) ctx0 export_items). \<not> fatal y"
proof -
  have "version_ok Redis 11" by (simp add: version_ok_def)
  then obtain q r' where "collect q = Some (entries (Some 2) ctx0 export_items, r')"
    using file_collects [OF _ export_items_ok, of Redis 11 "Some 2" UnexpectedEof] by auto
  then show thesis by (rule that) (rule file_items(3) [OF export_items_ok])
qed

text \<open>
  Claim C24. The summary agrees with the export: over the same reader, with the same heuristics
  and no size limit, the rows \<open>summarize_entries\<close> counts for a tag are, as a \<open>u64\<close>, the
  rows of the exported batches of that tag, and a tag has a count exactly when the export
  has rows for it.  The reader must end without an error other than unsupported types.
\<close>

theorem summary_counts_exported_rows:
  assumes "collect r = Some (items, r')" "\<forall>x \<in> set items. \<not> fatal x" "try_new_accepts tn"
    and "max_entry_bytes cfg = None"
  shows "\<exists>os it s j. export_batches tn cfg r = Some (os, it) \<and>
    summarize_entries r (heuristics cfg) = Some (Ok s, j) \<and>
    es_metadata s = metadata r' \<and> es_crc_verified s = crc_checked r' \<and>
    dom (totals (es_counters s)) = {t. tag_rows t (oks os) \<noteq> []} \<and>
    (\<forall>t. rows_in (es_counters s) t = word_of_nat (length (tag_rows t (oks os))))"
proof -
  let ?hs = "heuristics cfg"
  have np: "Panic \<notin> set items" using assms(2) by (auto simp: fatal_def)
  obtain os it where b: "batch_collect tn reader_next (batcher_process (batcher_new cfg) r) = Some (os, it)"
    "run_ok cfg (\<lambda>_. []) 0 items os (bi_batcher it)"
    using batch_collect_new [OF collect_supplies [OF assms(1)] np assms(3)] by blast
  obtain s j where s: "summarize_entries r ?hs = Some (Ok s, j)" "es_metadata s = metadata r'"
    "es_crc_verified s = crc_checked r'"
    "es_counters s = fold (count_entry ?hs) (oks items) counters_new"
    using summarize_collect [OF assms(1), of ?hs] count_items_ok [of items ?hs counters_new] assms(2)
    by auto
  have "routed cfg t e \<longleftrightarrow> count_of_tag ?hs t e" for t e
    by (simp add: routed_def oversized_def assms(4) count_of_tag_def)
  then have "List.concat (List.map (routed_rows cfg t) es) =
      List.concat (List.map (entry_rows t) (filter (count_of_tag ?hs t) es))" for t es
    by (induction es) (simp_all add: routed_rows_def)
  then have rows: "tag_rows t (oks os) =
      List.concat (List.map (entry_rows t) (filter (count_of_tag ?hs t) (oks items)))" for t
    using b(2) by (simp add: run_ok_def)
  then have "rows_in (es_counters s) t = word_of_nat (length (tag_rows t (oks os)))" for t
    by (simp add: s(4) fold_counts)
  moreover have "t \<in> dom (totals (es_counters s)) \<longleftrightarrow> tag_rows t (oks os) \<noteq> []" for t
    using counted_rows_nonempty [of ?hs t] unfolding s(4) totals_dom rows by (auto simp: counters_new_def)
  ultimately show ?thesis using b(1) s(1-3) unfolding export_batches_def by blast
qed

theorem summary_counts_exported_rows_witness:
  "\<exists>r (r' :: rdb_reader) os it s j. export_batches strict_try_new sample_config r = Some (os, it) \<and>
    summarize_entries r (heuristics sample_config) = Some (Ok s, j) \<and>
    es_metadata s = metadata r' \<and> es_crc_verified s = crc_checked r' \<and>
    dom (totals (es_counters s)) = {t. tag_rows t (oks os) \<noteq> []} \<and>
    (\<forall>t. rows_in (es_counters s) t = word_of_nat (length (tag_rows t (oks os))))"
proof -
  obtain q r' where q: "collect q = Some (entries (Some 2) ctx0 export_items, r')"
    "\<forall>y \<in> set (entries (Some 2) ctx0 export_items). \<not> fatal y"
    using sample_file by blast
  have "max_entry_bytes sample_config = None"
    by (simp add: sample_config_def batcher_config_default_def)
  note w = summary_counts_exported_rows [OF q strict_try_new_accepts this]
  show ?thesis by (rule exI [of _ q], rule exI [of _ r']) (rule w)
qed

text \<open>
  Claim C33. Keys are counted once however many chunks or virtual types they have: the totals
  per tag, per database and per database and tag are the numbers of first chunks; a geo set
  counts under both of its tags but once among the keys of its database.
\<close>

theorem summary_counts_keys:
  assumes "collect r = Some (items, r')" "\<forall>x \<in> set items. \<not> fatal x"
  shows "\<exists>s j. summarize_entries r hs = Some (Ok s, j) \<and>
    total_keys (es_counters s) = word_of_nat (length (filter is_first_chunk (oks items))) \<and>
    (\<forall>t. keys_in (es_counters s) t =
       word_of_nat (length (filter (\<lambda>e. count_of_tag hs t e \<and> is_first_chunk e) (oks items)))) \<and>
    (\<forall>db. db_keys_in (es_counters s) db =
       word_of_nat (length (filter (\<lambda>e. is_first_chunk e \<and> e_db e = db) (oks items)))) \<and>
    (\<forall>db t. db_tag_keys_in (es_counters s) db t =
       word_of_nat (length (filter (\<lambda>e. count_of_tag hs t e \<and> is_first_chunk e \<and> e_db e = db) (oks items))))"
proof -
  obtain s j where s: "summarize_entries r hs = Some (Ok s, j)"
    "es_counters s = fold (count_entry hs) (oks items) counters_new"
    using summarize_collect [OF assms(1), of hs] count_items_ok [of items hs counters_new] assms(2)
    by auto
  then show ?thesis
    by (simp add: fold_counts)
qed

theorem summary_counts_keys_witness:
  "\<exists>r s j. summarize_entries r {HGeo} = Some (Ok s, j) \<and>
    total_keys (es_counters s) =
      word_of_nat (length (filter is_first_chunk (oks (entries (Some 2) ctx0 export_items)))) \<and>
    (\<forall>t. keys_in (es_counters s) t =
       word_of_nat (length (filter (\<lambda>e. count_of_tag {HGeo} t e \<and> is_first_chunk e)
         (oks (entries (Some 2) ctx0 export_items))))) \<and>
    (\<forall>db. db_keys_in (es_counters s) db =
       word_of_nat (length (filter (\<lambda>e. is_first_chunk e \<and> e_db e = db)
         (oks (entries (Some 2) ctx0 export_items))))) \<and>
    (\<forall>db t. db_tag_keys_in (es_counters s) db t =
       word_of_nat (length (filter (\<lambda>e. count_of_tag {HGeo} t e \<and> is_first_chunk e \<and> e_db e = db)
         (oks (entries (Some 2) ctx0 export_items)))))"
proof -
  obtain q r' where q: "collect q = Some (entries (Some 2) ctx0 export_items, r')"
    "\<forall>y \<in> set (entries (Some 2) ctx0 export_items). \<not> fatal y"
    using sample_file by blast
  show ?thesis by (intro exI [of _ q]) (rule summary_counts_keys [OF q])
qed

end
