(* ===== verification/Cli_Filter.thy ===== *)
theory Cli_Filter
  imports Export
begin

text \<open>
  \<open>crates/cli/src/filter.rs\<close>: the entry filter and the iterator it wraps around the reader.
  \<open>glob_match\<close> is another crate and a parameter.  The theorems: the wrapped iterator
  supplies the items that pass, errors included; a filter on types loses no row of a tag
  it asks for.
\<close>

section \<open>The filter\<close>

type_synonym glob = "bytes \<Rightarrow> bytes \<Rightarrow> bool"

record entry_filter =
  fl_db :: "u32 option"
  fl_type_tags :: "type_tag set option"
  fl_key_pattern :: "bytes option"
  fl_heuristics :: "heuristic set"

definition matches_any_type :: "entry_filter \<Rightarrow> rdb_entry \<Rightarrow> type_tag set \<Rightarrow> bool" where
  "matches_any_type f e tags =
     (case type_tag_for e of
        None \<Rightarrow> False
      | Some primary \<Rightarrow>
          if primary \<in> tags then True
          else if HGeo \<in> fl_heuristics f \<and> primary = TSortedSet \<and> TGeo \<in> tags \<and> is_geo_entry e
          then True else False)"

definition matches :: "glob \<Rightarrow> entry_filter \<Rightarrow> rdb_entry \<Rightarrow> bool" where
  "matches glob_match f e =
     (if (case fl_db f of Some db \<Rightarrow> e_db e \<noteq> db | None \<Rightarrow> False) then False
      else if (case fl_type_tags f of Some tags \<Rightarrow> \<not> matches_any_type f e tags | None \<Rightarrow> False) then False
      else if (case fl_key_pattern f of
          Some pattern \<Rightarrow> \<not> glob_match pattern (from_utf8_lossy (e_key e)) | None \<Rightarrow> False) then False
      else True)"

section \<open>The filtered iterator\<close>

text \<open>
  \<open>next\<close> loops until an entry passes, an error comes or the source ends; on a source that
  never ends it may not return.
\<close>

partial_function (option) filtered_next ::
  "glob \<Rightarrow> entry_filter \<Rightarrow> 'i entry_source \<Rightarrow> 'i \<Rightarrow> (rdb_entry parsed option \<times> 'i) option" where
  "filtered_next glob_match f nxt i =
     (case nxt i of
        (Some (Ok e), j) \<Rightarrow>
          if matches glob_match f e then Some (Some (Ok e), j)
          else filtered_next glob_match f nxt j
      | other \<Rightarrow> Some other)"

text \<open>As a source of the batcher; a call that does not return is a panic there.\<close>

definition filtered_source :: "glob \<Rightarrow> entry_filter \<Rightarrow> 'i entry_source \<Rightarrow> 'i entry_source" where
  "filtered_source glob_match f nxt i =
     (case filtered_next glob_match f nxt i of Some r \<Rightarrow> r | None \<Rightarrow> (Some Panic, i))"

definition passes :: "glob \<Rightarrow> entry_filter \<Rightarrow> rdb_entry parsed \<Rightarrow> bool" where
  "passes glob_match f x = (case x of Ok e \<Rightarrow> matches glob_match f e | _ \<Rightarrow> True)"

lemma passes_simps [simp]:
  "passes gm f (Ok e) \<longleftrightarrow> matches gm f e" "passes gm f (Err x)" "passes gm f Panic"
  by (simp_all add: passes_def)

lemma filtered_skip:
  assumes "nxt i = (Some (Ok e), j)" "\<not> matches gm f e"
    and "filtered_next gm f nxt j = Some r"
  shows "filtered_next gm f nxt i = Some r"
  using assms by (subst filtered_next.simps) simp

text \<open>The source ends, so every call returns: the wrapped iterator supplies what passes.\<close>

lemma filtered_total:
  "supplies nxt i items i' \<Longrightarrow>
   \<exists>r. filtered_next gm f nxt i = Some r \<and>
     (case filter (passes gm f) items of
        [] \<Rightarrow> r = (None, i')
      | x # xs \<Rightarrow> \<exists>j rest. r = (Some x, j) \<and> supplies nxt j rest i' \<and> filter (passes gm f) rest = xs \<and>
          length rest < length items)"
proof (induction items arbitrary: i)
  case Nil
  then show ?case by (subst filtered_next.simps) simp
next
  case (Cons x items)
  then obtain j where n: "nxt i = (Some x, j)" and s: "supplies nxt j items i'" by auto
  show ?case
  proof (cases "passes gm f x")
    case True
    then have "filtered_next gm f nxt i = Some (Some x, j)"
      using n by (subst filtered_next.simps) (cases x; simp)
    then show ?thesis using True s by auto
  next
    case False
    then obtain e where x: "x = Ok e" "\<not> matches gm f e" by (cases x) auto
    obtain r where r: "filtered_next gm f nxt j = Some r"
      "case filter (passes gm f) items of
        [] \<Rightarrow> r = (None, i')
      | x # xs \<Rightarrow> \<exists>j rest. r = (Some x, j) \<and> supplies nxt j rest i' \<and> filter (passes gm f) rest = xs \<and>
          length rest < length items"
      using Cons.IH [OF s] by blast
    have "filtered_next gm f nxt i = Some r"
      using filtered_skip [of nxt i e j gm f r] n x r(1) by simp
    then show ?thesis using r(2) False by (fastforce split: list.splits intro: less_SucI)
  qed
qed

lemma filtered_supplies:
  "supplies nxt i items i' \<Longrightarrow>
   supplies (filtered_source gm f nxt) i (filter (passes gm f) items) i'"
proof (induction "length items" arbitrary: items i rule: less_induct)
  case less
  obtain r where r: "filtered_next gm f nxt i = Some r"
    "case filter (passes gm f) items of
      [] \<Rightarrow> r = (None, i')
    | x # xs \<Rightarrow> \<exists>j rest. r = (Some x, j) \<and> supplies nxt j rest i' \<and> filter (passes gm f) rest = xs \<and>
        length rest < length items"
    using filtered_total [OF less.prems, of gm f] by blast
  show ?case
  proof (cases "filter (passes gm f) items")
    case Nil
    then show ?thesis using r by (simp add: filtered_source_def)
  next
    case (Cons x xs)
    then obtain j rest where j: "r = (Some x, j)" "supplies nxt j rest i'"
      "filter (passes gm f) rest = xs" "length rest < length items"
      using r(2) by auto
    show ?thesis
      using less.hyps [OF j(4,2)] r(1) unfolding Cons j(3) by (simp add: filtered_source_def j(1))
  qed
qed

section \<open>Facts\<close>

lemma oks_passing: "oks (filter (passes gm f) items) = filter (matches gm f) (oks items)"
proof (induction items)
  case (Cons x items)
  then show ?case by (cases x) simp_all
qed simp

lemma errs_passing: "errs (filter (passes gm f) items) = errs items"
proof (induction items)
  case (Cons x items)
  then show ?case by (cases x) simp_all
qed simp

lemma no_panic_passing: "Panic \<notin> set items \<Longrightarrow> Panic \<notin> set (filter (passes gm f) items)"
  by simp

text \<open>An entry with a row under a tag asked for matches the types asked for.\<close>

lemma routed_matches:
  assumes "routed cfg t e" "t \<in> tags" "fl_heuristics f = heuristics cfg"
  shows "matches_any_type f e tags"
  using assms by (auto simp: routed_def matches_any_type_def should_emit_geo_def split: option.splits)

lemma type_filter_rows:
  assumes "t \<in> tags" "fl_heuristics f = heuristics cfg" "fl_type_tags f = Some tags"
    "fl_db f = None" "fl_key_pattern f = None"
  shows "List.concat (List.map (routed_rows cfg t) (filter (matches gm f) es)) =
    List.concat (List.map (routed_rows cfg t) es)"
proof -
  have "routed_rows cfg t e = []" if "\<not> matches gm f e" for e
    using that routed_matches [OF _ assms(1,2), of e] by (auto simp: matches_def assms routed_rows_def)
  then show ?thesis by (induction es) auto
qed

end
