(* ===== verification/Cli_Args.thy ===== *)
theory Cli_Args
  imports Writer
begin

text \<open>
  \<open>crates/cli/src/args.rs\<close>, \<open>cli_error.rs\<close> and the pure parts of \<open>io.rs\<close>: the parsers of
  the size options, the option values, the classified error with its exit codes and
  conversions, and the names of the output files.
\<close>

section \<open>Sizes\<close>

text \<open>
  The text of the standard library's integer parse errors: the first digit that is none, or
  that takes the value past 64 bits, decides.
\<close>

fun digits_error :: "bytes \<Rightarrow> nat \<Rightarrow> string" where
  "digits_error [] n = ''invalid digit found in string''"
| "digits_error (c # cs) n =
     (case digit_val c of
        None \<Rightarrow> ''invalid digit found in string''
      | Some d \<Rightarrow>
          if 10 * n + d \<ge> 2 ^ 64 then ''number too large to fit in target type''
          else digits_error cs (10 * n + d))"

definition int_error :: "bytes \<Rightarrow> string" where
  "int_error s =
     (if s = [] then ''cannot parse integer from empty string''
      else digits_error (if hd s = 43 then tl s else s) 0)"

lemma digits_val_ge: "digits_val n cs = Some m \<Longrightarrow> n \<le> m"
  by (induction n cs arbitrary: m rule: digits_val.induct) (fastforce split: option.splits)+

lemma digits_error_overflow:
  "digits_val n cs = Some m \<Longrightarrow> n < 2 ^ 64 \<Longrightarrow> 2 ^ 64 \<le> m \<Longrightarrow>
   digits_error cs n = ''number too large to fit in target type''"
proof (induction n cs arbitrary: m rule: digits_val.induct)
  case (2 n c cs)
  then show ?case by (cases "digit_val c") auto
qed simp

definition parse_usize :: "bytes \<Rightarrow> (usize, bytes) res" where
  "parse_usize s = ok_or (str_bytes (int_error s)) (parse_unsigned 64 s)"

definition parse_positive_usize :: "bytes \<Rightarrow> (usize, bytes) res" where
  "parse_positive_usize s =
     and_then (parse_usize s)
       (\<lambda>n. if n = 0 then Err (str_bytes ''value must be > 0'') else Ok n)"

definition strip_suffix :: "bytes \<Rightarrow> bytes \<Rightarrow> bytes option" where
  "strip_suffix s x =
     (if length x \<le> length s \<and> drop (length s - length x) s = x
      then Some (take (length s - length x) s) else None)"

definition split_unit :: "bytes \<Rightarrow> bytes \<times> usize" where
  "split_unit s =
     (case strip_suffix s (str_bytes ''gb'') of Some n \<Rightarrow> (n, 1024 * 1024 * 1024)
      | None \<Rightarrow>
     (case strip_suffix s (str_bytes ''mb'') of Some n \<Rightarrow> (n, 1024 * 1024)
      | None \<Rightarrow>
     (case strip_suffix s (str_bytes ''kb'') of Some n \<Rightarrow> (n, 1024)
      | None \<Rightarrow>
     (case strip_suffix s (str_bytes ''b'') of Some n \<Rightarrow> (n, 1)
      | None \<Rightarrow> (s, 1)))))"

definition overflow_text :: "usize \<Rightarrow> usize \<Rightarrow> bytes" where
  "overflow_text n multiplier =
     str_bytes ''byte size overflows: '' @ dec_nat n @ str_bytes '' * '' @ dec_nat multiplier"

definition parse_byte_size :: "bytes \<Rightarrow> (usize, bytes) res" where
  "parse_byte_size s =
     (let s = to_ascii_lowercase (trim s) in
      case split_unit s of (num_str, multiplier) \<Rightarrow>
        and_then (parse_usize (trim num_str))
          (\<lambda>n. if n = 0 then Err (str_bytes ''value must be > 0'')
               else if n * multiplier < 2 ^ 64 then Ok (n * multiplier)
               else Err (overflow_text n multiplier)))"

section \<open>Option values\<close>

datatype format_arg = FParquet | FArrowIpc | FCsv | FJson

definition format_ext :: "format_arg \<Rightarrow> string" where
  "format_ext f =
     (case f of FParquet \<Rightarrow> ''parquet'' | FArrowIpc \<Rightarrow> ''arrow'' | FCsv \<Rightarrow> ''csv'' | FJson \<Rightarrow> ''json'')"

datatype compression_arg = CZstd | CSnappy | CLz4 | CLz4Raw | CGzip | CNone

definition compression_name :: "compression_arg \<Rightarrow> string" where
  "compression_name c =
     (case c of CZstd \<Rightarrow> ''zstd'' | CSnappy \<Rightarrow> ''snappy'' | CLz4 \<Rightarrow> ''lz4''
      | CLz4Raw \<Rightarrow> ''lz4-raw'' | CGzip \<Rightarrow> ''gzip'' | CNone \<Rightarrow> ''none'')"

text \<open>\<open>expect\<close> panics on an error.\<close>

definition to_parquet_compression :: "compression_arg \<Rightarrow> (compression, 'e) res" where
  "to_parquet_compression c =
     (case parse_compression (str_bytes (compression_name c)) of Ok x \<Rightarrow> Ok x | _ \<Rightarrow> Panic)"

lemma to_parquet_compression_ok [simp]:
  "to_parquet_compression c =
     Ok (case c of CZstd \<Rightarrow> ZSTD | CSnappy \<Rightarrow> SNAPPY | CLz4 \<Rightarrow> LZ4 | CLz4Raw \<Rightarrow> LZ4_RAW
         | CGzip \<Rightarrow> GZIP | CNone \<Rightarrow> UNCOMPRESSED)"
  by (cases c)
    (simp_all add: to_parquet_compression_def parse_compression_def compression_name_def
      to_ascii_lowercase_def str_bytes_def ascii_lower_def Let_def)

section \<open>Errors and exit codes\<close>

text \<open>
  \<open>IoContext\<close> is an I/O error with its path.  The boxed errors are the types that are boxed:
  an I/O error with or without a path, and an error of the writers, of Parquet or of JSON.
\<close>

datatype io_context = IoContext bytes string

datatype boxed_io = Io_At io_context | Io_Bare string

datatype boxed_error = From_Convert convert_error | From_Parquet string | From_Json string

datatype cli_error =
    Usage bytes
  | Cli_Io boxed_io
  | Corrupt rdb_error
  | ValidationFailed bytes
  | Other boxed_error

definition exit_code :: "cli_error \<Rightarrow> int" where
  "exit_code e =
     (case e of Usage _ \<Rightarrow> 2 | Cli_Io _ \<Rightarrow> 3 | Corrupt _ \<Rightarrow> 4 | ValidationFailed _ \<Rightarrow> 5 | Other _ \<Rightarrow> 1)"

datatype rdb_open_error = Open_Io io_context | Open_Rdb rdb_error

definition cli_of_open :: "rdb_open_error \<Rightarrow> cli_error" where
  "cli_of_open e = (case e of Open_Io io \<Rightarrow> Cli_Io (Io_At io) | Open_Rdb rdb \<Rightarrow> Corrupt rdb)"

definition cli_of_convert :: "convert_error \<Rightarrow> cli_error" where
  "cli_of_convert e =
     (case e of Parser rdb \<Rightarrow> Corrupt rdb | Convert_Io io \<Rightarrow> Cli_Io (Io_Bare io)
      | other \<Rightarrow> Other (From_Convert other))"

section \<open>File names\<close>

definition shard_suffix :: "bytes option \<Rightarrow> bytes" where
  "shard_suffix shard_id = (case shard_id of Some s \<Rightarrow> 46 # s | None \<Rightarrow> [])"

definition output_name :: "type_tag \<Rightarrow> bytes option \<Rightarrow> string \<Rightarrow> bytes" where
  "output_name tag shard_id ext =
     str_bytes (tag_as_str tag) @ shard_suffix shard_id @ 46 # str_bytes ext"

definition starts_with :: "bytes \<Rightarrow> bytes \<Rightarrow> bool" where
  "starts_with s p \<longleftrightarrow> take (length p) s = p"

definition ends_with :: "bytes \<Rightarrow> bytes \<Rightarrow> bool" where
  "ends_with s x \<longleftrightarrow> strip_suffix s x \<noteq> None"

text \<open>
  A directory is which names exist in it and the names \<open>read_dir\<close> lists, \<open>None\<close> when that
  fails.
\<close>

record directory =
  dir_exists :: "bytes \<Rightarrow> bool"
  dir_listing :: "bytes list option"

definition find_parquet_files :: "directory \<Rightarrow> type_tag \<Rightarrow> bytes list" where
  "find_parquet_files dir tag =
     (let base = str_bytes (tag_as_str tag) @ str_bytes ''.parquet'';
          prefix = str_bytes (tag_as_str tag) @ [46]; suffix = str_bytes ''.parquet'';
          is_shard = (\<lambda>n. starts_with n prefix \<and> ends_with n suffix \<and> n \<noteq> base) in
      (if dir_exists dir base then [base] else []) @
      (case dir_listing dir of Some names \<Rightarrow> filter is_shard names | None \<Rightarrow> []))"

text \<open>A directory that can be listed.\<close>

definition listed :: "bytes list \<Rightarrow> directory" where
  "listed names = \<lparr>dir_exists = (\<lambda>n. n \<in> set names), dir_listing = Some names\<rparr>"

section \<open>Facts\<close>

lemma exit_codes_distinct:
  "exit_code e \<noteq> 0"
  "exit_code e = exit_code e' \<longleftrightarrow>
     (case (e, e') of (Usage _, Usage _) \<Rightarrow> True | (Cli_Io _, Cli_Io _) \<Rightarrow> True
      | (Corrupt _, Corrupt _) \<Rightarrow> True | (ValidationFailed _, ValidationFailed _) \<Rightarrow> True
      | (Other _, Other _) \<Rightarrow> True | _ \<Rightarrow> False)"
  by (cases e; cases e'; simp add: exit_code_def)+

lemma ends_with_append [simp]: "ends_with (s @ x) x"
  by (simp add: ends_with_def strip_suffix_def)

lemma starts_with_append [simp]: "starts_with (p @ s) p"
  by (simp add: starts_with_def)

lemma strip_suffix_append [simp]: "strip_suffix (s @ x) x = Some s"
  by (simp add: strip_suffix_def)

text \<open>What the exporter names a file, \<open>validate\<close> finds under the same tag, and only there.\<close>

lemma output_found:
  assumes "output_name tag shard ''parquet'' \<in> set names"
  shows "output_name tag shard ''parquet'' \<in> set (find_parquet_files (listed names) tag)"
proof (cases shard)
  case None
  then have "output_name tag shard ''parquet'' = str_bytes (tag_as_str tag) @ str_bytes ''.parquet''"
    by (simp add: output_name_def shard_suffix_def str_bytes_def)
  then show ?thesis using assms by (simp add: find_parquet_files_def listed_def Let_def)
next
  case (Some s)
  let ?n = "(str_bytes (tag_as_str tag) @ [46]) @ (s @ str_bytes ''.parquet'')"
  have n: "output_name tag shard ''parquet'' = ?n"
    by (simp add: Some output_name_def shard_suffix_def str_bytes_def)
  have "ends_with ?n (str_bytes ''.parquet'')"
    using ends_with_append [of "(str_bytes (tag_as_str tag) @ [46]) @ s" "str_bytes ''.parquet''"] by simp
  moreover have "starts_with ?n (str_bytes (tag_as_str tag) @ [46])"
    by (rule starts_with_append)
  moreover have "length ?n \<noteq> length (str_bytes (tag_as_str tag) @ str_bytes ''.parquet'')" by simp
  ultimately show ?thesis
    using assms unfolding n find_parquet_files_def listed_def Let_def by (auto dest: arg_cong [where f = length])
qed

lemma starts_with_split: "starts_with n p \<Longrightarrow> n = p @ drop (length p) n"
  unfolding starts_with_def by (rule append_eq_conv_conj [THEN iffD2, symmetric]) simp

lemma prefix_tag:
  assumes "starts_with n (str_bytes (tag_as_str t) @ [46])" "starts_with n (str_bytes (tag_as_str u) @ [46])"
  shows "t = u"
proof -
  have "takeWhile (\<lambda>b. b \<noteq> 46) n = str_bytes (tag_as_str v)"
    if p: "starts_with n (str_bytes (tag_as_str v) @ [46])" for v
  proof -
    obtain r where "n = (str_bytes (tag_as_str v) @ [46]) @ r"
      using starts_with_split [OF p] by blast
    moreover have "\<forall>b \<in> set (str_bytes (tag_as_str v)). b \<noteq> 46"
      by (cases v) (simp_all add: tag_as_str_def str_bytes_def)
    ultimately show ?thesis by (simp add: takeWhile_append2)
  qed
  then have "str_bytes (tag_as_str t) = str_bytes (tag_as_str u)" using assms by metis
  then have "Some t = Some u" by (metis tag_from_as_str)
  then show ?thesis by simp
qed

lemma found_prefix:
  "n \<in> set (find_parquet_files dir tag) \<Longrightarrow> starts_with n (str_bytes (tag_as_str tag) @ [46])"
proof -
  have "starts_with (str_bytes (tag_as_str tag) @ str_bytes ''.parquet'') (str_bytes (tag_as_str tag) @ [46])"
    by (simp add: starts_with_def str_bytes_def)
  then show "n \<in> set (find_parquet_files dir tag) \<Longrightarrow> starts_with n (str_bytes (tag_as_str tag) @ [46])"
    by (auto simp: find_parquet_files_def Let_def split: if_splits option.splits)
qed

lemma found_once: "n \<in> set (find_parquet_files dir t) \<Longrightarrow> n \<in> set (find_parquet_files dir u) \<Longrightarrow> t = u"
  using found_prefix prefix_tag by blast

end
