(* ===== verification/Cli_Export.thy ===== *)
theory Cli_Export
  imports Cli_Filter Cli_Args
begin

text \<open>
  \<open>crates/cli/src/export.rs\<close> and the opening of the input in \<open>io.rs\<close>: the \<open>export\<close> command.
  What lies outside the program is the environment \<open>cli_env\<close>: files to read, the directory
  and files to create, the file formats, \<open>RecordBatch::try_new\<close> and \<open>glob_match\<close>.  What the
  command prints is the list of its lines.
\<close>

section \<open>Arguments and environment\<close>

record export_args =
  xa_file :: bytes
  xa_output :: "bytes option"
  xa_format :: format_arg
  xa_compression :: compression_arg
  xa_db :: "u32 option"
  xa_type_names :: "bytes option"
  xa_key_pattern :: "bytes option"
  xa_batch_size :: usize
  xa_row_group_size :: usize
  xa_shard_id :: "bytes option"
  xa_max_key_elements :: "usize option"
  xa_no_chunking :: bool
  xa_batch_bytes :: "usize option"
  xa_max_entry_bytes :: "usize option"
  xa_heuristic :: bytes

text \<open>An input is the bytes it delivers and the way it ends; a file may fail to open.\<close>

record input_env =
  env_stdin :: "bytes \<times> io_error"
  env_open :: "bytes \<Rightarrow> (bytes \<times> io_error, string) res"

record ('w, 'raw, 'wr) cli_env = input_env +
  env_create_dir :: "bytes \<Rightarrow> ('w, unit, string) st"
  env_directory :: "bytes \<Rightarrow> 'w \<Rightarrow> directory"
  env_create :: "bytes \<Rightarrow> ('w, 'raw, string) st"
  env_parquet :: "('w, 'raw, 'wr) parquet_format"
  env_ipc :: "('w, 'raw, 'wr) ipc_format"
  env_csv :: "('w, 'raw, 'wr) line_format"
  env_json :: "('w, 'raw, 'wr) line_format"
  env_try_new :: try_new
  env_glob :: glob

section \<open>Paths\<close>

definition path_join :: "bytes \<Rightarrow> bytes \<Rightarrow> bytes" where
  "path_join dir name = (if dir = [] \<or> last dir = 47 then dir @ name else dir @ 47 # name)"

text \<open>
  \<open>Path::file_name\<close> is the last component unless that is \<open>..\<close>; empty components and \<open>.\<close>
  do not count.  \<open>Path::file_stem\<close> cuts it at its last dot, unless the dot is its first byte.
\<close>

definition path_file_name :: "bytes \<Rightarrow> bytes option" where
  "path_file_name p =
     (case filter (\<lambda>c. c \<noteq> [] \<and> c \<noteq> [46]) (split_on 47 p) of
        [] \<Rightarrow> None
      | cs \<Rightarrow> if last cs = [46, 46] then None else Some (last cs))"

definition cut_extension :: "bytes \<Rightarrow> bytes" where
  "cut_extension n =
     (let ext = takeWhile (\<lambda>b. b \<noteq> 46) (rev n) in
      if length ext = length n then n
      else let stem = take (length n - Suc (length ext)) n in if stem = [] then n else stem)"

definition file_stem :: "bytes \<Rightarrow> bytes option" where
  "file_stem p = map_option cut_extension (path_file_name p)"

definition output_dir :: "export_args \<Rightarrow> bytes" where
  "output_dir args =
     (case xa_output args of
        Some dir \<Rightarrow> dir
      | None \<Rightarrow>
          if xa_file args = str_bytes ''-'' then str_bytes ''rdb_export''
          else (case file_stem (xa_file args) of
              Some s \<Rightarrow> if s \<noteq> [] then s else str_bytes ''rdb_export''
            | None \<Rightarrow> str_bytes ''rdb_export''))"

section \<open>Opening the input\<close>

text \<open>The path in front of the error.\<close>

definition path_message :: "bytes \<Rightarrow> string \<Rightarrow> string" where
  "path_message path source = List.map (\<lambda>b. char_of (unat b)) path @ '': '' @ source"

definition open_file :: "'x input_env_scheme \<Rightarrow> bytes \<Rightarrow> (bytes \<times> io_error, io_context) res" where
  "open_file env path = map_err (IoContext path) (env_open env path)"

definition open_rdb_input :: "'x input_env_scheme \<Rightarrow> bytes \<Rightarrow> (bytes \<times> io_error, io_context) res" where
  "open_rdb_input env path =
     (if path = str_bytes ''-'' then Ok (env_stdin env) else open_file env path)"

definition build_rdb_reader :: "'x input_env_scheme \<Rightarrow> bytes \<Rightarrow> (rdb_reader, rdb_open_error) res" where
  "build_rdb_reader env path =
     and_then (map_err Open_Io (open_rdb_input env path))
       (\<lambda>(input, ending). map_err Open_Rdb (reader_new input ending))"

section \<open>Steps of the command\<close>

definition shard_char :: "u8 \<Rightarrow> bool" where
  "shard_char c \<longleftrightarrow>
     48 \<le> c \<and> c \<le> 57 \<or> 65 \<le> c \<and> c \<le> 90 \<or> 97 \<le> c \<and> c \<le> 122 \<or> c = 45 \<or> c = 95"

definition shard_error :: bytes where
  "shard_error = str_bytes ''shard-id must be non-empty and contain only [A-Za-z0-9_-]''"

definition check_args :: "export_args \<Rightarrow> (type_tag set option \<times> heuristic set, cli_error) res" where
  "check_args args =
     and_then (case xa_type_names args of
         Some names \<Rightarrow> and_then (map_err Usage (tag_parse_set names)) (\<lambda>ts. Ok (Some ts))
       | None \<Rightarrow> Ok None)
     (\<lambda>type_tags.
     and_then (case xa_shard_id args of
         Some s \<Rightarrow> if s = [] \<or> \<not> list_all shard_char s then Err (Usage shard_error) else Ok ()
       | None \<Rightarrow> Ok ())
     (\<lambda>_.
     and_then (map_err Usage (heuristic_parse_set (xa_heuristic args)))
     (\<lambda>hs. Ok (type_tags, hs))))"

definition open_reader :: "'x input_env_scheme \<Rightarrow> export_args \<Rightarrow> (rdb_reader, cli_error) res" where
  "open_reader env args =
     and_then (map_err cli_of_open (build_rdb_reader env (xa_file args)))
     (\<lambda>r. if xa_no_chunking args then Ok (without_chunking r)
       else (case xa_max_key_elements args of
           Some m \<Rightarrow> map_err Corrupt (with_max_key_elements m r)
         | None \<Rightarrow> Ok r))"

definition export_filter :: "export_args \<Rightarrow> type_tag set option \<Rightarrow> heuristic set \<Rightarrow> entry_filter" where
  "export_filter args type_tags hs =
     \<lparr>fl_db = xa_db args, fl_type_tags = type_tags, fl_key_pattern = xa_key_pattern args,
      fl_heuristics = hs\<rparr>"

definition export_config :: "export_args \<Rightarrow> heuristic set \<Rightarrow> batcher_config" where
  "export_config args hs =
     (let c = batcher_config_default\<lparr>batch_size := xa_batch_size args\<rparr>;
          c = (case xa_batch_bytes args of Some bb \<Rightarrow> c\<lparr>batch_bytes := Some bb\<rparr> | None \<Rightarrow> c) in
      c\<lparr>max_entry_bytes := xa_max_entry_bytes args, heuristics := hs\<rparr>)"

definition selected :: "type_tag set option \<Rightarrow> batch_item list \<Rightarrow> batch_item list" where
  "selected output_tags raw =
     (case output_tags of
        Some tags \<Rightarrow> filter (\<lambda>r. case r of Ok tb \<Rightarrow> tb_tag tb \<in> tags | _ \<Rightarrow> True) raw
      | None \<Rightarrow> raw)"

text \<open>
  The batches the writer pulls.  They depend on the reader only, not on what is written
  meanwhile, so they are a list; \<open>None\<close> when the iteration would not end.
\<close>

definition export_items_of ::
  "('w, 'raw, 'wr) cli_env \<Rightarrow> export_args \<Rightarrow> type_tag set option \<Rightarrow> heuristic set \<Rightarrow> rdb_reader \<Rightarrow>
   batch_item list option" where
  "export_items_of env args tags hs r =
     map_option (\<lambda>(raw, _). selected tags raw)
       (batch_collect (env_try_new env)
         (filtered_source (env_glob env) (export_filter args tags hs) reader_next)
         (batcher_process (batcher_new (export_config args hs)) r))"

definition writer_factory ::
  "('w, 'raw, 'wr) cli_env \<Rightarrow> export_args \<Rightarrow> type_tag \<Rightarrow> ('w, 'raw, convert_error) st" where
  "writer_factory env args tag =
     (let filename = output_name tag (xa_shard_id args) (format_ext (xa_format args));
          path = path_join (output_dir args) filename in
      into_open (\<lambda>e. Convert_Io (path_message path e)) (env_create env path))"

definition write_output ::
  "('w, 'raw, 'wr) cli_env \<Rightarrow> export_args \<Rightarrow> (bytes \<rightharpoonup> bytes) \<Rightarrow> batch_item list \<Rightarrow>
   ('w, unit, convert_error) st" where
  "write_output env args meta items w =
     (case xa_format args of
        FParquet \<Rightarrow>
          (case to_parquet_compression (xa_compression args) of
             Ok c \<Rightarrow> write_parquet (env_parquet env)
               \<lparr>compression = c, max_row_group_size = xa_row_group_size args, file_metadata = meta\<rparr>
               (writer_factory env args) items w
           | Err e \<Rightarrow> (Err e, w)
           | Panic \<Rightarrow> (Panic, w))
      | FArrowIpc \<Rightarrow> write_arrow_ipc (env_ipc env) (writer_factory env args) items w
      | FCsv \<Rightarrow> write_csv (env_csv env) (writer_factory env args) items w
      | FJson \<Rightarrow> write_json (env_json env) (writer_factory env args) items w)"

text \<open>The warning about files that will be overwritten.\<close>

definition output_file :: "bytes \<Rightarrow> bool" where
  "output_file name \<longleftrightarrow>
     ends_with name (str_bytes ''.parquet'') \<or> ends_with name (str_bytes ''.arrow'') \<or>
     ends_with name (str_bytes ''.csv'') \<or> ends_with name (str_bytes ''.json'')"

definition existing_warning :: "('w, 'raw, 'wr) cli_env \<Rightarrow> bytes \<Rightarrow> 'w \<Rightarrow> bytes list" where
  "existing_warning env dir w =
     (case dir_listing (env_directory env dir w) of
        Some names \<Rightarrow>
          let existing = filter output_file names in
          if existing \<noteq> [] then
            [str_bytes ''Warning: output directory '' @ [39] @ dir @ [39] @ str_bytes '' contains '' @
             dec_nat (length existing) @ str_bytes '' existing file(s) that will be overwritten'']
          else []
      | None \<Rightarrow> [])"

definition exported_message :: "bytes \<Rightarrow> bytes" where
  "exported_message dir = str_bytes ''Exported to '' @ dir"

text \<open>The result, the lines printed and the world afterwards.\<close>

definition export_run ::
  "('w, 'raw, 'wr) cli_env \<Rightarrow> export_args \<Rightarrow> 'w \<Rightarrow>
   ((unit, cli_error) res \<times> bytes list \<times> 'w) option" where
  "export_run env args w =
     (case check_args args of
        Err e \<Rightarrow> Some (Err e, [], w)
      | Panic \<Rightarrow> Some (Panic, [], w)
      | Ok (tags, hs) \<Rightarrow>
     (case open_reader env args of
        Err e \<Rightarrow> Some (Err e, [], w)
      | Panic \<Rightarrow> Some (Panic, [], w)
      | Ok r \<Rightarrow>
     (let meta = metadata_from_rdb (metadata r) hs; dir = output_dir args in
      case env_create_dir env dir w of
        (Err e, w) \<Rightarrow> Some (Err (Cli_Io (Io_Bare e)), [], w)
      | (Panic, w) \<Rightarrow> Some (Panic, [], w)
      | (Ok _, w) \<Rightarrow>
          let warning = existing_warning env dir w in
          map_option (\<lambda>items. case write_output env args meta items w of
              (Ok _, w) \<Rightarrow> (Ok (), warning @ [exported_message dir], w)
            | (Err e, w) \<Rightarrow> (Err (cli_of_convert e), warning, w)
            | (Panic, w) \<Rightarrow> (Panic, warning, w))
            (export_items_of env args tags hs r))))"

end
