(* ===== verification/Export_Laws.thy ===== *)
theory Export_Laws
  imports Cli_Export
begin

text \<open>
  Lemmas about the export command: the four formats as one kind of writer, a run on formats
  that never fail, and the rows of the batches selected.
\<close>

section \<open>The four formats as one\<close>

text \<open>The same writers, with the close error converted at once.\<close>

definition converted ::
  "('w, 'raw, 'wr, 'ce) writer_ops \<Rightarrow> ('w, 'raw, 'wr, convert_error) writer_ops" where
  "converted ops =
     \<lparr>wo_factory = wo_factory ops, wo_open = wo_open ops, wo_write = wo_write ops,
      wo_close = (\<lambda>wr w. case wo_close ops wr w of (r, w) \<Rightarrow> (map_err (wo_into ops) r, w)),
      wo_into = (\<lambda>e. e)\<rparr>"

lemma converted_simps [simp]:
  "wo_factory (converted ops) = wo_factory ops" "wo_open (converted ops) = wo_open ops"
  "wo_write (converted ops) = wo_write ops" "wo_into (converted ops) = (\<lambda>e. e)"
  "wo_close (converted ops) wr w = (case wo_close ops wr w of (r, w) \<Rightarrow> (map_err (wo_into ops) r, w))"
  by (simp_all add: converted_def)

lemma close_each_converted: "close_each (converted ops) ps f w = close_each ops ps f w"
proof (induction ps arbitrary: f w)
  case (Cons p ps)
  then show ?case by (cases p; cases f) (auto split: prod.splits res.splits)
qed simp

lemma close_all_converted: "close_all (converted ops) ws w = close_all ops ws w"
  unfolding close_all_def st_bind_def by (simp add: close_each_converted)

lemma populate_converted: "populate (converted ops) items = populate ops items"
proof (induction items)
  case (Cons x items)
  have "writer_entry (converted ops) = writer_entry ops" "write_batch (converted ops) = write_batch ops"
    by (simp_all add: writer_entry_def write_batch_def fun_eq_iff split: option.split)
  then show ?case by (simp add: Cons)
qed simp

lemma pipeline_converted: "run_writer_pipeline ops items w = run_writer_pipeline (converted ops) items w"
  unfolding run_writer_pipeline_def populate_converted close_all_converted by (rule refl)

definition export_writers ::
  "('w, 'raw, 'wr) cli_env \<Rightarrow> export_args \<Rightarrow> (bytes \<rightharpoonup> bytes) \<Rightarrow>
   ('w, 'raw, 'wr, convert_error) writer_ops" where
  "export_writers env args meta =
     (case xa_format args of
        FParquet \<Rightarrow>
          \<lparr>wo_factory = writer_factory env args,
           wo_open = (\<lambda>tag raw. into_open Parquet (pf_try_new (env_parquet env) raw (schema_for tag, meta)
             (case (to_parquet_compression (xa_compression args) :: (compression, unit) res) of
                Ok c \<Rightarrow> c | _ \<Rightarrow> UNCOMPRESSED, xa_row_group_size args))),
           wo_write = into_write Parquet (pf_write (env_parquet env)),
           wo_close = (\<lambda>wr w. case pf_close (env_parquet env) wr w of (r, w) \<Rightarrow> (map_err Parquet r, w)),
           wo_into = (\<lambda>e. e)\<rparr>
      | FArrowIpc \<Rightarrow>
          \<lparr>wo_factory = writer_factory env args,
           wo_open = (\<lambda>tag raw. into_open Arrow (if_try_new (env_ipc env) raw (schema_for tag))),
           wo_write = into_write Arrow (if_write (env_ipc env)),
           wo_close = (\<lambda>wr w. case if_finish (env_ipc env) wr w of (r, w) \<Rightarrow> (map_err Arrow r, w)),
           wo_into = (\<lambda>e. e)\<rparr>
      | FCsv \<Rightarrow>
          \<lparr>wo_factory = writer_factory env args,
           wo_open = (\<lambda>tag raw. st_ret (lf_new (env_csv env) raw)),
           wo_write = into_write Arrow (lf_write (env_csv env)),
           wo_close = (\<lambda>wr w. case lf_finish (env_csv env) wr w of (r, w) \<Rightarrow> (map_err Convert_Io r, w)),
           wo_into = (\<lambda>e. e)\<rparr>
      | FJson \<Rightarrow>
          \<lparr>wo_factory = writer_factory env args,
           wo_open = (\<lambda>tag raw. st_ret (lf_new (env_json env) raw)),
           wo_write = into_write Arrow (lf_write (env_json env)),
           wo_close = (\<lambda>wr w. case lf_finish (env_json env) wr w of (r, w) \<Rightarrow> (map_err Arrow r, w)),
           wo_into = (\<lambda>e. e)\<rparr>)"

lemma map_err_id [simp]: "map_err (\<lambda>e. e) r = r"
  by (cases r) simp_all

lemma write_output_pipeline:
  "write_output env args meta items w = run_writer_pipeline (export_writers env args meta) items w"
proof (cases "xa_format args")
  case FParquet
  show ?thesis
    unfolding write_output_def FParquet to_parquet_compression_ok format_arg.case res.case
      write_parquet_def Let_def
    by (subst pipeline_converted, cases "meta = Map.empty")
      (simp_all add: converted_def export_writers_def FParquet)
next
  case FArrowIpc
  show ?thesis
    unfolding write_output_def FArrowIpc format_arg.case write_arrow_ipc_def
    by (subst pipeline_converted) (simp add: converted_def export_writers_def FArrowIpc)
next
  case FCsv
  then show ?thesis
    by (simp add: write_output_def export_writers_def write_csv_def)
next
  case FJson
  show ?thesis
    unfolding write_output_def FJson format_arg.case write_json_def
    by (subst pipeline_converted) (simp add: converted_def export_writers_def FJson)
qed

section \<open>Writers that never fail\<close>

definition never_fails :: "('w, 'raw, 'wr, 'ce) writer_ops \<Rightarrow> bool" where
  "never_fails ops \<longleftrightarrow>
     (\<forall>t w. \<exists>x w'. wo_factory ops t w = (Ok x, w')) \<and>
     (\<forall>t raw w. \<exists>x w'. wo_open ops t raw w = (Ok x, w')) \<and>
     (\<forall>wr b w. \<exists>wr' w'. wo_write ops wr b w = (Ok (), wr', w')) \<and>
     (\<forall>wr w. \<exists>w'. wo_close ops wr w = (Ok (), w'))"

lemma never_fails_D:
  assumes "never_fails ops"
  shows "\<exists>x w'. wo_factory ops t w = (Ok x, w')" "\<exists>x w'. wo_open ops t raw w = (Ok x, w')"
    "\<exists>wr' w'. wo_write ops wr b w = (Ok (), wr', w')" "\<exists>w'. wo_close ops wr w = (Ok (), w')"
  using assms unfolding never_fails_def by blast+

lemma writer_entry_never_fails:
  assumes "never_fails ops"
  shows "\<exists>wr s'. writer_entry ops t s = (Ok wr, s')"
proof -
  obtain ws w where s: "s = (ws, w)" by (cases s)
  obtain raw w1 where 1: "wo_factory ops t w = (Ok raw, w1)"
    using never_fails_D(1) [OF assms] by blast
  obtain wr w2 where 2: "wo_open ops t raw w1 = (Ok wr, w2)"
    using never_fails_D(2) [OF assms] by blast
  show ?thesis
    by (cases "ws t") (simp_all add: s writer_entry_def st_bind_def 1 2)
qed

text \<open>The first error among the items ends the loop; without one it runs to the end.\<close>

definition first_error :: "('a, 'e) res list \<Rightarrow> (unit, 'e) res" where
  "first_error items = (case errs items of [] \<Rightarrow> Ok () | e # _ \<Rightarrow> Err e)"

lemma first_error_simps [simp]:
  "first_error [] = Ok ()" "first_error (Ok a # items) = first_error items"
  "first_error (Err e # items) = Err e"
  by (simp_all add: first_error_def)

lemma populate_never_fails:
  assumes "never_fails ops" "Panic \<notin> set items"
  shows "\<exists>s'. populate ops items s = (first_error items, s')"
  using assms(2)
proof (induction items arbitrary: s)
  case (Cons x items)
  show ?case
  proof (cases x)
    case x: (Ok tb)
    obtain wr ws w where e: "writer_entry ops (tb_tag tb) s = (Ok wr, (ws, w))"
      using writer_entry_never_fails [OF assms(1), of "tb_tag tb" s] by auto
    obtain wr' w' where b: "wo_write ops wr (tb_batch tb) w = (Ok (), wr', w')"
      using never_fails_D(3) [OF assms(1)] by blast
    show ?thesis
      using Cons.IH [of "(ws(tb_tag tb \<mapsto> wr'), w')"] Cons.prems
      by (simp add: x e b write_batch_def)
  qed (use Cons.prems in simp_all)
qed simp

lemma close_each_never_fails:
  assumes "never_fails ops"
  shows "\<exists>w'. close_each ops ps None w = (Ok None, w')"
proof (induction ps arbitrary: w)
  case (Cons p ps)
  obtain t wr where p: "p = (t, wr)" by (cases p)
  obtain w' where "wo_close ops wr w = (Ok (), w')" using never_fails_D(4) [OF assms] by blast
  then show ?case using Cons [of w'] by (simp add: p)
qed simp

lemma pipeline_never_fails:
  assumes "never_fails ops" "Panic \<notin> set items"
  shows "\<exists>w'. run_writer_pipeline ops items w = (first_error items, w')"
proof -
  obtain ws w1 where p: "populate ops items (Map.empty, w) = (first_error items, (ws, w1))"
    using populate_never_fails [OF assms, of "(Map.empty, w)"] by auto
  obtain w2 where "close_each ops (in_order ws) None w1 = (Ok None, w2)"
    using close_each_never_fails [OF assms(1)] by blast
  moreover have "first_error items \<noteq> Panic" by (simp add: first_error_def split: list.split)
  ultimately show ?thesis
    by (cases "first_error items") (simp_all add: run_writer_pipeline_def p close_all_def)
qed

text \<open>An environment in which nothing can fail but the input.\<close>

definition env_writes :: "('w, 'raw, 'wr) cli_env \<Rightarrow> bool" where
  "env_writes env \<longleftrightarrow>
     (\<forall>p w. \<exists>w'. env_create_dir env p w = (Ok (), w')) \<and>
     (\<forall>p w. \<exists>x w'. env_create env p w = (Ok x, w')) \<and>
     (\<forall>raw s p w. \<exists>x w'. pf_try_new (env_parquet env) raw s p w = (Ok x, w')) \<and>
     (\<forall>raw s w. \<exists>x w'. if_try_new (env_ipc env) raw s w = (Ok x, w')) \<and>
     (\<forall>f \<in> {pf_write (env_parquet env), if_write (env_ipc env), lf_write (env_csv env),
         lf_write (env_json env)}. \<forall>wr b w. \<exists>wr' w'. f wr b w = (Ok (), wr', w')) \<and>
     (\<forall>f \<in> {pf_close (env_parquet env), if_finish (env_ipc env), lf_finish (env_csv env),
         lf_finish (env_json env)}. \<forall>wr w. \<exists>w'. f wr w = (Ok (), w'))"

lemma into_open_ok: "\<exists>x w'. f w = (Ok x, w') \<Longrightarrow> \<exists>x w'. into_open g f w = (Ok x, w')"
  by (auto simp: into_open_def)

lemma into_write_ok:
  "\<exists>wr' w'. f wr b w = (Ok (), wr', w') \<Longrightarrow> \<exists>wr' w'. into_write g f wr b w = (Ok (), wr', w')"
  by (auto simp: into_write_def)

lemma close_ok:
  "\<exists>w'. f wr w = (Ok (), w') \<Longrightarrow> \<exists>w'. (case f wr w of (r, w) \<Rightarrow> (map_err g r, w)) = (Ok (), w')"
  by auto

lemma writer_factory_ok: "env_writes env \<Longrightarrow> \<exists>x w'. writer_factory env args t w = (Ok x, w')"
  unfolding writer_factory_def Let_def by (rule into_open_ok) (simp add: env_writes_def)

lemma export_writers_never_fail:
  assumes "env_writes env"
  shows "never_fails (export_writers env args meta)"
proof (cases "xa_format args")
  case FParquet
  show ?thesis
    unfolding never_fails_def export_writers_def FParquet format_arg.case writer_ops.simps
    by (intro conjI allI writer_factory_ok [OF assms] into_open_ok into_write_ok close_ok)
      (use assms in \<open>simp_all add: env_writes_def\<close>)
next
  case FArrowIpc
  show ?thesis
    unfolding never_fails_def export_writers_def FArrowIpc format_arg.case writer_ops.simps
    by (intro conjI allI writer_factory_ok [OF assms] into_open_ok into_write_ok close_ok)
      (use assms in \<open>simp_all add: env_writes_def\<close>)
next
  case FCsv
  show ?thesis
    unfolding never_fails_def export_writers_def FCsv format_arg.case writer_ops.simps
    by (intro conjI allI writer_factory_ok [OF assms] into_write_ok close_ok)
      (use assms in \<open>simp_all add: env_writes_def\<close>)
next
  case FJson
  show ?thesis
    unfolding never_fails_def export_writers_def FJson format_arg.case writer_ops.simps
    by (intro conjI allI writer_factory_ok [OF assms] into_write_ok close_ok)
      (use assms in \<open>simp_all add: env_writes_def\<close>)
qed

section \<open>Selection\<close>

definition asked :: "type_tag set option \<Rightarrow> type_tag \<Rightarrow> bool" where
  "asked tags t = (case tags of Some ts \<Rightarrow> t \<in> ts | None \<Rightarrow> True)"

lemma oks_selected: "oks (selected tags raw) = filter (\<lambda>tb. asked tags (tb_tag tb)) (oks raw)"
proof (cases tags)
  case (Some ts)
  show ?thesis
  proof (induction raw)
    case (Cons x raw)
    then show ?case by (cases x) (simp_all add: selected_def Some asked_def)
  qed (simp add: selected_def Some)
qed (simp add: selected_def asked_def)

lemma errs_selected: "errs (selected tags raw) = errs raw"
proof (cases tags)
  case (Some ts)
  show ?thesis
  proof (induction raw)
    case (Cons x raw)
    then show ?case by (cases x) (simp_all add: selected_def Some)
  qed (simp add: selected_def Some)
qed (simp add: selected_def)

lemma panic_selected: "Panic \<in> set (selected tags raw) \<longleftrightarrow> Panic \<in> set raw"
  by (auto simp: selected_def split: option.splits)

lemma tag_rows_selected:
  "tag_rows t (oks (selected tags raw)) = (if asked tags t then tag_rows t (oks raw) else [])"
proof -
  have "tag_rows t (filter (\<lambda>b. asked tags (tb_tag b)) bs) =
      (if asked tags t then tag_rows t bs else [])" for bs
    by (induction bs) (auto simp: tag_rows_def)
  then show ?thesis by (simp add: oks_selected)
qed

section \<open>What an export writes\<close>

text \<open>The reader an export has opened iterates to an end, without a panic.\<close>

lemma open_reader_reachable:
  assumes "open_reader env args = Ok r"
  shows "\<exists>input ending. reachable input ending r"
proof -
  obtain input ending q where q: "reader_new input ending = Ok q"
    and r: "(if xa_no_chunking args then Ok (without_chunking q)
       else (case xa_max_key_elements args of
           Some m \<Rightarrow> map_err Corrupt (with_max_key_elements m q) | None \<Rightarrow> Ok q)) = Ok r"
    using assms unfolding open_reader_def build_rdb_reader_def
    by (auto simp: map_err_def split: res.splits bind_splits prod.splits)
  note start = reachable.start [OF q]
  show ?thesis
    using r reachable.unchunked [OF start] reachable.chunking [OF start] start
    by (auto simp: map_err_def split: if_splits option.splits res.splits)
qed

lemma open_reader_collects:
  assumes "open_reader env args = Ok r"
  obtains items r' where "collect r = Some (items, r')" "Panic \<notin> set items"
  using open_reader_reachable [OF assms] collect_terminates by blast

lemma filter_rows:
  assumes "asked tags t" "heuristics cfg = hs"
  shows "List.concat (List.map (routed_rows cfg t) (filter (matches gm (export_filter args tags hs)) es)) =
    List.concat (List.map (routed_rows cfg t) (filter (matches gm (export_filter args None hs)) es))"
proof -
  have "routed_rows cfg t e = []"
    if "\<not> matches gm (export_filter args tags hs) e" "matches gm (export_filter args None hs) e" for e
    using that assms routed_matches [of cfg t e _ "export_filter args tags hs"]
    by (cases tags) (auto simp: matches_def export_filter_def asked_def routed_rows_def split: if_splits)
  moreover have "matches gm (export_filter args None hs) e"
    if "matches gm (export_filter args tags hs) e" for e
    using that by (auto simp: matches_def export_filter_def split: if_splits)
  ultimately show ?thesis by (induction es) auto
qed

definition wanted_rows ::
  "glob \<Rightarrow> export_args \<Rightarrow> type_tag set option \<Rightarrow> heuristic set \<Rightarrow> rdb_entry list \<Rightarrow> type_tag \<Rightarrow> row list" where
  "wanted_rows gm args tags hs es t =
     (if asked tags t then
        List.concat (List.map (routed_rows (export_config args hs) t)
          (filter (matches gm (export_filter args None hs)) es))
      else [])"

lemma tags_with_rows:
  assumes "\<forall>tb \<in> set bs. batch_rows (tb_batch tb) \<noteq> []"
  shows "tb_tag ` set bs = {t. tag_rows t bs \<noteq> []}"
  using assms by (auto simp: tag_rows_def)

lemma export_items_yield:
  assumes "collect r = Some (items, r')" "Panic \<notin> set items" "try_new_accepts (env_try_new env)"
  shows "\<exists>os. export_items_of env args tags hs r = Some os \<and> Panic \<notin> set os \<and>
    errs os = List.map Parser (filter (\<lambda>e. \<not> unsupported e) (errs items)) \<and>
    (\<forall>t. tag_rows t (oks os) = wanted_rows (env_glob env) args tags hs (oks items) t) \<and>
    tb_tag ` set (oks os) = {t. wanted_rows (env_glob env) args tags hs (oks items) t \<noteq> []}"
proof -
  let ?cfg = "export_config args hs" and ?f = "export_filter args tags hs"
  let ?items = "filter (passes (env_glob env) ?f) items"
  have cfg: "heuristics ?cfg = hs" by (simp add: export_config_def Let_def)
  obtain os it where c: "batch_collect (env_try_new env) (filtered_source (env_glob env) ?f reader_next)
      (batcher_process (batcher_new ?cfg) r) = Some (os, it)"
    and ok: "run_ok ?cfg (\<lambda>_. []) 0 ?items os (bi_batcher it)"
    using batch_collect_new [where cfg = ?cfg,
        OF filtered_supplies [OF collect_supplies [OF assms(1)], of "env_glob env" ?f]
        no_panic_passing [OF assms(2)] assms(3)] by blast
  have rows: "tag_rows t (oks os) =
      List.concat (List.map (routed_rows ?cfg t) (filter (matches (env_glob env) ?f) (oks items)))" for t
    using ok by (simp add: run_ok_def oks_passing)
  have "tag_rows t (oks (selected tags os)) = wanted_rows (env_glob env) args tags hs (oks items) t" for t
    using filter_rows [OF _ cfg, of tags t "env_glob env" args "oks items"]
    by (simp add: tag_rows_selected rows wanted_rows_def)
  moreover have "tb_tag ` set (oks (selected tags os)) = {t. tag_rows t (oks (selected tags os)) \<noteq> []}"
    using ok by (intro tags_with_rows) (auto simp: run_ok_def good_batch_def oks_selected)
  moreover have "errs (selected tags os) = List.map Parser (filter (\<lambda>e. \<not> unsupported e) (errs items))"
    using ok by (simp add: run_ok_def errs_selected errs_passing)
  moreover have "Panic \<notin> set (selected tags os)"
    using ok by (simp add: run_ok_def panic_selected)
  ultimately show ?thesis
    by (intro exI [of _ "selected tags os"]) (simp add: export_items_of_def c)
qed

text \<open>The rows of the batches handed to a writer.\<close>

lemma rows_of_batches:
  "List.concat (List.map batch_rows (tag_batches t bs)) = tag_rows t bs"
  by (simp add: tag_batches_def tag_rows_def comp_def)

end
