(* ===== verification/Cli_Validate.thy ===== *)
theory Cli_Validate
  imports Cli_Export
begin

text \<open>
  \<open>crates/cli/src/validate.rs\<close>: the \<open>validate\<close> command, which counts the rows of the RDB
  file and of the Parquet files and compares them per tag.  The Parquet reader and the file
  system are parameters.  What the command prints is the list of its lines.
\<close>

section \<open>Environment\<close>

text \<open>
  Of a Parquet file the command reads the number of rows and the metadata of its Arrow
  schema, \<open>None\<close> when the schema cannot be converted.
\<close>

record parquet_file =
  pq_num_rows :: i64
  pq_metadata :: "(bytes \<rightharpoonup> bytes) option"

record 'f validate_env = input_env +
  ve_directory :: "bytes \<Rightarrow> directory"
  ve_file :: "bytes \<Rightarrow> ('f, string) res"
  ve_parquet :: "'f \<Rightarrow> (parquet_file, string) res"

definition open_parquet :: "'f validate_env \<Rightarrow> bytes \<Rightarrow> (parquet_file, cli_error) res" where
  "open_parquet env path =
     and_then (map_err (\<lambda>e. Cli_Io (Io_At (IoContext path e))) (ve_file env path))
       (\<lambda>file. map_err (\<lambda>e. Other (From_Parquet e)) (ve_parquet env file))"

section \<open>Counting\<close>

definition count_rdb ::
  "'f validate_env \<Rightarrow> bytes \<Rightarrow> heuristic set \<Rightarrow> (entry_summary, cli_error) res option" where
  "count_rdb env path hs =
     (case build_rdb_reader env path of
        Ok r \<Rightarrow> map_option (\<lambda>(res, _). map_err Corrupt res) (summarize_entries r hs)
      | Err e \<Rightarrow> Some (Err (cli_of_open e))
      | Panic \<Rightarrow> Some Panic)"

definition negative_count :: "i64 \<Rightarrow> bytes \<Rightarrow> bytes" where
  "negative_count n path =
     str_bytes ''negative row count '' @ dec_int n @ str_bytes '' in '' @ path"

fun count_files :: "'f validate_env \<Rightarrow> bytes list \<Rightarrow> u64 \<Rightarrow> (u64, cli_error) res" where
  "count_files env [] acc = Ok acc"
| "count_files env (path # paths) acc =
     and_then (open_parquet env path) (\<lambda>pf.
     and_then (if pq_num_rows pf < 0 then Err (Usage (negative_count (pq_num_rows pf) path))
               else Ok (word_of_int (pq_num_rows pf))) (\<lambda>n.
     count_files env paths (acc + n)))"

definition tag_files :: "'f validate_env \<Rightarrow> bytes \<Rightarrow> type_tag \<Rightarrow> bytes list" where
  "tag_files env dir tag =
     List.map (path_join dir) (find_parquet_files (ve_directory env dir) tag)"

fun count_tags ::
  "'f validate_env \<Rightarrow> bytes \<Rightarrow> type_tag list \<Rightarrow> (type_tag \<rightharpoonup> u64) \<Rightarrow> (type_tag \<rightharpoonup> u64, cli_error) res" where
  "count_tags env dir [] counts = Ok counts"
| "count_tags env dir (tag # tags) counts =
     (let files = tag_files env dir tag in
      if files \<noteq> [] then
        and_then (count_files env files 0) (\<lambda>n. count_tags env dir tags (counts(tag \<mapsto> n)))
      else count_tags env dir tags counts)"

definition count_parquet :: "'f validate_env \<Rightarrow> bytes \<Rightarrow> (type_tag \<rightharpoonup> u64, cli_error) res" where
  "count_parquet env dir = count_tags env dir tag_all Map.empty"

section \<open>Metadata\<close>

record parquet_meta =
  has_exported_by :: bool
  pm_heuristics :: "heuristic set"

definition legacy_meta :: parquet_meta where
  "legacy_meta = \<lparr>has_exported_by = False, pm_heuristics = set heuristic_all\<rparr>"

definition schema_heuristics :: "(bytes \<rightharpoonup> bytes) \<Rightarrow> (heuristic set, cli_error) res" where
  "schema_heuristics m =
     (case m RDB_HEURISTICS_KEY of
        Some s \<Rightarrow>
          map_err (\<lambda>e. Usage (e @ str_bytes '' in '' @ RDB_HEURISTICS_KEY)) (heuristic_parse_set s)
      | None \<Rightarrow> Ok (set heuristic_all))"

definition read_parquet_metadata :: "'f validate_env \<Rightarrow> bytes \<Rightarrow> (parquet_meta, cli_error) res" where
  "read_parquet_metadata env dir =
     (case List.concat (List.map (tag_files env dir) tag_all) of
        [] \<Rightarrow> Ok legacy_meta
      | path # _ \<Rightarrow>
          and_then (open_parquet env path) (\<lambda>pf.
            case pq_metadata pf of
              Some m \<Rightarrow>
                and_then (schema_heuristics m)
                  (\<lambda>hs. Ok \<lparr>has_exported_by = m RDB_EXPORTED_BY_KEY \<noteq> None, pm_heuristics = hs\<rparr>)
            | None \<Rightarrow> Ok legacy_meta))"

section \<open>The table\<close>

text \<open>The digits are pushed from the last, with a comma after every three.\<close>

definition push_digit :: "nat \<times> u8 \<Rightarrow> bytes \<Rightarrow> bytes" where
  "push_digit = (\<lambda>(i, c) result. (if i > 0 \<and> i mod 3 = 0 then result @ [44] else result) @ [c])"

definition format_num :: "u64 \<Rightarrow> bytes" where
  "format_num n = rev (fold push_digit (enumerate 0 (rev (dec_nat (unat n)))) [])"

record table_line =
  tl_tag :: type_tag
  tl_keys :: bytes
  tl_rows :: bytes
  tl_parquet :: bytes
  tl_status :: string

definition table_line_for ::
  "(type_tag \<rightharpoonup> type_count) \<Rightarrow> (type_tag \<rightharpoonup> u64) \<Rightarrow> type_tag \<Rightarrow> (table_line \<times> bool) option" where
  "table_line_for rdb pq tag =
     (case (rdb tag, pq tag) of
        (Some tc, Some n) \<Rightarrow>
          let ok = tc_rows tc = n in
          Some (\<lparr>tl_tag = tag, tl_keys = format_num (tc_keys tc), tl_rows = format_num (tc_rows tc),
            tl_parquet = format_num n, tl_status = (if ok then ''ok'' else ''MISMATCH'')\<rparr>, ok)
      | (Some tc, None) \<Rightarrow>
          Some (\<lparr>tl_tag = tag, tl_keys = format_num (tc_keys tc), tl_rows = format_num (tc_rows tc),
            tl_parquet = str_bytes ''-'', tl_status = ''MISSING''\<rparr>, False)
      | (None, Some n) \<Rightarrow>
          Some (\<lparr>tl_tag = tag, tl_keys = str_bytes ''-'', tl_rows = str_bytes ''-'',
            tl_parquet = format_num n, tl_status = ''EXTRA''\<rparr>, False)
      | (None, None) \<Rightarrow> None)"

fun table_loop ::
  "(type_tag \<rightharpoonup> type_count) \<Rightarrow> (type_tag \<rightharpoonup> u64) \<Rightarrow> type_tag list \<Rightarrow>
   table_line list \<times> u32 \<times> u32 \<Rightarrow> table_line list \<times> u32 \<times> u32" where
  "table_loop rdb pq [] acc = acc"
| "table_loop rdb pq (tag # tags) (ls, pass_count, fail_count) =
     (case table_line_for rdb pq tag of
        Some (l, True) \<Rightarrow> table_loop rdb pq tags (ls @ [l], pass_count + 1, fail_count)
      | Some (l, False) \<Rightarrow> table_loop rdb pq tags (ls @ [l], pass_count, fail_count + 1)
      | None \<Rightarrow> table_loop rdb pq tags (ls, pass_count, fail_count))"

definition all_tags :: "(type_tag \<rightharpoonup> type_count) \<Rightarrow> (type_tag \<rightharpoonup> u64) \<Rightarrow> type_tag list" where
  "all_tags rdb pq = filter (\<lambda>t. rdb t \<noteq> None \<or> pq t \<noteq> None) tag_all"

definition fail_text :: "u32 \<Rightarrow> u32 \<Rightarrow> bytes" where
  "fail_text fail tot =
     str_bytes ''FAIL: '' @ dec_nat (unat fail) @ str_bytes '' of '' @ dec_nat (unat tot) @
     str_bytes '' types mismatched''"

definition verdict ::
  "(type_tag \<rightharpoonup> type_count) \<Rightarrow> (type_tag \<rightharpoonup> u64) \<Rightarrow> table_line list \<times> u32 \<times> (unit, cli_error) res" where
  "verdict rdb pq =
     (case table_loop rdb pq (all_tags rdb pq) ([], 0, 0) of (ls, pass_count, fail_count) \<Rightarrow>
      let tot = pass_count + fail_count in
      (ls, tot, if fail_count = 0 then Ok () else Err (ValidationFailed (fail_text fail_count tot))))"

text \<open>The report around it.\<close>

definition pad_left :: "nat \<Rightarrow> bytes \<Rightarrow> bytes" where
  "pad_left n s = replicate (n - length s) 32 @ s"

definition pad_right :: "nat \<Rightarrow> bytes \<Rightarrow> bytes" where
  "pad_right n s = s @ replicate (n - length s) 32"

definition columns_text :: "bytes \<Rightarrow> bytes \<Rightarrow> bytes \<Rightarrow> bytes \<Rightarrow> bytes \<Rightarrow> bytes" where
  "columns_text a b c d e =
     str_bytes ''  '' @ pad_right 15 a @ [32] @ pad_left 10 b @ [32] @ pad_left 12 c @ [32] @
     pad_left 14 d @ str_bytes ''  '' @ e"

definition render_line :: "table_line \<Rightarrow> bytes" where
  "render_line l =
     columns_text (str_bytes (tag_as_str (tl_tag l))) (tl_keys l) (tl_rows l) (tl_parquet l)
       (str_bytes (tl_status l))"

definition version_text :: "rdb_header \<Rightarrow> bytes" where
  "version_text h = str_bytes ''RDB v'' @ dec_nat (unat (version h))"

definition preamble_lines :: "bytes \<Rightarrow> entry_summary \<Rightarrow> bytes list" where
  "preamble_lines file rdb =
     [str_bytes ''RDB: '' @ file @ str_bytes '' ('' @ str_bytes (magic_name (magic (es_header rdb))) @
        str_bytes '', '' @ version_text (es_header rdb) @ str_bytes '')'',
      if es_crc_verified rdb then str_bytes ''CRC-64: verified''
      else str_bytes ''CRC-64: not available ('' @ version_text (es_header rdb) @ str_bytes '')'',
      []]"

definition table_header :: bytes where
  "table_header = columns_text (str_bytes ''Type'') (str_bytes ''Keys'') (str_bytes ''Rows'')
     (str_bytes ''Parquet Rows'') (str_bytes ''Status'')"

definition pass_text :: "u32 \<Rightarrow> bytes" where
  "pass_text n =
     str_bytes ''Result: PASS ('' @ dec_nat (unat n) @ [47] @ dec_nat (unat n) @ str_bytes '' types match)''"

definition closing_lines :: "parquet_meta \<Rightarrow> bytes list" where
  "closing_lines meta =
     [] # (if has_exported_by meta then []
       else [str_bytes ''Warning: '' @ RDB_EXPORTED_BY_KEY @
          str_bytes '' metadata tag not found in Parquet files''])"

definition validate_run ::
  "'f validate_env \<Rightarrow> bytes \<Rightarrow> bytes \<Rightarrow> ((unit, cli_error) res \<times> bytes list) option" where
  "validate_run env file output =
     (case read_parquet_metadata env output of
        Err e \<Rightarrow> Some (Err e, [])
      | Panic \<Rightarrow> Some (Panic, [])
      | Ok meta \<Rightarrow>
          map_option (\<lambda>rdb. case rdb of
              Err e \<Rightarrow> (Err e, [])
            | Panic \<Rightarrow> (Panic, [])
            | Ok rdb \<Rightarrow>
                (case count_parquet env output of
                   Err e \<Rightarrow> (Err e, preamble_lines file rdb)
                 | Panic \<Rightarrow> (Panic, preamble_lines file rdb)
                 | Ok pq \<Rightarrow>
                     (case verdict (totals (es_counters rdb)) pq of (ls, tot, res) \<Rightarrow>
                       (res, preamble_lines file rdb @ [table_header] @ List.map render_line ls @
                         closing_lines meta @ (if res = Ok () then [pass_text tot] else [])))))
            (count_rdb env file (pm_heuristics meta)))"

section \<open>The verdict\<close>

lemma table_line_ok:
  "table_line_for rdb pq t = Some (l, b) \<Longrightarrow> b \<longleftrightarrow> map_option tc_rows (rdb t) = pq t"
  by (auto simp: table_line_for_def Let_def split: option.splits)

lemma table_line_none:
  "table_line_for rdb pq t = None \<longleftrightarrow> rdb t = None \<and> pq t = None"
  by (auto simp: table_line_for_def Let_def split: option.splits)

lemma table_loop_counts:
  "\<exists>ls'. table_loop rdb pq tags (ls, p, f) =
     (ls @ ls', p + word_of_nat (length (filter
         (\<lambda>t. table_line_for rdb pq t \<noteq> None \<and> map_option tc_rows (rdb t) = pq t) tags)),
      f + word_of_nat (length (filter (\<lambda>t. map_option tc_rows (rdb t) \<noteq> pq t) tags))) \<and>
    List.map tl_tag ls' = filter (\<lambda>t. table_line_for rdb pq t \<noteq> None) tags"
proof (induction tags arbitrary: ls p f)
  case (Cons t tags)
  show ?case
  proof (cases "table_line_for rdb pq t")
    case None
    then have "rdb t = None" "pq t = None" by (simp_all add: table_line_none)
    then show ?thesis using Cons [of ls p f] None by simp
  next
    case (Some x)
    obtain l b where x: "x = (l, b)" by (cases x)
    have tag: "tl_tag l = t"
      using Some x by (auto simp: table_line_for_def Let_def split: option.splits)
    show ?thesis
      using Cons [of "ls @ [l]" "p + 1" f] Cons [of "ls @ [l]" p "f + 1"] table_line_ok [of rdb pq t l b]
        Some x tag
      by (cases b) auto
  qed
qed simp

text \<open>There are at most nine tags, so the counts do not wrap.\<close>

lemma verdict_iff:
  "snd (snd (verdict rdb pq)) = Ok () \<longleftrightarrow> (\<forall>t. map_option tc_rows (rdb t) = pq t)"
  "snd (snd (verdict rdb pq)) = Ok () \<or> (\<exists>m. snd (snd (verdict rdb pq)) = Err (ValidationFailed m))"
proof -
  let ?bad = "filter (\<lambda>t. map_option tc_rows (rdb t) \<noteq> pq t) (all_tags rdb pq)"
  obtain ls p where l: "table_loop rdb pq (all_tags rdb pq) ([], 0, 0) =
      (ls, p, word_of_nat (length ?bad))"
    using table_loop_counts [of rdb pq "all_tags rdb pq" "[]" 0 0] by auto
  have "length ?bad \<le> length tag_all"
    unfolding all_tags_def by (meson le_trans length_filter_le)
  then have "length ?bad < 2 ^ 32" by (simp add: tag_all_def)
  then have "(word_of_nat (length ?bad) :: u32) = 0 \<longleftrightarrow> length ?bad = 0"
    unfolding word_of_nat_eq_0_iff by (auto dest: nat_dvd_not_less)
  then have "(word_of_nat (length ?bad) :: u32) = 0 \<longleftrightarrow> ?bad = []" by simp
  moreover have "?bad = [] \<longleftrightarrow> (\<forall>t. map_option tc_rows (rdb t) = pq t)"
    by (auto simp: filter_empty_conv all_tags_def tag_all_UNIV) (metis option.simps(8))
  ultimately show "snd (snd (verdict rdb pq)) = Ok () \<longleftrightarrow> (\<forall>t. map_option tc_rows (rdb t) = pq t)"
    by (simp add: verdict_def l Let_def)
  show "snd (snd (verdict rdb pq)) = Ok () \<or> (\<exists>m. snd (snd (verdict rdb pq)) = Err (ValidationFailed m))"
    by (simp add: verdict_def l Let_def)
qed

section \<open>Numbers\<close>

lemma push_digits_keep:
  "44 \<notin> set ds \<Longrightarrow> filter (\<lambda>b. b \<noteq> 44) (fold push_digit (enumerate i ds) acc) =
     filter (\<lambda>b. b \<noteq> 44) acc @ ds"
  by (induction ds arbitrary: i acc) (simp_all add: push_digit_def)

lemma digit_no_comma: "d < 10 \<Longrightarrow> 48 + word_of_nat d \<noteq> (44 :: u8)"
proof -
  assume "d < 10"
  then have "d = 0 \<or> d = 1 \<or> d = 2 \<or> d = 3 \<or> d = 4 \<or> d = 5 \<or> d = 6 \<or> d = 7 \<or> d = 8 \<or> d = 9"
    by arith
  then show ?thesis by auto
qed

lemma dec_nat_no_comma: "44 \<notin> set (dec_nat n)"
proof (induction n rule: dec_nat.induct)
  case (1 n)
  show ?case
  proof (cases "n < 10")
    case True
    then show ?thesis using digit_no_comma [of n] by (subst dec_nat.simps) auto
  next
    case False
    then show ?thesis
      using 1 digit_no_comma [of "n mod 10"] by (subst dec_nat.simps) auto
  qed
qed

lemma format_num_digits: "filter (\<lambda>b. b \<noteq> 44) (format_num n) = dec_nat (unat n)"
  using push_digits_keep [of "rev (dec_nat (unat n))" 0 "[]"] dec_nat_no_comma
  by (simp add: format_num_def flip: rev_filter)

end
