(* ===== verification/Cli_Schema.thy ===== *)
theory Cli_Schema
  imports Cli_Args
begin

text \<open>
  \<open>crates/cli/src/schema.rs\<close>: the \<open>schema\<close> command.  How the \<open>arrow\<close> crate renders a data
  type and how \<open>serde_json\<close> renders a value are parameters; the command yields the lines it
  prints.
\<close>

datatype output_format = Out_Text | Out_Json

record schema_args =
  sa_type_name :: "bytes option"
  sa_output :: output_format

text \<open>The JSON value: for each tag its fields, each with name, type and nullability.\<close>

type_synonym json_schemas = "(string \<times> (string \<times> bytes \<times> bool) list) list"

record render =
  show_type :: "data_type \<Rightarrow> bytes"
  show_type_padded :: "nat \<Rightarrow> data_type \<Rightarrow> bytes"
  to_string_pretty :: "json_schemas \<Rightarrow> (bytes, string) res"

definition schema_tags :: "schema_args \<Rightarrow> (type_tag list, cli_error) res" where
  "schema_tags args =
     (case sa_type_name args of
        Some name \<Rightarrow>
          and_then (ok_or (Usage (str_bytes ''unknown type '' @ [39] @ name @ [39] @
              str_bytes ''. Valid types: '' @ str_bytes valid_cli_names)) (tag_from_cli_name name))
            (\<lambda>tag. Ok [tag])
      | None \<Rightarrow> Ok tag_all)"

definition pad :: "nat \<Rightarrow> bytes \<Rightarrow> bytes" where
  "pad n s = s @ replicate (n - length s) 32"

definition field_line :: "render \<Rightarrow> field \<Rightarrow> bytes" where
  "field_line rd f =
     str_bytes ''  '' @ pad 20 (str_bytes (fd_name f)) @ [32] @ show_type_padded rd 12 (fd_type f) @ [32] @
     str_bytes (if fd_nullable f then ''nullable'' else ''required'')"

definition tag_lines :: "render \<Rightarrow> nat \<times> type_tag \<Rightarrow> bytes list" where
  "tag_lines rd = (\<lambda>(i, tag).
     (if i > 0 then [[]] else []) @
     [str_bytes ''--- '' @ str_bytes (tag_as_str tag) @ str_bytes '' ---''] @
     List.map (field_line rd) (schema_for tag))"

definition print_text :: "render \<Rightarrow> type_tag list \<Rightarrow> bytes list" where
  "print_text rd tags = List.concat (List.map (tag_lines rd) (enumerate 0 tags))"

definition print_json :: "render \<Rightarrow> type_tag list \<Rightarrow> (bytes list, cli_error) res" where
  "print_json rd tags =
     and_then (map_err (\<lambda>e. Other (From_Json e)) (to_string_pretty rd (List.map (\<lambda>tag. (tag_as_str tag,
         List.map (\<lambda>f. (fd_name f, show_type rd (fd_type f), fd_nullable f)) (schema_for tag))) tags)))
       (\<lambda>output. Ok [output])"

definition schema_run :: "render \<Rightarrow> schema_args \<Rightarrow> (bytes list, cli_error) res" where
  "schema_run rd args =
     and_then (schema_tags args)
       (\<lambda>tags. case sa_output args of
          Out_Text \<Rightarrow> Ok (print_text rd tags)
        | Out_Json \<Rightarrow> print_json rd tags)"

lemma print_text_length:
  "length (print_text rd tags) = sum_list (List.map (\<lambda>t. Suc (length (schema_for t))) tags) + (length tags - 1)"
proof -
  have "length (List.concat (List.map (tag_lines rd) (enumerate i tags))) =
      sum_list (List.map (\<lambda>t. Suc (length (schema_for t))) tags) +
      (if i = 0 then length tags - 1 else length tags)" for i
    by (induction tags arbitrary: i) (auto simp: tag_lines_def)
  then show ?thesis by (simp add: print_text_def)
qed

end
