(* ===== verification/Cli_Props.thy ===== *)
theory Cli_Props
  imports Export_Laws Cli_Validate Cli_Schema Arrow_Props
begin

text \<open>
  The properties of the command line: what an export does on any input, which errors come
  before any effect, and what it has written when it succeeds.
\<close>

section \<open>A concrete environment for the witnesses\<close>

definition sample_args :: export_args where
  "sample_args =
     \<lparr>xa_file = str_bytes ''-'', xa_output = None, xa_format = FParquet, xa_compression = CZstd,
      xa_db = None, xa_type_names = Some (str_bytes ''list''), xa_key_pattern = None,
      xa_batch_size = 2, xa_row_group_size = 1024, xa_shard_id = None,
      xa_max_key_elements = Some 2, xa_no_chunking = False, xa_batch_bytes = None,
      xa_max_entry_bytes = None, xa_heuristic = str_bytes ''geo''\<rparr>"

definition sample_env :: "(unit, unit, unit) cli_env" where
  "sample_env =
     \<lparr>env_stdin = (file_bytes Redis 11 export_items, UnexpectedEof),
      env_open = (\<lambda>_. Err ''no such file''),
      env_create_dir = (\<lambda>_. st_ret ()),
      env_directory = (\<lambda>_ _. listed []),
      env_create = (\<lambda>_. st_ret ()),
      env_parquet = \<lparr>pf_try_new = (\<lambda>_ _ _. st_ret ()), pf_write = (\<lambda>wr _ w. (Ok (), wr, w)),
        pf_close = (\<lambda>_. st_ret ())\<rparr>,
      env_ipc = \<lparr>if_try_new = (\<lambda>_ _. st_ret ()), if_write = (\<lambda>wr _ w. (Ok (), wr, w)),
        if_finish = (\<lambda>_. st_ret ())\<rparr>,
      env_csv = \<lparr>lf_new = (\<lambda>_. ()), lf_write = (\<lambda>wr _ w. (Ok (), wr, w)), lf_finish = (\<lambda>_. st_ret ())\<rparr>,
      env_json = \<lparr>lf_new = (\<lambda>_. ()), lf_write = (\<lambda>wr _ w. (Ok (), wr, w)), lf_finish = (\<lambda>_. st_ret ())\<rparr>,
      env_try_new = strict_try_new,
      env_glob = (\<lambda>_ _. True)\<rparr>"

lemma sample_env_simps [simp]:
  "env_try_new sample_env = strict_try_new" "env_glob sample_env = (\<lambda>_ _. True)"
  "env_stdin sample_env = (file_bytes Redis 11 export_items, UnexpectedEof)"
  by (simp_all add: sample_env_def)

lemma sample_env_writes: "env_writes sample_env"
  by (simp add: env_writes_def sample_env_def st_ret_def)

lemma sample_args_ok: "check_args sample_args = Ok (Some {TList}, {HGeo})"
proof -
  have "tag_parse_set (str_bytes ''list'') = Ok {TList}"
    using tag_parse_join [of "[TList]"] by (simp add: tag_as_str_def)
  moreover have "heuristic_parse_set (str_bytes ''geo'') = Ok {HGeo}"
    using heuristic_round [of "{HGeo}"]
    by (simp add: heuristic_format_set_def heuristic_all_def heuristic_as_str_def)
  ultimately show ?thesis by (simp add: check_args_def sample_args_def)
qed

lemma sample_reader:
  obtains q r' where "open_reader sample_env sample_args = Ok q"
    "collect q = Some (entries (Some 2) ctx0 export_items, r')"
proof -
  have "version_ok Redis 11" by (simp add: version_ok_def)
  then obtain r q r' where "reader_new (file_bytes Redis 11 export_items) UnexpectedEof = Ok r"
    "configure (Some 2) r = Ok q" "collect q = Some (entries (Some 2) ctx0 export_items, r')"
    using file_collects [OF _ export_items_ok, of Redis 11 "Some 2" UnexpectedEof] by auto
  then show thesis
    by (intro that [of q r'])
      (simp_all add: open_reader_def build_rdb_reader_def open_rdb_input_def sample_args_def configure_def)
qed

section \<open>The export command\<close>

lemma usage_sources [simp]:
  "cli_of_convert e \<noteq> Usage m" "cli_of_open e' \<noteq> Usage m"
  by (simp_all add: cli_of_convert_def cli_of_open_def split: convert_error.split rdb_open_error.split)

lemma open_reader_usage [simp]: "open_reader env args \<noteq> Err (Usage m)"
  by (auto simp: open_reader_def and_then_Err_iff map_err_def
      split: res.splits if_splits option.splits)

text \<open>
  Which arguments are rejected, from the documentation of the options: the first unknown type
  name, then a shard identifier with another character, then the first unknown heuristic.
\<close>

definition type_names :: "string list" where
  "type_names =
     [''string'', ''list'', ''set'', ''zset'', ''hash'', ''geo'', ''hll'', ''hyperloglog'',
      ''module'', ''stream'']"

definition shard_letters :: string where
  "shard_letters = ''ABCDEFGHIJKLMNOPQRSTUVWXYZabcdefghijklmnopqrstuvwxyz0123456789-_''"

definition unknown_name :: "string list \<Rightarrow> bytes \<Rightarrow> bytes option" where
  "unknown_name names s =
     map_option trim (find (\<lambda>n. to_ascii_lowercase (trim n) \<notin> str_bytes ` set names) (split_on 44 s))"

definition usage_error :: "export_args \<Rightarrow> bytes option" where
  "usage_error args =
     (case Option.bind (xa_type_names args) (unknown_name type_names) of
        Some n \<Rightarrow> Some (unknown_type n)
      | None \<Rightarrow>
          if xa_shard_id args = Some [] \<or>
             (\<exists>s. xa_shard_id args = Some s \<and> \<not> set s \<subseteq> set (str_bytes shard_letters))
          then Some shard_error
          else if to_ascii_lowercase (xa_heuristic args) \<in> {str_bytes ''all'', str_bytes ''none''}
          then None
          else map_option unknown_heuristic (unknown_name [''geo''] (xa_heuristic args)))"

lemma shard_char_letters: "shard_char c \<longleftrightarrow> c \<in> set (str_bytes shard_letters)"
proof -
  have "shard_char c \<longleftrightarrow> unat c \<in> {48..57} \<union> {65..90} \<union> {97..122} \<union> {45, 95}"
    unfolding shard_char_def Un_iff atLeastAtMost_iff insert_iff empty_iff
    by (simp add: word_le_nat_alt word_unat_eq_iff)
  also have "{48..57} \<union> {65..90} \<union> {97..122} \<union> {45, 95} = unat ` set (str_bytes shard_letters)"
    by (simp add: shard_letters_def str_bytes_def atLeastAtMost_upt upt_rec) blast
  also have "unat c \<in> unat ` set (str_bytes shard_letters) \<longleftrightarrow> c \<in> set (str_bytes shard_letters)"
    by (auto simp: image_iff simp flip: word_unat_eq_iff)
  finally show ?thesis .
qed

lemma known_type: "tag_from_cli_name s = None \<longleftrightarrow> to_ascii_lowercase s \<notin> str_bytes ` set type_names"
  by (auto simp: tag_from_cli_name_def type_names_def Let_def)

lemma known_heuristic:
  "heuristic_from_name s = None \<longleftrightarrow> to_ascii_lowercase s \<notin> str_bytes ` set [''geo'']"
  by (auto simp: heuristic_from_name_def eq_ignore_ascii_case_def to_ascii_lowercase_def str_bytes_def
      ascii_lower_def)

lemma parse_unknown:
  assumes "\<And>n. from n = None \<longleftrightarrow> to_ascii_lowercase n \<notin> str_bytes ` set names"
  shows "parse_names from unknown (split_on 44 s) {} = Err m \<longleftrightarrow>
      map_option unknown (unknown_name names s) = Some m"
    and "unknown_name names s = None \<Longrightarrow> \<exists>ts. parse_names from unknown (split_on 44 s) {} = Ok ts"
  unfolding parse_names_find unknown_name_def assms by (auto split: option.split)

lemma parse_names_total: "parse_names from unknown ns acc \<noteq> Panic"
  unfolding parse_names_find by (auto split: option.split)

lemma heuristic_error:
  "heuristic_parse_set s = Err m \<longleftrightarrow>
     to_ascii_lowercase s \<notin> {str_bytes ''all'', str_bytes ''none''} \<and>
     map_option unknown_heuristic (unknown_name [''geo''] s) = Some m"
proof -
  have "eq_ignore_ascii_case s (str_bytes x) \<longleftrightarrow> to_ascii_lowercase s = str_bytes x"
    if "x \<in> {''all'', ''none''}" for x
    using that by (auto simp: eq_ignore_ascii_case_def to_ascii_lowercase_def str_bytes_def ascii_lower_def)
  then show ?thesis
    unfolding heuristic_parse_set_def
    by (simp add: parse_unknown(1) [OF known_heuristic])
qed

lemma type_error:
  "tag_parse_set s = Err m \<longleftrightarrow> map_option unknown_type (unknown_name type_names s) = Some m"
  unfolding tag_parse_set_def by (rule parse_unknown(1) [OF known_type])

lemma names_not_panic: "tag_parse_set s \<noteq> Panic" "heuristic_parse_set s \<noteq> Panic"
  by (simp_all add: tag_parse_set_def heuristic_parse_set_def parse_names_total)

lemma check_args_error: "check_args args = Err (Usage m) \<longleftrightarrow> usage_error args = Some m"
proof -
  define types where "types = Option.bind (xa_type_names args) (unknown_name type_names)"
  define shard where "shard \<longleftrightarrow> xa_shard_id args = Some [] \<or>
    (\<exists>s. xa_shard_id args = Some s \<and> \<not> set s \<subseteq> set (str_bytes shard_letters))"
  let ?t = "case xa_type_names args of
      Some names \<Rightarrow> and_then (map_err Usage (tag_parse_set names)) (\<lambda>ts. Ok (Some ts))
    | None \<Rightarrow> Ok None"
  let ?s = "case xa_shard_id args of
      Some s \<Rightarrow> if s = [] \<or> \<not> list_all shard_char s then Err (Usage shard_error) else Ok ()
    | None \<Rightarrow> Ok ()"
  have s: "?s = (if shard then Err (Usage shard_error) else Ok ())"
    by (auto simp: shard_def list_all_iff shard_char_letters split: option.split)
  have h: "heuristic_parse_set (xa_heuristic args) = Err m \<longleftrightarrow>
      (if to_ascii_lowercase (xa_heuristic args) \<in> {str_bytes ''all'', str_bytes ''none''} then None
       else map_option unknown_heuristic (unknown_name [''geo''] (xa_heuristic args))) = Some m"
    unfolding heuristic_error by simp
  show ?thesis
  proof (cases types)
    case (Some n)
    then obtain names where "xa_type_names args = Some names" "unknown_name type_names names = Some n"
      by (auto simp: types_def bind_eq_Some_conv)
    then have "check_args args = Err (Usage (unknown_type n))"
      using type_error [of names "unknown_type n"] by (simp add: check_args_def)
    then show ?thesis using Some by (simp add: usage_error_def types_def)
  next
    case None
    have "\<exists>ts. ?t = Ok ts"
    proof (cases "xa_type_names args")
      case (Some names)
      then have "unknown_name type_names names = None" using None by (simp add: types_def)
      then have "\<exists>ts. tag_parse_set names = Ok ts"
        by (cases "tag_parse_set names") (simp_all add: names_not_panic type_error)
      then show ?thesis using Some by auto
    qed simp
    then obtain ts where "?t = Ok ts" by blast
    then show ?thesis
      using h None names_not_panic(2) [of "xa_heuristic args"]
      unfolding check_args_def s usage_error_def types_def [symmetric] shard_def [symmetric]
      by (cases "heuristic_parse_set (xa_heuristic args)") simp_all
  qed
qed

text \<open>
  Claim C36. Usage errors come first: an export ends with a usage error exactly when one of its
  arguments is bad, reports the first that is, and then nothing was opened, created or
  printed.
\<close>

theorem usage_errors_come_first:
  "export_run env args w = Some (Err (Usage m), out, w') \<longleftrightarrow>
   usage_error args = Some m \<and> out = [] \<and> w' = w"
proof (cases "check_args args")
  case (Ok p)
  obtain tags hs where p: "p = (tags, hs)" by (cases p)
  have "export_run env args w \<noteq> Some (Err (Usage m), out, w')"
    unfolding export_run_def Let_def
    by (auto simp: Ok p split: res.splits prod.splits)
  then show ?thesis by (simp add: Ok flip: check_args_error)
qed (auto simp: export_run_def simp flip: check_args_error)

lemma export_run_ok:
  assumes "check_args args = Ok (tags, hs)" "open_reader env args = Ok r"
    "env_create_dir env (output_dir args) w = (Ok (), w1)"
    "export_items_of env args tags hs r = Some os"
  shows "export_run env args w =
    Some (case write_output env args (metadata_from_rdb (metadata r) hs) os w1 of
        (Ok _, w) \<Rightarrow> (Ok (), existing_warning env (output_dir args) w1 @ [exported_message (output_dir args)], w)
      | (Err e, w) \<Rightarrow> (Err (cli_of_convert e), existing_warning env (output_dir args) w1, w)
      | (Panic, w) \<Rightarrow> (Panic, existing_warning env (output_dir args) w1, w))"
  by (simp add: export_run_def Let_def assms split: prod.split res.split)

text \<open>
  Claim C26. Every export ends, whatever the input, the arguments and the environment do (as long
  as \<open>RecordBatch::try_new\<close> accepts what it documents to accept): the
  iteration of the reader, the filter, the batcher and the writers comes to an end.
\<close>

theorem export_always_ends:
  assumes "try_new_accepts (env_try_new env)"
  shows "\<exists>res out w'. export_run env args w = Some (res, out, w')"
proof (cases "\<exists>p r. check_args args = Ok p \<and> open_reader env args = Ok r")
  case True
  then obtain tags hs r where p: "check_args args = Ok (tags, hs)" "open_reader env args = Ok r" by auto
  obtain items r' where "collect r = Some (items, r')" "Panic \<notin> set items"
    using open_reader_collects [OF p(2)] by blast
  from export_items_yield [OF this assms, of args tags hs] obtain os
    where "export_items_of env args tags hs r = Some os" by blast
  then show ?thesis
    by (auto simp: export_run_def p Let_def split: prod.splits res.splits)
next
  case False
  then show ?thesis by (auto simp: export_run_def split: res.splits)
qed

theorem export_always_ends_witness:
  "\<exists>res out w'. export_run sample_env sample_args () = Some (res, out, w')"
  by (rule export_always_ends) (simp add: strict_try_new_accepts)

lemma export_ends_with:
  assumes "try_new_accepts (env_try_new env)" "env_writes env"
    and "check_args args = Ok (tags, hs)" "open_reader env args = Ok r" "collect r = Some (items, r')"
  shows "\<exists>out w'. export_run env args w =
      Some (case filter (\<lambda>e. \<not> unsupported e) (errs items) of
          [] \<Rightarrow> Ok () | e # _ \<Rightarrow> Err (Corrupt e), out, w')"
proof -
  have "Panic \<notin> set items"
    using open_reader_collects [OF assms(4)] assms(5) by (metis option.inject prod.inject)
  then obtain os where os: "export_items_of env args tags hs r = Some os" "Panic \<notin> set os"
    "errs os = List.map Parser (filter (\<lambda>e. \<not> unsupported e) (errs items))"
    using export_items_yield [OF assms(5) _ assms(1), of args tags hs] by blast
  obtain w1 where d: "env_create_dir env (output_dir args) w = (Ok (), w1)"
    using assms(2) unfolding env_writes_def by blast
  obtain w2 where "write_output env args (metadata_from_rdb (metadata r) hs) os w1 = (first_error os, w2)"
    unfolding write_output_pipeline
    using pipeline_never_fails [OF export_writers_never_fail [OF assms(2)] os(2)] by blast
  then show ?thesis
    unfolding export_run_ok [OF assms(3,4) d os(1)] first_error_def os(3)
    by (auto simp: cli_of_convert_def split: list.splits)
qed

lemma check_args_usage: "usage_error args = None \<longleftrightarrow> (\<exists>p. check_args args = Ok p)"
proof -
  have "check_args args \<noteq> Panic" "\<And>e. check_args args = Err e \<Longrightarrow> \<exists>m. e = Usage m"
    using names_not_panic
    by (auto simp: check_args_def and_then_Err_iff map_err_def split: res.splits option.splits if_splits)
  then show ?thesis
    using check_args_error [of args] by (cases "check_args args"; cases "usage_error args") auto
qed

lemma open_reader_opens:
  assumes "env_open env (xa_file args) \<noteq> Panic" "xa_max_key_elements args \<noteq> Some 0"
  shows "(case build_rdb_reader env (xa_file args) of
      Ok _ \<Rightarrow> \<exists>r. open_reader env args = Ok r
    | Err e \<Rightarrow> open_reader env args = Err (cli_of_open e)
    | Panic \<Rightarrow> False)"
proof -
  have "build_rdb_reader env (xa_file args) \<noteq> Panic"
    using assms(1) reader_new_inv(1)
    by (auto simp: build_rdb_reader_def open_rdb_input_def open_file_def map_err_def
        split: res.splits prod.splits if_splits)
  then show ?thesis
    using assms
    by (auto simp: open_reader_def with_max_key_elements_def split: res.split option.split)
qed

text \<open>
  Claim C25. The outcome of an export follows the arguments and the input. When creating,
  writing and closing files cannot fail (opening may), and the element limit is not zero (the option
  parser rejects it), an export ends in one of these ways and never panics: with a usage
  error if an argument is bad; else with the I/O status and the path if the input cannot be
  opened, and the status for corrupt input if its header is rejected or cannot be read; else
  it succeeds if the reader yields no error but unsupported types, and ends with the status
  for corrupt input and the first other error of the reader if it does, which may be an
  I/O error of the input.
\<close>

theorem export_outcome:
  assumes "try_new_accepts (env_try_new env)" "env_writes env"
    and "env_open env (xa_file args) \<noteq> Panic" "xa_max_key_elements args \<noteq> Some 0"
  shows "\<exists>res out w'. export_run env args w = Some (res, out, w') \<and>
    (case usage_error args of
       Some m \<Rightarrow> res = Err (Usage m)
     | None \<Rightarrow>
         (case build_rdb_reader env (xa_file args) of
            Err (Open_Io io) \<Rightarrow> res = Err (Cli_Io (Io_At io))
          | Err (Open_Rdb e) \<Rightarrow> res = Err (Corrupt e)
          | Ok _ \<Rightarrow> \<exists>r items r'. open_reader env args = Ok r \<and> collect r = Some (items, r') \<and>
              res = (case filter (\<lambda>e. \<not> unsupported e) (errs items) of
                  [] \<Rightarrow> Ok () | e # _ \<Rightarrow> Err (Corrupt e))
          | Panic \<Rightarrow> False))"
proof (cases "usage_error args")
  case (Some m)
  then have "export_run env args w = Some (Err (Usage m), [], w)"
    by (simp add: export_run_def flip: check_args_error)
  then show ?thesis by (simp add: Some)
next
  case None
  then obtain tags hs where args: "check_args args = Ok (tags, hs)"
    by (metis check_args_usage prod.exhaust)
  note opens = open_reader_opens [OF assms(3,4)]
  show ?thesis
  proof (cases "build_rdb_reader env (xa_file args)")
    case (Ok q)
    then obtain r where r: "open_reader env args = Ok r" using opens by auto
    obtain items r' where "collect r = Some (items, r')" using open_reader_collects [OF r] by blast
    then show ?thesis
      using export_ends_with [OF assms(1,2) args r] by (auto simp: None Ok r)
  next
    case (Err e)
    then have "export_run env args w = Some (Err (cli_of_open e), [], w)"
      using opens args by (simp add: export_run_def)
    then show ?thesis by (cases e) (simp_all add: None Err cli_of_open_def)
  qed (use opens in simp)
qed

theorem export_outcome_witness:
  "\<exists>out w'. export_run sample_env sample_args () = Some (Ok (), out, w')"
proof -
  obtain q r' where q: "open_reader sample_env sample_args = Ok q"
    "collect q = Some (entries (Some 2) ctx0 export_items, r')"
    by (rule sample_reader)
  have "filter (\<lambda>e. \<not> unsupported e) (errs (entries (Some 2) ctx0 export_items)) = []"
    by (rule file_items(1) [OF export_items_ok])
  moreover have "usage_error sample_args = None"
    using check_args_usage sample_args_ok by blast
  moreover have limit: "xa_max_key_elements sample_args \<noteq> Some 0" by (simp add: sample_args_def)
  moreover obtain s where "build_rdb_reader sample_env (xa_file sample_args) = Ok s"
    using q(1) by (auto simp: open_reader_def and_then_Ok_iff map_err_def split: res.splits)
  ultimately show ?thesis
    using export_outcome [OF _ sample_env_writes _ limit, of "()"] q
    by (auto simp: strict_try_new_accepts sample_env_def)
qed

text \<open>
  A run of an export that succeeded: the batches are those of the export, the writers were
  run on them, and the log of this run says what they got.
\<close>

definition export_wrote ::
  "('w, 'raw, 'wr) cli_env \<Rightarrow> export_args \<Rightarrow> type_tag set option \<Rightarrow> heuristic set \<Rightarrow> rdb_reader \<Rightarrow>
   'w \<Rightarrow> 'w \<Rightarrow> event list \<Rightarrow> bool" where
  "export_wrote env args tags hs r w w' log \<longleftrightarrow>
     (\<exists>os w1. export_items_of env args tags hs r = Some os \<and>
        env_create_dir env (output_dir args) w = (Ok (), w1) \<and>
        run_writer_pipeline (logged (export_writers env args (metadata_from_rdb (metadata r) hs))) os (w1, []) =
          (Ok (), (w', log)))"

lemma export_completes:
  assumes "try_new_accepts (env_try_new env)"
    and "\<And>wr w. fst (wo_close (export_writers env args (metadata_from_rdb (metadata r) hs)) wr w) \<noteq> Panic"
    and "check_args args = Ok (tags, hs)" "open_reader env args = Ok r" "collect r = Some (items, r')"
    and "export_run env args w = Some (Ok (), out, w')"
  shows "\<exists>log. export_wrote env args tags hs r w w' log \<and>
    filter (\<lambda>e. \<not> unsupported e) (errs items) = [] \<and>
    distinct (opened log) \<and> closed log = filter (\<lambda>t. t \<in> set (opened log)) tag_all \<and>
    set (opened log) = {t. wanted_rows (env_glob env) args tags hs (oks items) t \<noteq> []} \<and>
    (\<forall>t. List.concat (List.map batch_rows (written t log)) =
       wanted_rows (env_glob env) args tags hs (oks items) t)"
proof -
  let ?ops = "export_writers env args (metadata_from_rdb (metadata r) hs)"
  have np: "Panic \<notin> set items"
    using open_reader_collects [OF assms(4)] assms(5) by (metis option.inject prod.inject)
  obtain os where os: "export_items_of env args tags hs r = Some os"
    "errs os = List.map Parser (filter (\<lambda>e. \<not> unsupported e) (errs items))"
    "\<forall>t. tag_rows t (oks os) = wanted_rows (env_glob env) args tags hs (oks items) t"
    "tb_tag ` set (oks os) = {t. wanted_rows (env_glob env) args tags hs (oks items) t \<noteq> []}"
    using export_items_yield [OF assms(5) np assms(1), of args tags hs] by blast
  obtain d w1 where d: "env_create_dir env (output_dir args) w = (d, w1)"
    by (cases "env_create_dir env (output_dir args) w")
  have "d = Ok ()"
    using assms(6) by (cases d) (simp_all add: export_run_def assms(3,4) d Let_def)
  note d = d [unfolded this]
  then have run: "run_writer_pipeline ?ops os w1 = (Ok (), w')"
    using assms(6) unfolding export_run_ok [OF assms(3,4) d os(1)]
      write_output_pipeline by (auto split: prod.splits res.splits)
  obtain res w2 log where l: "run_writer_pipeline (logged ?ops) os (w1, []) = (res, (w2, log))"
    by (metis prod.exhaust)
  have res: "res = Ok ()" "w2 = w'" using pipeline_unlogged [OF l] run by simp_all
  have "res \<noteq> Panic" using res by simp
  note pl = pipeline_logged [OF l assms(2) this]
  have ok: "(\<forall>x \<in> set os. \<exists>b. x = Ok b)" "\<forall>u. written u log = tag_batches u (oks os)"
    using pl(4) res by simp_all
  have "errs os = []" using ok(1) by (induction os) auto
  moreover have "\<forall>t. List.concat (List.map batch_rows (written t log)) =
      wanted_rows (env_glob env) args tags hs (oks items) t"
    using ok(2) os(3) by (simp add: rows_of_batches)
  moreover have "export_wrote env args tags hs r w w' log"
    unfolding export_wrote_def using os(1) d l res by blast
  ultimately show ?thesis
    using pl(1,2) pl(5) [OF res(1)] os(2,4) by (intro exI [of _ log]) simp
qed

text \<open>
  Claim C4. A successful export is complete: the reader yielded no error but unsupported types;
  a file was opened for exactly the requested tags that have rows, once each, and closed, in
  the order of the tags; and for every tag, what was handed to its writer is exactly the
  rows of the entries that pass the filters, in order, and nothing for a tag that was not
  asked for.
\<close>

theorem export_success_is_complete:
  assumes "try_new_accepts (env_try_new env)"
    and "\<And>wr w. fst (wo_close (export_writers env args (metadata_from_rdb (metadata r) hs)) wr w) \<noteq> Panic"
    and "check_args args = Ok (tags, hs)" "open_reader env args = Ok r" "collect r = Some (items, r')"
    and "export_run env args w = Some (Ok (), out, w')"
  shows "\<exists>log. export_wrote env args tags hs r w w' log \<and>
    filter (\<lambda>e. \<not> unsupported e) (errs items) = [] \<and>
    distinct (opened log) \<and> closed log = filter (\<lambda>t. t \<in> set (opened log)) tag_all \<and>
    set (opened log) = {t. wanted_rows (env_glob env) args tags hs (oks items) t \<noteq> []} \<and>
    (\<forall>t. List.concat (List.map batch_rows (written t log)) =
       wanted_rows (env_glob env) args tags hs (oks items) t)"
  by (rule export_completes [OF assms])

theorem export_success_is_complete_witness:
  "\<exists>q items r' out w' log. collect q = Some (items, r') \<and>
    export_run sample_env sample_args () = Some (Ok (), out, w') \<and>
    export_wrote sample_env sample_args (Some {TList}) {HGeo} q () w' log \<and>
    (\<forall>t. List.concat (List.map batch_rows (written t log)) =
       wanted_rows (\<lambda>_ _. True) sample_args (Some {TList}) {HGeo} (oks items) t)"
proof -
  obtain q r' where q: "open_reader sample_env sample_args = Ok q"
    "collect q = Some (entries (Some 2) ctx0 export_items, r')"
    by (rule sample_reader)
  let ?items = "entries (Some 2) ctx0 export_items"
  let ?meta = "metadata_from_rdb (metadata q) {HGeo}"
  have tn: "try_new_accepts (env_try_new sample_env)" by (simp add: strict_try_new_accepts)
  obtain w1 where d: "env_create_dir sample_env (output_dir sample_args) () = (Ok (), w1)" by (simp add: sample_env_def st_ret_def)
  obtain os where os: "export_items_of sample_env sample_args (Some {TList}) {HGeo} q = Some os"
    "Panic \<notin> set os" "errs os = []"
    using export_items_yield [OF q(2) file_items(2) [OF export_items_ok] tn, of sample_args "Some {TList}" "{HGeo}"]
      file_items(1) [OF export_items_ok] by auto
  obtain w2 where "write_output sample_env sample_args ?meta os w1 = (first_error os, w2)"
    unfolding write_output_pipeline
    using pipeline_never_fails [OF export_writers_never_fail [OF sample_env_writes] os(2)] by blast
  then have run: "export_run sample_env sample_args () = Some (Ok (), existing_warning sample_env
      (output_dir sample_args) w1 @ [exported_message (output_dir sample_args)], w2)"
    unfolding export_run_ok [OF sample_args_ok q(1) d os(1)] by (simp add: first_error_def os(3))
  have cl: "fst (wo_close (export_writers sample_env sample_args ?meta) wr w) \<noteq> Panic" for wr w
    using never_fails_D(4) [OF export_writers_never_fail [OF sample_env_writes], of sample_args ?meta wr w] by auto
  show ?thesis
    using export_success_is_complete [OF tn cl sample_args_ok q run] q(2) run
    by (intro exI [of _ q] exI [of _ ?items] exI [of _ r']) auto
qed

section \<open>From a file to files\<close>

text \<open>The chunk limit an export reads with.\<close>

definition chunk_limit :: "export_args \<Rightarrow> usize option" where
  "chunk_limit args =
     (if xa_no_chunking args then None
      else case xa_max_key_elements args of Some m \<Rightarrow> Some m | None \<Rightarrow> Some DEFAULT_MAX_KEY_ELEMENTS)"

lemma open_written_file:
  assumes "open_rdb_input env (xa_file args) = Ok (file_bytes m v xs, ending)"
    and "version_ok m v" "\<forall>x \<in> set xs. item_ok x" "chunk_limit args \<noteq> Some 0"
  obtains r r' where "open_reader env args = Ok r"
    "collect r = Some (entries (chunk_limit args) ctx0 xs, r')"
proof (cases "\<not> xa_no_chunking args \<and> xa_max_key_elements args = None")
  case True
  then show thesis
    using that default_file_collects [OF assms(2,3), of ending] assms(1)
    by (auto simp: chunk_limit_def open_reader_def build_rdb_reader_def)
next
  case False
  obtain r q r' where r: "reader_new (file_bytes m v xs) ending = Ok r"
    "configure (chunk_limit args) r = Ok q" "collect q = Some (entries (chunk_limit args) ctx0 xs, r')"
    using file_collects [OF assms(2-4), of ending] by blast
  have "open_reader env args = Ok q"
    using r(1,2) assms(1) False
    by (auto simp: chunk_limit_def open_reader_def build_rdb_reader_def configure_def split: option.splits)
  then show thesis using that r(3) by blast
qed

text \<open>
  Claim C1. From a file to files: an export of any file of the grammar of
  Rdb_Format, with any accepted arguments, succeeds when the file system does; it opens a file for exactly the requested
  tags that have rows, closes them all, and hands each exactly the rows of the entries the
  file means that pass the filters, in order.
\<close>

theorem export_of_written_file:
  assumes "version_ok m v" "\<forall>x \<in> set xs. item_ok x"
    and "open_rdb_input env (xa_file args) = Ok (file_bytes m v xs, ending)"
    and "check_args args = Ok (tags, hs)" "chunk_limit args \<noteq> Some 0"
    and "try_new_accepts (env_try_new env)" "env_writes env"
  shows "\<exists>r out w' log. open_reader env args = Ok r \<and>
    export_run env args w = Some (Ok (), out, w') \<and> export_wrote env args tags hs r w w' log \<and>
    closed log = filter (\<lambda>t. t \<in> set (opened log)) tag_all \<and>
    (let es = oks (entries (chunk_limit args) ctx0 xs) in
      set (opened log) = {t. wanted_rows (env_glob env) args tags hs es t \<noteq> []} \<and>
      (\<forall>t. List.concat (List.map batch_rows (written t log)) = wanted_rows (env_glob env) args tags hs es t))"
proof -
  obtain r r' where r: "open_reader env args = Ok r"
    "collect r = Some (entries (chunk_limit args) ctx0 xs, r')"
    by (rule open_written_file [OF assms(3,1,2,5)])
  obtain out w' where run: "export_run env args w = Some (Ok (), out, w')"
    using export_ends_with [OF assms(6,7,4) r, of w] file_items(1) [OF assms(2)] by auto
  have cl: "fst (wo_close (export_writers env args (metadata_from_rdb (metadata r) hs)) wr w) \<noteq> Panic" for wr w
    using never_fails_D(4) [OF export_writers_never_fail [OF assms(7)], of args _ wr w]
    by (metis fst_conv res.distinct(3))
  show ?thesis
    using export_completes [OF assms(6) cl assms(4) r run] r(1) run unfolding Let_def by blast
qed

theorem export_of_written_file_witness:
  "\<exists>r out w' log. export_run sample_env sample_args () = Some (Ok (), out, w') \<and>
    export_wrote sample_env sample_args (Some {TList}) {HGeo} r () w' log \<and>
    (\<forall>t. List.concat (List.map batch_rows (written t log)) =
      wanted_rows (\<lambda>_ _. True) sample_args (Some {TList}) {HGeo} (oks (entries (Some 2) ctx0 export_items)) t)"
proof -
  have "open_rdb_input sample_env (xa_file sample_args) = Ok (file_bytes Redis 11 export_items, UnexpectedEof)"
    by (simp add: open_rdb_input_def sample_args_def)
  moreover have "chunk_limit sample_args = Some 2"
    by (simp add: chunk_limit_def sample_args_def)
  ultimately show ?thesis
    using export_of_written_file [OF _ export_items_ok _ sample_args_ok _ _ sample_env_writes, of Redis 11 _ "()"]
    by (auto simp: version_ok_def strict_try_new_accepts Let_def)
qed

end
