(* ===== verification/Validate_Props.thy ===== *)
theory Validate_Props
  imports Cli_Validate Arrow_Props
begin

text \<open>
  The properties of \<open>validate\<close>: it passes exactly when the Parquet files hold, tag by tag, the
  rows the entries of the RDB file become, and so it accepts what an export has written.
\<close>

section \<open>Totals\<close>

definition tag_total :: "heuristic set \<Rightarrow> rdb_entry list \<Rightarrow> type_tag \<Rightarrow> u64 option" where
  "tag_total hs es t =
     (if \<exists>e \<in> set es. count_of_tag hs t e
      then Some (word_of_nat (length (List.concat (List.map (entry_rows t) (filter (count_of_tag hs t) es)))))
      else None)"

lemma totals_rows:
  "map_option tc_rows (totals (fold (count_entry hs) es counters_new) t) = tag_total hs es t"
proof -
  have d: "t \<in> dom (totals (fold (count_entry hs) es counters_new)) \<longleftrightarrow> (\<exists>e \<in> set es. count_of_tag hs t e)"
    by (simp add: totals_dom) (simp add: counters_new_def)
  have r: "rows_in (fold (count_entry hs) es counters_new) t =
      word_of_nat (length (List.concat (List.map (entry_rows t) (filter (count_of_tag hs t) es))))"
    by (simp add: fold_counts)
  show ?thesis
  proof (cases "totals (fold (count_entry hs) es counters_new) t")
    case None
    then show ?thesis using d by (auto simp: tag_total_def)
  next
    case (Some tc)
    then have "\<exists>e \<in> set es. count_of_tag hs t e" using d by blast
    then show ?thesis using r Some by (simp add: tag_total_def rows_in_def)
  qed
qed

lemma validate_result:
  assumes "read_parquet_metadata env dir = Ok meta" "build_rdb_reader env file = Ok r"
    "collect r = Some (items, r')" "\<forall>x \<in> set items. \<not> fatal x" "count_parquet env dir = Ok pq"
  shows "\<exists>res out. validate_run env file dir = Some (res, out) \<and>
    (res = Ok () \<longleftrightarrow> (\<forall>t. pq t = tag_total (pm_heuristics meta) (oks items) t)) \<and>
    (res = Ok () \<or> (\<exists>m. res = Err (ValidationFailed m)))"
proof -
  let ?hs = "pm_heuristics meta"
  obtain j s where s: "summarize_entries r ?hs = Some (Ok s, j)"
    "es_counters s = fold (count_entry ?hs) (oks items) counters_new"
    using summarize_collect [OF assms(3), of ?hs] count_items_ok [of items ?hs counters_new] assms(4)
    by auto
  have c: "count_rdb env file ?hs = Some (Ok s)"
    by (simp add: count_rdb_def assms(2) s(1))
  obtain ls tot res where v: "verdict (totals (es_counters s)) pq = (ls, tot, res)"
    by (metis prod.exhaust)
  have "res = Ok () \<longleftrightarrow> (\<forall>t. tag_total ?hs (oks items) t = pq t)"
    "res = Ok () \<or> (\<exists>m. res = Err (ValidationFailed m))"
    using verdict_iff [of "totals (es_counters s)" pq] unfolding v snd_conv by (simp_all add: s(2) totals_rows)
  then show ?thesis
    by (auto simp: validate_run_def assms(1,5) c v)
qed

section \<open>A concrete directory\<close>

definition sample_rows_of :: "bytes \<Rightarrow> (parquet_file, string) res" where
  "sample_rows_of name =
     (let m = metadata_from_rdb \<lparr>aux = Map.empty\<rparr> {HGeo} in
      if name = str_bytes ''out/string.parquet'' then Ok \<lparr>pq_num_rows = 1, pq_metadata = Some m\<rparr>
      else if name = str_bytes ''out/list.parquet'' then Ok \<lparr>pq_num_rows = 3, pq_metadata = Some m\<rparr>
      else Err ''not a Parquet file'')"

definition sample_dir :: "bytes validate_env" where
  "sample_dir =
     \<lparr>env_stdin = (file_bytes Redis 11 export_items, UnexpectedEof),
      env_open = (\<lambda>_. Err ''no such file''),
      ve_directory = (\<lambda>_. listed [str_bytes ''list.parquet'', str_bytes ''string.parquet'']),
      ve_file = Ok, ve_parquet = sample_rows_of\<rparr>"

lemma tag_of_name: "starts_with (str_bytes (tag_as_str t) @ str_bytes ''.parquet'') (str_bytes (tag_as_str u) @ [46]) \<longleftrightarrow> t = u"
proof
  assume "starts_with (str_bytes (tag_as_str t) @ str_bytes ''.parquet'') (str_bytes (tag_as_str u) @ [46])"
  moreover have "starts_with (str_bytes (tag_as_str t) @ str_bytes ''.parquet'') (str_bytes (tag_as_str t) @ [46])"
    by (simp add: starts_with_def str_bytes_def)
  ultimately show "t = u" by (rule prefix_tag [rotated])
qed (simp add: starts_with_def str_bytes_def)

lemma tag_bytes_inj: "str_bytes (tag_as_str t) = str_bytes (tag_as_str u) \<longleftrightarrow> t = u"
  by (metis option.inject tag_from_as_str)

text \<open>A directory with one file for each of some tags.\<close>

lemma find_base_files:
  "find_parquet_files (listed (List.map (\<lambda>u. str_bytes (tag_as_str u) @ str_bytes ''.parquet'') ts)) t =
   (if t \<in> set ts then [str_bytes (tag_as_str t) @ str_bytes ''.parquet''] else [])"
proof -
  have "filter (\<lambda>n. starts_with n (str_bytes (tag_as_str t) @ [46]) \<and> ends_with n (str_bytes ''.parquet'') \<and>
      n \<noteq> str_bytes (tag_as_str t) @ str_bytes ''.parquet'')
      (List.map (\<lambda>u. str_bytes (tag_as_str u) @ str_bytes ''.parquet'') ts) = []"
    by (auto simp: filter_empty_conv tag_of_name)
  then show ?thesis
    by (auto simp: find_parquet_files_def listed_def Let_def tag_bytes_inj)
qed

lemma sample_files:
  "find_parquet_files (listed [str_bytes ''list.parquet'', str_bytes ''string.parquet'']) t =
   (if t = TList \<or> t = TString then [str_bytes (tag_as_str t) @ str_bytes ''.parquet''] else [])"
proof -
  have "[str_bytes ''list.parquet'', str_bytes ''string.parquet''] =
      List.map (\<lambda>u. str_bytes (tag_as_str u) @ str_bytes ''.parquet'') [TList, TString]"
    by (simp add: tag_as_str_def str_bytes_def)
  then show ?thesis by (simp only: find_base_files) simp
qed

lemma sample_tag_files:
  "tag_files sample_dir (str_bytes ''out'') t =
   (if t = TList then [str_bytes ''out/list.parquet'']
    else if t = TString then [str_bytes ''out/string.parquet''] else [])"
proof -
  have "find_parquet_files (ve_directory sample_dir (str_bytes ''out'')) t =
      (if t = TList \<or> t = TString then [str_bytes (tag_as_str t) @ str_bytes ''.parquet''] else [])"
    by (simp add: sample_dir_def sample_files)
  then show ?thesis
    by (auto simp: tag_files_def path_join_def tag_as_str_def str_bytes_def)
qed

lemma sample_meta:
  "read_parquet_metadata sample_dir (str_bytes ''out'') =
     Ok \<lparr>has_exported_by = True, pm_heuristics = {HGeo}\<rparr>"
proof -
  have "schema_heuristics (metadata_from_rdb \<lparr>aux = Map.empty\<rparr> {HGeo}) = Ok {HGeo}"
    by (simp add: schema_heuristics_def metadata_heuristics heuristic_round)
  moreover have "metadata_from_rdb \<lparr>aux = Map.empty\<rparr> {HGeo} RDB_EXPORTED_BY_KEY \<noteq> None"
    by (simp add: metadata_from_rdb_def)
  ultimately show ?thesis
    by (simp add: read_parquet_metadata_def tag_all_def sample_tag_files open_parquet_def sample_rows_of_def)
      (simp add: sample_dir_def sample_rows_of_def)
qed

lemma sample_counts:
  "count_parquet sample_dir (str_bytes ''out'') = Ok [TString \<mapsto> 1, TList \<mapsto> 3]"
proof -
  have f: "open_parquet sample_dir p = map_err (\<lambda>e. Other (From_Parquet e)) (sample_rows_of p)" for p
    by (simp add: open_parquet_def sample_dir_def)
  have ne: "str_bytes ''out/list.parquet'' \<noteq> str_bytes ''out/string.parquet''"
    by (simp add: str_bytes_def)
  then show ?thesis
    by (simp add: count_parquet_def tag_all_def sample_tag_files f sample_rows_of_def Let_def)
qed

lemma sample_opens:
  obtains r r' where "reader_new (file_bytes Redis 11 export_items) UnexpectedEof = Ok r"
    "collect r = Some (entries (Some DEFAULT_MAX_KEY_ELEMENTS) ctx0 export_items, r')"
  using that default_file_collects [OF _ export_items_ok, of Redis 11 UnexpectedEof]
  by (auto simp: version_ok_def)

lemma sample_default_reader:
  obtains q r' where "build_rdb_reader sample_dir (str_bytes ''-'') = Ok q"
    "collect q = Some (entries (Some DEFAULT_MAX_KEY_ELEMENTS) ctx0 export_items, r')"
  by (rule sample_opens) (rule that, simp_all add: build_rdb_reader_def open_rdb_input_def sample_dir_def)

lemma sample_entries:
  "oks (entries (Some DEFAULT_MAX_KEY_ELEMENTS) ctx0 export_items) =
     [ctx_entry (ctx0\<lparr>c_db := 3\<rparr>) RDB_TYPE_STRING [107] None None (VString [45, 53]),
      ctx_entry (after_key (after_key (ctx0\<lparr>c_db := 3\<rparr>))) RDB_TYPE_LIST [108] None None
        (VList [[97], [98], [99]])]"
proof -
  have "blob_value RDB_TYPE_STRING b = Ok (VString b)" for b
    by (simp add: blob_value_def)
  moreover have "dec_int (- 5) = [45, 53]" by (simp add: dec_int_def dec_nat.simps)
  moreover have "plain_value RDB_TYPE_LIST es = VList (List.map elem_string es)" for es
    by (simp add: plain_value_def)
  ultimately show ?thesis
    by (simp add: export_items_def DEFAULT_MAX_KEY_ELEMENTS_def zipmap_unsupported oks_simps)
qed

lemma sample_totals:
  "tag_total {HGeo} (oks (entries (Some DEFAULT_MAX_KEY_ELEMENTS) ctx0 export_items)) =
     [TString \<mapsto> 1, TList \<mapsto> 3]"
proof
  fix t
  show "tag_total {HGeo} (oks (entries (Some DEFAULT_MAX_KEY_ELEMENTS) ctx0 export_items)) t =
     [TString \<mapsto> 1, TList \<mapsto> 3] t"
    by (cases t)
      (simp_all add: tag_total_def sample_entries count_of_tag_def ctx_entry_def type_tag_for_def
        is_hll_def should_emit_geo_def entry_rows_def element_rows_def)
qed

section \<open>Properties\<close>

text \<open>
  Claim C8. \<open>validate\<close> passes exactly when the Parquet files have, for every tag, the rows the
  entries of that tag become, and no file where there is no entry; otherwise it ends with
  the status for a failed validation.
\<close>

theorem validate_passes_iff:
  assumes "read_parquet_metadata env dir = Ok meta" "build_rdb_reader env file = Ok r"
    "collect r = Some (items, r')" "\<forall>x \<in> set items. \<not> fatal x" "count_parquet env dir = Ok pq"
  shows "((\<exists>out. validate_run env file dir = Some (Ok (), out)) \<longleftrightarrow>
      pq = tag_total (pm_heuristics meta) (oks items)) \<and>
    ((\<exists>m out. validate_run env file dir = Some (Err (ValidationFailed m), out)) \<longleftrightarrow>
      pq \<noteq> tag_total (pm_heuristics meta) (oks items))"
proof -
  obtain res out where "validate_run env file dir = Some (res, out)"
    "res = Ok () \<longleftrightarrow> pq = tag_total (pm_heuristics meta) (oks items)"
    "res = Ok () \<or> (\<exists>m. res = Err (ValidationFailed m))"
    using validate_result [OF assms] by (metis ext)
  then show ?thesis by auto
qed

theorem validate_passes_iff_witness:
  "\<exists>out. validate_run sample_dir (str_bytes ''-'') (str_bytes ''out'') = Some (Ok (), out)"
proof -
  obtain q r' where q: "build_rdb_reader sample_dir (str_bytes ''-'') = Ok q"
    "collect q = Some (entries (Some DEFAULT_MAX_KEY_ELEMENTS) ctx0 export_items, r')"
    by (rule sample_default_reader)
  show ?thesis
    using validate_passes_iff [OF sample_meta q file_items(3) [OF export_items_ok] sample_counts]
    by (simp add: sample_totals)
qed

lemma total_of_rows:
  assumes "max_entry_bytes cfg = None" "heuristics cfg = hs"
  shows "tag_total hs es t =
    (let rows = List.concat (List.map (routed_rows cfg t) es) in
     if rows = [] then None else Some (word_of_nat (length rows)))"
proof -
  have r: "routed cfg t e \<longleftrightarrow> count_of_tag hs t e" for e
    by (simp add: routed_def oversized_def assms count_of_tag_def)
  have c: "List.concat (List.map (routed_rows cfg t) es) =
      List.concat (List.map (entry_rows t) (filter (count_of_tag hs t) es))" for es
    by (induction es) (simp_all add: routed_rows_def r)
  have "List.concat (List.map (entry_rows t) (filter (count_of_tag hs t) es)) = [] \<longleftrightarrow>
      \<not> (\<exists>e \<in> set es. count_of_tag hs t e)" for es
    using counted_rows_nonempty by auto
  then show ?thesis by (simp add: tag_total_def c Let_def)
qed

text \<open>
  Claim C23. What an export of everything wrote validates: if the files hold, for every tag, as
  many rows as the batches of an export that read the same input with the default chunk
  limit (that of the reader \<open>validate\<close> builds), had the recorded heuristics and no size
  limit, and dropped no entry and no type, and there is a file exactly for the tags with
  rows, and the input yields no error but unsupported types, then \<open>validate\<close> passes.  With
  another chunk limit, a size limit or a filter a correct export may fail to validate.
\<close>

theorem validate_accepts_export:
  assumes "read_parquet_metadata env dir = Ok meta" "build_rdb_reader env file = Ok r"
    "collect r = Some (items, r')" "\<forall>x \<in> set items. \<not> fatal x"
    and "try_new_accepts tn" "max_entry_bytes cfg = None" "heuristics cfg = pm_heuristics meta"
    and "export_batches tn cfg r = Some (os, it)"
    and "count_parquet env dir = Ok (\<lambda>t. if tag_rows t (oks os) = [] then None
      else Some (word_of_nat (length (tag_rows t (oks os)))))"
  shows "\<exists>out. validate_run env file dir = Some (Ok (), out)"
proof -
  have "Panic \<notin> set items" using assms(4) by (auto simp: fatal_def)
  then obtain os' it' where "export_batches tn cfg r = Some (os', it')"
    "\<forall>t. tag_rows t (oks os') = List.concat (List.map (routed_rows cfg t) (oks items))"
    using batch_collect_new [OF collect_supplies [OF assms(3)] _ assms(5), of cfg]
    unfolding export_batches_def run_ok_def by auto
  then have rows: "tag_rows t (oks os) = List.concat (List.map (routed_rows cfg t) (oks items))" for t
    using assms(8) by simp
  obtain res out where "validate_run env file dir = Some (res, out)"
    "res = Ok () \<longleftrightarrow> (\<forall>t. (if tag_rows t (oks os) = [] then None
      else Some (word_of_nat (length (tag_rows t (oks os))))) = tag_total (pm_heuristics meta) (oks items) t)"
    using validate_result [OF assms(1-4,9)] by blast
  then show ?thesis
    by (simp add: total_of_rows [OF assms(6,7)] rows Let_def)
qed

theorem validate_accepts_export_witness:
  "\<exists>out. validate_run sample_dir (str_bytes ''-'') (str_bytes ''out'') = Some (Ok (), out)"
proof -
  let ?items = "entries (Some DEFAULT_MAX_KEY_ELEMENTS) ctx0 export_items"
  let ?cfg = "sample_config\<lparr>heuristics := {HGeo}\<rparr>"
  obtain q r' where q: "build_rdb_reader sample_dir (str_bytes ''-'') = Ok q" "collect q = Some (?items, r')"
    by (rule sample_default_reader)
  have cfg: "max_entry_bytes ?cfg = None" "heuristics ?cfg = {HGeo}"
    by (simp_all add: sample_config_def batcher_config_default_def)
  obtain os it where os: "export_batches strict_try_new ?cfg q = Some (os, it)"
    "\<forall>t. tag_rows t (oks os) = List.concat (List.map (routed_rows ?cfg t) (oks ?items))"
    using batch_collect_new [OF collect_supplies [OF q(2)] file_items(2) [OF export_items_ok]
        strict_try_new_accepts, of ?cfg]
    unfolding export_batches_def run_ok_def by auto
  have "[TString \<mapsto> 1, TList \<mapsto> 3] = (\<lambda>t. if tag_rows t (oks os) = [] then None
      else Some (word_of_nat (length (tag_rows t (oks os))) :: u64))"
    using total_of_rows [OF cfg, of "oks ?items"]
    by (simp add: os(2) fun_eq_iff Let_def flip: sample_totals)
  then have "count_parquet sample_dir (str_bytes ''out'') = Ok (\<lambda>t. if tag_rows t (oks os) = [] then None
      else Some (word_of_nat (length (tag_rows t (oks os)))))"
    by (simp add: sample_counts)
  from validate_accepts_export [OF sample_meta q file_items(3) [OF export_items_ok]
      strict_try_new_accepts cfg(1) _ os(1) this] cfg(2)
  show ?thesis by simp
qed

end
