(* ===== verification/Format_Props.thy ===== *)
theory Format_Props
  imports Cli_Args Cli_Validate
begin

text \<open>
  Properties of the formats and names: the writers and what they are given, the metadata of a
  file, type names and file names.
\<close>

section \<open>Writers\<close>

text \<open>
  Claim C29. Every writer is closed: on every path, also when a batch, an open or a write fails,
  each writer that was opened is closed once, in the order of the tags; what the writers got
  is a prefix of the batches, tag by tag and in order, up to the first error, and all of them
  when the run succeeds.  The run stops at the first failure of a call.  It reports that
  failure, or else the first error among the batches, or else the first failure of a
  closing.  The log is only an observation: the run without it has the same result.
\<close>

theorem every_writer_is_closed:
  assumes "run_writer_pipeline (logged ops) items (w, []) = (r, (w', log))"
    and "\<And>wr w. fst (wo_close ops wr w) \<noteq> Panic" "r \<noteq> Panic"
  shows "run_writer_pipeline ops items w = (r, w') \<and>
    closed log = filter (\<lambda>t. t \<in> set (opened log)) tag_all \<and> distinct (opened log) \<and>
    (\<exists>n. errs (take n items) = [] \<and> (\<forall>u. written u log = tag_batches u (oks (take n items)))) \<and>
    (r = Ok () \<longrightarrow> (\<forall>u. written u log = tag_batches u (oks items))) \<and>
    failures (butlast (before_close log)) = [] \<and>
    r = (case failures (before_close log) @ errs items @ failures (at_close log) of
        [] \<Rightarrow> Ok () | e # _ \<Rightarrow> Err e)"
  using pipeline_unlogged [OF assms(1)] pipeline_logged [OF assms] pipeline_reports [OF assms] by blast

text \<open>Writers of which the second write fails, and every closing.\<close>

definition failing_ops :: "(nat, unit, unit, convert_error) writer_ops" where
  "failing_ops =
     \<lparr>wo_factory = (\<lambda>_. st_ret ()), wo_open = (\<lambda>_ _. st_ret ()),
      wo_write = (\<lambda>wr _ w. (if w = 0 then Ok () else Err (Convert_Io ''disk full''), wr, w + 1)),
      wo_close = (\<lambda>_ w. (Err (Convert_Io ''broken pipe''), w)), wo_into = (\<lambda>e. e)\<rparr>"

definition some_batch :: "type_tag \<Rightarrow> typed_batch" where
  "some_batch t = \<lparr>tb_tag = t, tb_batch = \<lparr>rb_schema = schema_for t, rb_columns = []\<rparr>\<rparr>"

definition failing_log :: "event list" where
  "failing_log =
     [Opened TSet, Wrote TSet (tb_batch (some_batch TSet)), Opened TList,
      Wrote TList (tb_batch (some_batch TList)), Failed (Convert_Io ''disk full''),
      Closed TList, Failed (Convert_Io ''broken pipe''), Closed TSet, Failed (Convert_Io ''broken pipe'')]"

lemma failing_run:
  "run_writer_pipeline (logged failing_ops)
     [Ok (some_batch TSet), Ok (some_batch TList), Ok (some_batch TSet)] (0, []) =
   (Err (Convert_Io ''disk full''), (2, failing_log))"
  by (simp add: run_writer_pipeline_def writer_entry_def write_batch_def logged_def failing_ops_def
      st_bind_def st_ret_def st_lift_def some_batch_def failing_log_def close_all_def in_order_def
      tag_all_def)

theorem every_writer_is_closed_witness:
  "run_writer_pipeline failing_ops
     [Ok (some_batch TSet), Ok (some_batch TList), Ok (some_batch TSet)] 0 =
     (Err (Convert_Io ''disk full''), 2) \<and>
   closed failing_log = filter (\<lambda>t. t \<in> set (opened failing_log)) tag_all \<and>
   distinct (opened failing_log) \<and> failures (butlast (before_close failing_log)) = []"
proof -
  have "fst (wo_close failing_ops wr w) \<noteq> Panic" for wr w
    by (simp add: failing_ops_def st_ret_def)
  from every_writer_is_closed [OF failing_run this] show ?thesis by simp
qed

section \<open>Metadata\<close>

text \<open>
  Claim C37. The heuristics of an export are read back by \<open>validate\<close> from the metadata of its
  files, whatever the AUX fields were, the export is recognised, and an AUX field is kept
  under its prefixed name unless that is one of the two names the exporter uses itself.
\<close>

theorem metadata_round_trip:
  assumes "k \<notin> {str_bytes ''exported_by'', str_bytes ''heuristics''}"
  shows "schema_heuristics (metadata_from_rdb meta hs) = Ok hs \<and>
    metadata_from_rdb meta hs RDB_EXPORTED_BY_KEY \<noteq> None \<and>
    metadata_from_rdb meta hs (str_bytes ''rdb.'' @ k) = aux meta k"
proof -
  have "metadata_from_rdb meta hs RDB_EXPORTED_BY_KEY \<noteq> None"
    by (simp add: metadata_from_rdb_def)
  then show ?thesis
    using assms metadata_aux [of k meta hs]
    by (simp add: schema_heuristics_def metadata_heuristics heuristic_round)
qed

theorem metadata_round_trip_witness:
  "metadata_from_rdb \<lparr>aux = [str_bytes ''ctime'' \<mapsto> str_bytes ''7'']\<rparr> {HGeo} (str_bytes ''rdb.ctime'') =
     Some (str_bytes ''7'')"
  using metadata_round_trip [of "str_bytes ''ctime''" "\<lparr>aux = [str_bytes ''ctime'' \<mapsto> str_bytes ''7'']\<rparr>" "{HGeo}"]
  by (simp add: str_bytes_def)

section \<open>Names\<close>

text \<open>
  Claim C40. Type names round trip: the names of any tags, joined by commas, are parsed to the set
  of these tags.  Of any other text, the first name between commas that is not known, white
  space and case aside, is the one reported.
\<close>

theorem type_names_round_trip:
  assumes "ts \<noteq> []"
  shows "tag_parse_set (join_with 44 (List.map (\<lambda>t. str_bytes (tag_as_str t)) ts)) = Ok (set ts) \<and>
    tag_parse_set s =
     (case find (\<lambda>n. tag_from_cli_name (trim n) = None) (split_on 44 s) of
        Some n \<Rightarrow> Err (unknown_type (trim n))
      | None \<Rightarrow> Ok ((\<lambda>n. the (tag_from_cli_name (trim n))) ` set (split_on 44 s)))"
  using tag_parse_join [OF assms] parse_names_find [of tag_from_cli_name unknown_type "split_on 44 s" "{}"]
  by (simp add: tag_parse_set_def cong: option.case_cong)

theorem type_names_round_trip_witness:
  "tag_parse_set (str_bytes ''zset,geo'') = Ok {TSortedSet, TGeo}"
  using conjunct1 [OF type_names_round_trip [of "[TSortedSet, TGeo]"]]
  by (simp add: tag_as_str_def str_bytes_def)

text \<open>
  Claim C38. The files an export writes are found again: a Parquet file named by the exporter, with
  or without a shard, is listed by \<open>find_parquet_files\<close> under its own tag and no other.
\<close>

theorem exported_file_is_found:
  assumes "output_name tag shard ''parquet'' \<in> set names"
  shows "output_name tag shard ''parquet'' \<in> set (find_parquet_files (listed names) u) \<longleftrightarrow> u = tag"
  using output_found [OF assms] found_once by blast

theorem exported_file_is_found_witness:
  "output_name TSet (Some (str_bytes ''a-1'')) ''parquet'' \<in>
     set (find_parquet_files (listed [str_bytes ''set.a-1.parquet'']) TSet)"
  using exported_file_is_found [of TSet "Some (str_bytes ''a-1'')" "[str_bytes ''set.a-1.parquet'']" TSet]
  by (simp add: output_name_def shard_suffix_def str_bytes_def tag_as_str_def)

end
