(* ===== verification/Byte_Sizes.thy ===== *)
theory Byte_Sizes
  imports Cli_Args
begin

text \<open>
  The texts that are byte sizes, as a grammar, and the proof that \<open>parse_byte_size\<close> of
  \<open>crates/cli/src/args.rs\<close> accepts exactly these, with their value.
\<close>

section \<open>Decimal digits\<close>

lemma digit_range: "d < 10 \<Longrightarrow> 48 \<le> 48 + (word_of_nat d :: u8) \<and> 48 + (word_of_nat d :: u8) \<le> 57"
proof -
  assume "d < 10"
  then have "d = 0 \<or> d = 1 \<or> d = 2 \<or> d = 3 \<or> d = 4 \<or> d = 5 \<or> d = 6 \<or> d = 7 \<or> d = 8 \<or> d = 9"
    by arith
  then show ?thesis by auto
qed

lemma dec_nat_digits: "b \<in> set (dec_nat n) \<Longrightarrow> 48 \<le> b \<and> b \<le> 57"
proof (induction n rule: dec_nat.induct)
  case (1 n)
  show ?case
  proof (cases "n < 10")
    case True
    then show ?thesis using 1(2) digit_range [of n] by (subst (asm) dec_nat.simps) simp
  next
    case False
    then have "b \<in> set (dec_nat (n div 10)) \<or> b = 48 + word_of_nat (n mod 10)"
      using 1(2) by (subst (asm) dec_nat.simps) auto
    then show ?thesis using 1(1) [OF False] digit_range [of "n mod 10"] by auto
  qed
qed

section \<open>White space around a text\<close>

definition spaces :: "bytes \<Rightarrow> bool" where
  "spaces b \<longleftrightarrow> (\<exists>vs. set vs \<subseteq> set white_space \<and> b = List.concat vs)"

lemma spaces_Nil [simp]: "spaces []"
  unfolding spaces_def by (rule exI [of _ "[]"]) simp

lemma spaces_append: "spaces a \<Longrightarrow> spaces b \<Longrightarrow> spaces (a @ b)"
  unfolding spaces_def by (metis Un_least concat_append set_append)

lemma white_space_edges: "\<forall>w \<in> set white_space. w \<noteq> [] \<and> \<not> plain [hd w] \<and> \<not> plain [last w]"
  by (simp add: white_space_def plain_def)

text \<open>No encoding is the beginning of another, nor the end of one.\<close>

lemma white_space_codes:
  "\<forall>v \<in> set white_space. \<forall>w \<in> set white_space. has_prefix v w \<longrightarrow> v = w"
  "\<forall>v \<in> set (List.map rev white_space). \<forall>w \<in> set (List.map rev white_space). has_prefix v w \<longrightarrow> v = w"
  by (simp_all add: white_space_def has_prefix_def)

lemma strip_front_codes:
  assumes "\<forall>v \<in> set ws. \<forall>w \<in> set ws. has_prefix v w \<longrightarrow> v = w" "[] \<notin> set ws"
    and "\<forall>w \<in> set ws. \<not> has_prefix r w" "set vs \<subseteq> set ws"
  shows "strip_front ws (List.concat vs @ r) = r"
  using assms(4)
proof (induction vs)
  case Nil
  have "find (\<lambda>w. w \<noteq> [] \<and> has_prefix r w) ws = None"
    using assms(3) by (simp add: find_None_iff)
  then show ?case by (subst strip_front.simps) simp
next
  case (Cons v vs)
  let ?s = "List.concat (v # vs) @ r"
  have "v \<in> set ws" "v \<noteq> []" using Cons.prems assms(2) by auto
  moreover have "w = v" if w: "w \<in> set ws" "has_prefix ?s w" for w
  proof (cases "length w \<le> length v")
    case True
    then have "has_prefix v w" using w(2) by (simp add: has_prefix_def)
    then show ?thesis using assms(1) w(1) \<open>v \<in> set ws\<close> by auto
  next
    case False
    then have "has_prefix w v" using w(2)
      by (metis (no_types, lifting) append.assoc append_eq_conv_conj concat.simps(2) has_prefix_def
          less_imp_le_nat linorder_not_le min.absorb1 take_take)
    then show ?thesis using assms(1) w(1) \<open>v \<in> set ws\<close> by auto
  qed
  moreover obtain w where w: "find (\<lambda>w. w \<noteq> [] \<and> has_prefix ?s w) ws = Some w"
    using calculation(1,2)
    by (cases "find (\<lambda>w. w \<noteq> [] \<and> has_prefix ?s w) ws") (auto simp: find_None_iff has_prefix_def)
  moreover have "w \<in> set ws" "has_prefix ?s w" using w by (auto simp: find_Some_iff)
  ultimately have "find (\<lambda>w. w \<noteq> [] \<and> has_prefix ?s w) ws = Some v" by metis
  then show ?case using Cons by (subst strip_front.simps) simp
qed

lemma strip_front_split: "\<exists>vs. set vs \<subseteq> set ws \<and> s = List.concat vs @ strip_front ws s"
proof (induction ws s rule: strip_front.induct)
  case (1 ws s)
  show ?case
  proof (cases "find (\<lambda>w. w \<noteq> [] \<and> has_prefix s w) ws")
    case None
    then have "strip_front ws s = s" by (subst strip_front.simps) simp
    then show ?thesis by (intro exI [of _ "[]"]) simp
  next
    case (Some w)
    then have w: "w \<in> set ws" "take (length w) s = w"
      by (auto simp: find_Some_iff has_prefix_def)
    obtain vs where "set vs \<subseteq> set ws" "drop (length w) s = List.concat vs @ strip_front ws (drop (length w) s)"
      using 1 [OF Some] by blast
    moreover have "strip_front ws s = strip_front ws (drop (length w) s)"
      by (subst strip_front.simps) (simp add: Some)
    moreover have "s = w @ drop (length w) s" using w(2) append_take_drop_id [of "length w" s] by simp
    ultimately show ?thesis using w(1) by (intro exI [of _ "w # vs"]) simp
  qed
qed

lemma plain_edge:
  assumes "r \<noteq> []" "plain [hd r]" "w \<noteq> []" "\<not> plain [hd w]"
  shows "\<not> has_prefix r w"
  using assms by (cases r; cases w) (auto simp: has_prefix_def)

lemma trim_spaces:
  assumes "spaces a" "spaces b" "c \<noteq> []" "plain [hd c]" "plain [last c]"
  shows "trim (a @ c @ b) = c"
proof -
  obtain vs us where a: "set vs \<subseteq> set white_space" "a = List.concat vs"
    and b: "set us \<subseteq> set white_space" "b = List.concat us"
    using assms(1,2) by (auto simp: spaces_def)
  have "trim_start (a @ c @ b) = c @ b"
    unfolding trim_start_def a(2)
    by (rule strip_front_codes [OF white_space_codes(1) _ _ a(1)])
      (use assms(3,4) white_space_edges plain_edge in auto)
  moreover have "trim_end (c @ b) = c"
  proof -
    have "rev (c @ b) = List.concat (List.map rev (rev us)) @ rev c"
      by (simp add: b(2) rev_concat rev_map)
    moreover have "strip_front (List.map rev white_space) (List.concat (List.map rev (rev us)) @ rev c) = rev c"
      by (rule strip_front_codes [OF white_space_codes(2)])
        (use assms(3,5) b(1) white_space_edges plain_edge [of "rev c"] in \<open>auto simp: hd_rev\<close>)
    ultimately show ?thesis by (simp add: trim_end_def)
  qed
  ultimately show ?thesis by (simp add: trim_def)
qed

lemma trim_split: "\<exists>a b. spaces a \<and> spaces b \<and> s = a @ trim s @ b"
proof -
  obtain vs where vs: "set vs \<subseteq> set white_space" "s = List.concat vs @ trim_start s"
    using strip_front_split [of white_space s] unfolding trim_start_def by blast
  obtain us where us: "set us \<subseteq> set (List.map rev white_space)"
      "rev (trim_start s) = List.concat us @ rev (trim s)"
    using strip_front_split [of "List.map rev white_space" "rev (trim_start s)"]
    unfolding trim_def trim_end_def by auto
  have "trim_start s = trim s @ List.concat (List.map rev (rev us))"
    using arg_cong [OF us(2), of rev] by (simp add: rev_concat rev_map)
  moreover have "spaces (List.concat (List.map rev (rev us)))"
    unfolding spaces_def using us(1) by (intro exI [of _ "List.map rev (rev us)"]) auto
  ultimately show ?thesis using vs unfolding spaces_def by metis
qed

section \<open>The grammar of sizes\<close>

definition size_units :: "(string \<times> usize) set" where
  "size_units = {('''', 1), (''b'', 1), (''kb'', 1024), (''mb'', 1048576), (''gb'', 1073741824)}"

definition digits_value :: "bytes \<Rightarrow> nat" where
  "digits_value ds = foldl (\<lambda>n d. 10 * n + (unat d - 48)) 0 ds"

text \<open>
  \<open>size_text s n m\<close>: white space, perhaps a plus sign, the digits of \<open>n\<close>, white space, a unit
  worth \<open>m\<close> in either case, white space.
\<close>

definition size_text :: "bytes \<Rightarrow> nat \<Rightarrow> nat \<Rightarrow> bool" where
  "size_text s n m \<longleftrightarrow>
     (\<exists>a sign ds b u c name.
        s = a @ sign @ ds @ b @ u @ c \<and> spaces a \<and> spaces b \<and> spaces c \<and>
        sign \<in> {[], str_bytes ''+''} \<and> ds \<noteq> [] \<and> (\<forall>d \<in> set ds. 48 \<le> d \<and> d \<le> 57) \<and>
        n = digits_value ds \<and> (name, m) \<in> size_units \<and> List.map ascii_lower u = str_bytes name)"

lemma digits_val_fold:
  "digits_val k ds = Some n \<longleftrightarrow>
     (\<forall>d \<in> set ds. 48 \<le> d \<and> d \<le> 57) \<and> n = foldl (\<lambda>n d. 10 * n + (unat d - 48)) k ds"
proof (induction k ds rule: digits_val.induct)
  case (2 k d ds)
  then show ?case by (cases "digit_val d") (auto simp: digit_val_def split: if_splits)
qed auto

lemma parse_unsigned_iff:
  "parse_unsigned 64 s = Some n \<longleftrightarrow>
     (\<exists>sign ds. s = sign @ ds \<and> sign \<in> {[], str_bytes ''+''} \<and> ds \<noteq> [] \<and>
        (\<forall>d \<in> set ds. 48 \<le> d \<and> d \<le> 57) \<and> n = digits_value ds \<and> n < 2 ^ 64)"
proof -
  have plus: "str_bytes ''+'' = [43]" by (simp add: str_bytes_def)
  have "parse_unsigned 64 s = Some n \<longleftrightarrow>
      parse_digits (if s \<noteq> [] \<and> hd s = 43 then tl s else s) = Some n \<and> n < 2 ^ 64"
    by (auto simp: parse_unsigned_def split: option.splits)
  also have "\<dots> \<longleftrightarrow> (\<exists>sign ds. s = sign @ ds \<and> sign \<in> {[], [43]} \<and> parse_digits ds = Some n) \<and> n < 2 ^ 64"
  proof (cases "s \<noteq> [] \<and> hd s = 43")
    case True
    then obtain t where t: "s = 43 # t" by (cases s) auto
    have "parse_digits s = None" by (simp add: t parse_digits_def digit_val_def)
    then have "(\<exists>sign ds. s = sign @ ds \<and> sign \<in> {[], [43]} \<and> parse_digits ds = Some n) \<longleftrightarrow>
        parse_digits t = Some n"
      using t by (intro iffI) (auto intro: exI [of _ "[43]"])
    then show ?thesis using t by simp
  next
    case False
    then show ?thesis by auto
  qed
  finally show ?thesis
    unfolding parse_digits_def digits_value_def plus by (auto simp: digits_val_fold split: if_splits)
qed

section \<open>Units\<close>

lemma strip_suffix_iff: "strip_suffix s x = Some y \<longleftrightarrow> s = y @ x"
  by (auto simp: strip_suffix_def) (metis append_take_drop_id)

lemma strip_suffix_none: "strip_suffix s x = None \<longleftrightarrow> (\<nexists>y. s = y @ x)"
  using strip_suffix_iff [of s x] by (cases "strip_suffix s x") auto

lemma split_unit_num:
  assumes "(name, m) \<in> size_units" "x \<noteq> []" "last x \<notin> {98, 103, 107, 109}"
  shows "split_unit (x @ str_bytes name) = (x, m)"
proof -
  obtain ys d where x: "x = ys @ [d]" using assms(2) by (metis rev_exhaust)
  then have d: "d \<noteq> 98" "d \<noteq> 103" "d \<noteq> 107" "d \<noteq> 109" using assms(3) by simp_all
  have two: "strip_suffix (zs @ [a, b]) [c, e] = (if a = c \<and> b = e then Some zs else None)"
    for zs a b c and e :: u8
    by (cases "strip_suffix (zs @ [a, b]) [c, e]") (auto simp: strip_suffix_iff strip_suffix_none)
  have one: "strip_suffix (zs @ [a]) [e] = (if a = e then Some zs else None)" for zs a and e :: u8
    by (cases "strip_suffix (zs @ [a]) [e]") (auto simp: strip_suffix_iff strip_suffix_none)
  have three: "strip_suffix (zs @ [d, a, b]) [c, e] = (if a = c \<and> b = e then Some (zs @ [d]) else None)"
    for zs a b c and e :: u8
    using two [of "zs @ [d]" a b c e] by simp
  have last: "strip_suffix (zs @ [d]) [a, 98] = None" for zs a
    using d by (auto simp: strip_suffix_none)
  have b: "strip_suffix (ys @ [d, 98]) [98] = Some (ys @ [d])"
    by (simp add: strip_suffix_iff)
  consider "name = ''''" "m = 1" | "name = ''b''" "m = 1" | "name = ''kb''" "m = 1024"
    | "name = ''mb''" "m = 1048576" | "name = ''gb''" "m = 1073741824"
    using assms(1) by (auto simp: size_units_def)
  then show ?thesis
    by cases (use d in \<open>simp_all add: split_unit_def x two three one last b str_bytes_def\<close>)
qed

lemma split_unit_unit:
  assumes "split_unit s = (num, m)"
  shows "\<exists>name. (name, m) \<in> size_units \<and> s = num @ str_bytes name"
  using assms unfolding split_unit_def size_units_def
  by (auto split: option.splits simp: strip_suffix_iff str_bytes_def)

section \<open>Case\<close>

text \<open>Bytes that are no letters come from themselves.\<close>

lemma lower_other:
  "ascii_lower b = c \<Longrightarrow> \<not> (97 \<le> c \<and> c \<le> 122) \<Longrightarrow> b = c"
  by (auto simp: ascii_lower_def word_le_nat_alt unat_word_ariths split: if_splits)

lemma lower_others:
  "List.map ascii_lower x = y \<Longrightarrow> \<forall>c \<in> set y. \<not> (97 \<le> c \<and> c \<le> 122) \<Longrightarrow> x = y"
  by (induction x arbitrary: y) (auto intro: lower_other [OF refl])

lemma lower_fixed: "\<forall>c \<in> set y. \<not> (65 \<le> c \<and> c \<le> 90) \<Longrightarrow> List.map ascii_lower y = y"
  by (induction y) (auto simp: ascii_lower_def)

lemma spaces_bytes: "spaces b \<Longrightarrow> c \<in> set b \<Longrightarrow> c < 33 \<or> 128 \<le> c"
proof -
  have "\<forall>w \<in> set white_space. \<forall>c \<in> set w. c < 33 \<or> 128 \<le> c" by (simp add: white_space_def)
  then show "spaces b \<Longrightarrow> c \<in> set b \<Longrightarrow> c < 33 \<or> 128 \<le> c" unfolding spaces_def by fastforce
qed

lemma digit_bytes:
  assumes "48 \<le> b" "b \<le> (57 :: u8)"
  shows "33 \<le> b" "b < 128" "\<not> (97 \<le> b \<and> b \<le> 122)" "\<not> (65 \<le> b \<and> b \<le> 90)"
    "b \<noteq> 98" "b \<noteq> 103" "b \<noteq> 107" "b \<noteq> 109"
  using assms by (auto simp: word_le_nat_alt word_less_nat_alt)

lemma space_bytes:
  assumes "b < 33 \<or> (128 :: u8) \<le> b"
  shows "\<not> (97 \<le> b \<and> b \<le> 122)" "\<not> (65 \<le> b \<and> b \<le> 90)"
    "b \<noteq> 98" "b \<noteq> 103" "b \<noteq> 107" "b \<noteq> 109"
  using assms by (auto simp: word_le_nat_alt word_less_nat_alt)

section \<open>What is accepted\<close>

text \<open>A text of the grammar splits into its number and its unit.\<close>

lemma size_text_split:
  assumes "size_text s n m" "n < 2 ^ 64"
  shows "\<exists>num. split_unit (to_ascii_lowercase (trim s)) = (num, m) \<and> parse_usize (trim num) = Ok n"
proof -
  obtain a sign ds b u c name where s: "s = a @ sign @ ds @ b @ u @ c"
    and sp: "spaces a" "spaces b" "spaces c" and sign: "sign \<in> {[], str_bytes ''+''}"
    and ds: "ds \<noteq> []" "\<forall>d \<in> set ds. 48 \<le> d \<and> d \<le> 57" "n = digits_value ds"
    and u: "(name, m) \<in> size_units" "List.map ascii_lower u = str_bytes name"
    using assms(1) unfolding size_text_def by blast
  let ?num = "sign @ ds"
  have num: "?num \<noteq> []" "plain [hd ?num]" "plain [last ?num]"
    using sign ds digit_bytes hd_in_set [OF ds(1)] last_in_set [OF ds(1)]
    by (auto simp: plain_def str_bytes_def)
  define rest where "rest = (if u = [] then [] else b)"
  define after where "after = (if u = [] then b @ c else c)"
  have sp': "spaces rest" "spaces after"
    using sp by (simp_all add: rest_def after_def spaces_append)
  have "u = [] \<or> plain [last u]"
    using u by (cases u rule: rev_cases)
      (auto simp: size_units_def str_bytes_def plain_def ascii_lower_def split: if_splits)
  then have "trim (a @ (?num @ rest @ u) @ after) = ?num @ rest @ u"
    using num sp(1) sp'(2) by (intro trim_spaces) (auto simp: rest_def hd_append)
  then have t: "trim s = ?num @ rest @ u"
    by (cases "u = []") (simp_all add: s rest_def after_def)
  have l: "List.map ascii_lower (?num @ rest) = ?num @ rest"
    using sign ds(2) spaces_bytes [OF sp'(1)] digit_bytes space_bytes
    by (intro lower_fixed) (auto simp: str_bytes_def)
  have other: "last (?num @ rest) \<notin> {98, 103, 107, 109}"
  proof (cases "rest = []")
    case True
    then show ?thesis using ds digit_bytes [of "last ds"] last_in_set [OF ds(1)] by auto
  next
    case False
    then show ?thesis
      using space_bytes [OF spaces_bytes [OF sp'(1) last_in_set [OF False]]] by auto
  qed
  have "?num @ rest \<noteq> []" using ds(1) by simp
  note split_unit_num [OF u(1) this other]
  moreover have "to_ascii_lowercase (trim s) = (?num @ rest) @ str_bytes name"
    using l by (simp add: to_ascii_lowercase_def t u(2))
  ultimately have "split_unit (to_ascii_lowercase (trim s)) = (?num @ rest, m)" by metis
  moreover have "trim (?num @ rest) = ?num"
    using trim_spaces [OF spaces_Nil sp'(1) num] by simp
  moreover have "parse_unsigned 64 ?num = Some n"
    unfolding parse_unsigned_iff using sign ds assms(2) by blast
  ultimately show ?thesis by (simp add: parse_usize_def)
qed

text \<open>What splits into a number and a unit is a text of the grammar.\<close>

lemma size_text_of_split:
  assumes "split_unit (to_ascii_lowercase (trim s)) = (num, m)" "parse_usize (trim num) = Ok n"
  shows "size_text s n m \<and> n < 2 ^ 64"
proof -
  obtain name where name: "(name, m) \<in> size_units" "List.map ascii_lower (trim s) = num @ str_bytes name"
    using split_unit_unit [OF assms(1)] by (auto simp: to_ascii_lowercase_def)
  have "parse_unsigned 64 (trim num) = Some n"
    using assms(2) by (cases "parse_unsigned 64 (trim num)") (simp_all add: parse_usize_def)
  then obtain sign ds where p: "trim num = sign @ ds" "sign \<in> {[], str_bytes ''+''}" "ds \<noteq> []"
    "\<forall>d \<in> set ds. 48 \<le> d \<and> d \<le> 57" "n = digits_value ds" "n < 2 ^ 64"
    unfolding parse_unsigned_iff by blast
  obtain a' b where ab: "spaces a'" "spaces b" "num = a' @ (sign @ ds) @ b"
    using trim_split [of num] p(1) by auto
  obtain a c where ac: "spaces a" "spaces c" "s = a @ trim s @ c" using trim_split [of s] by auto
  obtain x u where x: "trim s = x @ u" "List.map ascii_lower x = num" "List.map ascii_lower u = str_bytes name"
    using name(2) by (auto simp: map_eq_append_conv)
  have "\<forall>k \<in> set num. \<not> (97 \<le> k \<and> k \<le> 122)"
    using ab p(2,4) digit_bytes space_bytes spaces_bytes by (auto simp: str_bytes_def)
  then have "x = num" using lower_others [OF x(2)] by simp
  then have "s = (a @ a') @ sign @ ds @ b @ u @ c" using ac(3) x(1) ab(3) by simp
  then show ?thesis
    unfolding size_text_def
    using ab ac(1,2) p name(1) x(3) spaces_append [OF ac(1) ab(1)] by blast
qed

text \<open>The error texts tell the kinds of errors apart, and the overflow error its numbers.\<close>

lemma int_error_texts:
  "int_error s \<in> {''cannot parse integer from empty string'', ''invalid digit found in string'',
     ''number too large to fit in target type''}"
proof -
  have "digits_error cs n \<in> {''invalid digit found in string'', ''number too large to fit in target type''}" for cs n
    by (induction cs n rule: digits_error.induct) (auto split: option.splits)
  then show ?thesis by (auto simp: int_error_def)
qed

lemma error_texts [simp]:
  "str_bytes (int_error s) \<noteq> str_bytes ''value must be > 0''"
  "str_bytes (int_error s) \<noteq> overflow_text n m"
  "str_bytes ''value must be > 0'' \<noteq> str_bytes (int_error s)"
  "overflow_text n m \<noteq> str_bytes (int_error s)"
  "overflow_text n m \<noteq> str_bytes ''value must be > 0''"
  "str_bytes ''value must be > 0'' \<noteq> overflow_text n m"
  using int_error_texts [of s] by (auto simp: overflow_text_def str_bytes_def)

lemma overflow_text_inj [simp]: "overflow_text n m = overflow_text n' m' \<longleftrightarrow> n = n' \<and> m = m'"
proof -
  have t: "takeWhile (\<lambda>b. b \<noteq> 32) (dec_nat k @ 32 # r) = dec_nat k" for k r
    using dec_nat_digits [of 32 k] by (subst takeWhile_append2) auto
  have "dec_nat n = dec_nat n' \<and> dec_nat m = dec_nat m'" if "overflow_text n m = overflow_text n' m'"
  proof -
    have e: "dec_nat n @ 32 # (42 # 32 # dec_nat m) = dec_nat n' @ 32 # (42 # 32 # dec_nat m')"
      using that by (simp add: overflow_text_def str_bytes_def)
    then have "dec_nat n = dec_nat n'" by (metis t)
    then show ?thesis using e by simp
  qed
  then show ?thesis by (auto dest: dec_nat_inj)
qed

lemma size_text_unit: "size_text s n m \<Longrightarrow> 0 < m"
  by (auto simp: size_text_def size_units_def)

text \<open>The parser has a number and a unit that fit the grammar, or fails on the number.\<close>

lemma parse_byte_size_cases:
  obtains n m where "size_text s n m" "n < 2 ^ 64"
      "parse_byte_size s = (if n = 0 then Err (str_bytes ''value must be > 0'')
         else if n * m < 2 ^ 64 then Ok (n * m) else Err (overflow_text n m))"
  | num where "parse_byte_size s = Err (str_bytes (int_error num))"
proof -
  obtain num m where x: "split_unit (to_ascii_lowercase (trim s)) = (num, m)" by fastforce
  show thesis
  proof (cases "parse_unsigned 64 (trim num)")
    case None
    then have "parse_byte_size s = Err (str_bytes (int_error (trim num)))"
      by (simp add: parse_byte_size_def Let_def x parse_usize_def)
    then show thesis by (rule that(2))
  next
    case (Some n)
    then have n: "parse_usize (trim num) = Ok n" by (simp add: parse_usize_def)
    then have "parse_byte_size s = (if n = 0 then Err (str_bytes ''value must be > 0'')
         else if n * m < 2 ^ 64 then Ok (n * m) else Err (overflow_text n m))"
      by (simp add: parse_byte_size_def Let_def x)
    then show thesis using size_text_of_split [OF x n] that(1) by blast
  qed
qed

lemma parse_byte_size_text:
  assumes "size_text s n m" "n < 2 ^ 64"
  shows "parse_byte_size s = (if n = 0 then Err (str_bytes ''value must be > 0'')
    else if n * m < 2 ^ 64 then Ok (n * m) else Err (overflow_text n m))"
  using size_text_split [OF assms] by (auto simp: parse_byte_size_def Let_def)

lemma size_text_example: "size_text (str_bytes '' 64 Mb '') 64 1048576"
proof -
  have "spaces (str_bytes '' '')"
    unfolding spaces_def by (rule exI [of _ "[str_bytes '' '']"]) (simp add: white_space_def str_bytes_def)
  then show ?thesis
    unfolding size_text_def
    by (rule_tac x = "str_bytes '' ''" in exI, rule_tac x = "[]" in exI, rule_tac x = "str_bytes ''64''" in exI,
        rule_tac x = "str_bytes '' ''" in exI, rule_tac x = "str_bytes ''Mb''" in exI,
        rule_tac x = "str_bytes '' ''" in exI, rule_tac x = "''mb''" in exI)
      (simp add: str_bytes_def size_units_def digits_value_def ascii_lower_def)
qed

lemma parse_byte_size_example: "parse_byte_size (str_bytes '' 64 Mb '') = Ok 67108864"
  using parse_byte_size_text [OF size_text_example] by simp

text \<open>
  Claim C39. Sizes are read exactly: a text is accepted exactly when it is a number and a unit of the
  grammar (with white space around them, either case and an optional plus sign) whose
  product is positive and fits 64 bits, and is then that product; it is rejected as zero
  exactly when the number is zero, and for its size, naming both factors, exactly when the
  number fits 64 bits but the product does not.
\<close>

theorem byte_size_is_exact:
  "(parse_byte_size s = Ok k \<longleftrightarrow> (\<exists>n m. size_text s n m \<and> k = n * m \<and> 0 < k \<and> k < 2 ^ 64)) \<and>
   (parse_byte_size s = Err (str_bytes ''value must be > 0'') \<longleftrightarrow> (\<exists>m. size_text s 0 m)) \<and>
   (parse_byte_size s = Err (overflow_text n m) \<longleftrightarrow> size_text s n m \<and> n < 2 ^ 64 \<and> 2 ^ 64 \<le> n * m)"
proof -
  have factor: "n < 2 ^ 64" if "n * m < 2 ^ 64" "size_text s n m" for n m
  proof -
    have "0 < m" by (rule size_text_unit [OF that(2)])
    then have "n \<le> n * m" by simp
    then show ?thesis using that(1) by (rule le_less_trans)
  qed
  have "parse_byte_size s = Ok k" if "size_text s n m" "k = n * m" "0 < k" "k < 2 ^ 64" for n m
    using parse_byte_size_text [OF that(1)] factor [OF _ that(1)] that by auto
  moreover have "parse_byte_size s = Err (str_bytes ''value must be > 0'')" if "size_text s 0 m" for m
    using parse_byte_size_text [OF that] by simp
  moreover have "parse_byte_size s = Err (overflow_text n m)"
    if "size_text s n m" "n < 2 ^ 64" "2 ^ 64 \<le> n * m"
    using parse_byte_size_text [OF that(1,2)] that(3) by (cases "n = 0") auto
  moreover have "\<exists>n m. size_text s n m \<and> k = n * m \<and> 0 < k \<and> k < 2 ^ 64" if k: "parse_byte_size s = Ok k"
  proof (cases rule: parse_byte_size_cases [of s])
    case (1 n m)
    then have "k = n * m" "0 < n" "n * m < 2 ^ 64" using k by (auto split: if_splits)
    then show ?thesis using 1(1) size_text_unit [OF 1(1)] by auto
  qed (use k in simp)
  moreover have "\<exists>m. size_text s 0 m" if "parse_byte_size s = Err (str_bytes ''value must be > 0'')"
    by (cases rule: parse_byte_size_cases [of s]) (use that in \<open>auto split: if_splits\<close>)
  moreover have "size_text s n m \<and> n < 2 ^ 64 \<and> 2 ^ 64 \<le> n * m"
    if "parse_byte_size s = Err (overflow_text n m)"
    by (cases rule: parse_byte_size_cases [of s]) (use that in \<open>auto split: if_splits\<close>)
  ultimately show ?thesis by blast
qed

end
