(* ===== verification/Error_Text.thy ===== *)
theory Error_Text
  imports Cli_Export
begin

text \<open>
  The texts of the errors: the \<open>Display\<close> implementations of \<open>RdbError\<close>
  (\<open>crates/rdb-parser/src/types.rs\<close>), \<open>ArrowConvertError\<close>
  (\<open>crates/rdb-to-arrow/src/error.rs\<close>), \<open>RdbOpenError\<close> (\<open>crates/cli/src/io.rs\<close>),
  \<open>IoContext\<close> and \<open>CliError\<close> (\<open>crates/cli/src/cli_error.rs\<close>), and their \<open>source\<close> chains.  A \<open>CorruptData\<close> error
  keeps the format string of its message, so its text is that of the format string.
\<close>

definition bytes_text :: "bytes \<Rightarrow> string" where
  "bytes_text bs = List.map (\<lambda>b. char_of (unat b)) bs"

text \<open>The text of the standard library for a \<open>read_exact\<close> that met the end.\<close>

definition io_error_text :: "io_error \<Rightarrow> string" where
  "io_error_text e =
     (case e of UnexpectedEof \<Rightarrow> ''failed to fill whole buffer'' | SourceError s \<Rightarrow> s)"

definition rdb_error_text :: "rdb_error \<Rightarrow> string" where
  "rdb_error_text e =
     (case e of
        Io io \<Rightarrow> ''I/O error: '' @ io_error_text io
      | InvalidMagic \<Rightarrow> ''invalid RDB magic string''
      | UnsupportedVersion v \<Rightarrow> ''unsupported RDB version: '' @ bytes_text (dec_nat (unat v))
      | CorruptData msg \<Rightarrow> ''corrupt RDB data: '' @ msg
      | UnknownType t \<Rightarrow> ''unknown RDB type code: '' @ bytes_text (dec_nat (unat t)))"

definition convert_error_text :: "convert_error \<Rightarrow> string" where
  "convert_error_text e =
     (case e of
        Parser r \<Rightarrow> ''RDB parser error: '' @ rdb_error_text r
      | Arrow a \<Rightarrow> ''Arrow error: '' @ a
      | Parquet p \<Rightarrow> ''Parquet error: '' @ p
      | Convert_Io io \<Rightarrow> ''I/O error: '' @ io)"

definition io_context_text :: "io_context \<Rightarrow> string" where
  "io_context_text c = (case c of IoContext path source \<Rightarrow> path_message path source)"

definition open_error_text :: "rdb_open_error \<Rightarrow> string" where
  "open_error_text e = (case e of Open_Io c \<Rightarrow> io_context_text c | Open_Rdb r \<Rightarrow> rdb_error_text r)"

definition boxed_io_text :: "boxed_io \<Rightarrow> string" where
  "boxed_io_text e = (case e of Io_At c \<Rightarrow> io_context_text c | Io_Bare io \<Rightarrow> io)"

definition boxed_error_text :: "boxed_error \<Rightarrow> string" where
  "boxed_error_text e =
     (case e of From_Convert c \<Rightarrow> convert_error_text c | From_Parquet p \<Rightarrow> p | From_Json j \<Rightarrow> j)"

definition cli_error_text :: "cli_error \<Rightarrow> string" where
  "cli_error_text e =
     (case e of
        Usage m \<Rightarrow> bytes_text m
      | Cli_Io io \<Rightarrow> boxed_io_text io
      | Corrupt r \<Rightarrow> rdb_error_text r
      | ValidationFailed m \<Rightarrow> bytes_text m
      | Other x \<Rightarrow> boxed_error_text x)"

section \<open>Causes\<close>

text \<open>
  What \<open>source\<close> yields when it is followed to the end, as the texts of the errors.  The
  causes of an error of the standard library or of another library are a parameter, by the
  text of the error.
\<close>

type_synonym lib_causes = "string \<Rightarrow> string list"

definition rdb_causes :: "lib_causes \<Rightarrow> rdb_error \<Rightarrow> string list" where
  "rdb_causes lib e = (case e of Io io \<Rightarrow> io_error_text io # lib (io_error_text io) | _ \<Rightarrow> [])"

definition convert_causes :: "lib_causes \<Rightarrow> convert_error \<Rightarrow> string list" where
  "convert_causes lib e =
     (case e of
        Parser r \<Rightarrow> rdb_error_text r # rdb_causes lib r
      | Arrow a \<Rightarrow> a # lib a
      | Parquet p \<Rightarrow> p # lib p
      | Convert_Io io \<Rightarrow> io # lib io)"

definition io_context_causes :: "lib_causes \<Rightarrow> io_context \<Rightarrow> string list" where
  "io_context_causes lib c = (case c of IoContext path source \<Rightarrow> source # lib source)"

definition boxed_io_causes :: "lib_causes \<Rightarrow> boxed_io \<Rightarrow> string list" where
  "boxed_io_causes lib e = (case e of Io_At c \<Rightarrow> io_context_causes lib c | Io_Bare io \<Rightarrow> lib io)"

definition boxed_error_causes :: "lib_causes \<Rightarrow> boxed_error \<Rightarrow> string list" where
  "boxed_error_causes lib e =
     (case e of From_Convert c \<Rightarrow> convert_causes lib c | From_Parquet p \<Rightarrow> lib p | From_Json j \<Rightarrow> lib j)"

definition cli_causes :: "lib_causes \<Rightarrow> cli_error \<Rightarrow> string list" where
  "cli_causes lib e =
     (case e of
        Usage _ \<Rightarrow> []
      | ValidationFailed _ \<Rightarrow> []
      | Cli_Io io \<Rightarrow> boxed_io_text io # boxed_io_causes lib io
      | Corrupt r \<Rightarrow> rdb_error_text r # rdb_causes lib r
      | Other x \<Rightarrow> boxed_error_text x # boxed_error_causes lib x)"

text \<open>
  The variants that carry an error display as that error and also yield it as their
  source, so that the first cause repeats the error.
\<close>

lemma first_cause_repeats:
  "cli_causes lib e = [] \<longleftrightarrow> (\<exists>m. e = Usage m \<or> e = ValidationFailed m)"
  "cli_causes lib e \<noteq> [] \<Longrightarrow> hd (cli_causes lib e) = cli_error_text e"
  by (cases e; simp add: cli_causes_def cli_error_text_def)+

end
