(* ===== verification/Python_Binding.thy ===== *)
theory Python_Binding
  imports Error_Text
begin

text \<open>
  \<open>crates/python/src/lib.rs\<close>: the Python functions \<open>read\<close>, \<open>read_batches\<close>, \<open>to_parquet\<close> and
  \<open>inspect\<close>.  \<open>pyo3\<close> and \<open>pyarrow\<close> are parameters: \<open>pa_batch\<close> is \<open>to_pyarrow\<close>, \<open>pa_table\<close> is
  \<open>Table.from_batches\<close>.  An exception is its class with its message.  Releasing the
  interpreter lock does not show in the results and is left out, as is the module
  registration.
\<close>

section \<open>Errors\<close>

datatype py_class = PyOSError | PyValueError | PyRuntimeError | PyOtherError

type_synonym py_error = "py_class \<times> string"

datatype thread_error = T_Io string | T_Rdb rdb_error | T_Arrow convert_error

definition rdb_to_py_err :: "rdb_error \<Rightarrow> py_error" where
  "rdb_to_py_err e =
     (case e of Io io \<Rightarrow> (PyOSError, io_error_text io) | other \<Rightarrow> (PyValueError, rdb_error_text other))"

definition arrow_to_py_err :: "convert_error \<Rightarrow> py_error" where
  "arrow_to_py_err e =
     (case e of
        Convert_Io io \<Rightarrow> (PyOSError, io)
      | Parser r \<Rightarrow> rdb_to_py_err r
      | other \<Rightarrow> (PyRuntimeError, convert_error_text other))"

definition py_of_thread :: "thread_error \<Rightarrow> py_error" where
  "py_of_thread e =
     (case e of T_Io io \<Rightarrow> (PyOSError, io) | T_Rdb r \<Rightarrow> rdb_to_py_err r | T_Arrow a \<Rightarrow> arrow_to_py_err a)"

definition value_error :: "bytes \<Rightarrow> py_error" where
  "value_error m = (PyValueError, bytes_text m)"

section \<open>Configuration and opening\<close>

definition py_parse_heuristics :: "bytes \<Rightarrow> (heuristic set, py_error) res" where
  "py_parse_heuristics s = map_err value_error (heuristic_parse_set s)"

definition make_batcher_config ::
  "usize \<Rightarrow> usize option \<Rightarrow> usize option \<Rightarrow> bytes \<Rightarrow> (batcher_config, py_error) res" where
  "make_batcher_config bsize bbytes max_bytes hs =
     (if bsize = 0 then Err (PyValueError, ''batch_size must be > 0'')
      else and_then (py_parse_heuristics hs) (\<lambda>hs.
        let c = batcher_config_default\<lparr>batch_size := bsize\<rparr>;
            c = (case bbytes of Some bb \<Rightarrow> c\<lparr>batch_bytes := Some bb\<rparr> | None \<Rightarrow> c) in
        Ok (c\<lparr>max_entry_bytes := max_bytes, heuristics := hs\<rparr>)))"

definition py_open :: "'x input_env_scheme \<Rightarrow> bytes \<Rightarrow> bool \<Rightarrow> (rdb_reader, thread_error) res" where
  "py_open env path no_chunking =
     and_then (map_err T_Io (env_open env path)) (\<lambda>(input, ending).
     and_then (map_err T_Rdb (reader_new input ending)) (\<lambda>rd.
     Ok (if no_chunking then without_chunking rd else rd)))"

text \<open>The keyword arguments the functions share.\<close>

record py_options =
  po_batch_size :: usize
  po_no_chunking :: bool
  po_batch_bytes :: "usize option"
  po_max_entry_bytes :: "usize option"
  po_heuristic :: bytes

definition py_options_default :: py_options where
  "py_options_default =
     \<lparr>po_batch_size = 65536, po_no_chunking = False, po_batch_bytes = None,
      po_max_entry_bytes = None, po_heuristic = str_bytes ''all''\<rparr>"

definition options_config :: "py_options \<Rightarrow> (batcher_config, py_error) res" where
  "options_config o' =
     make_batcher_config (po_batch_size o') (po_batch_bytes o') (po_max_entry_bytes o') (po_heuristic o')"

section \<open>read\<close>

record ('b, 't) pyarrow =
  pa_import :: "(unit, py_error) res"
  pa_batch :: "record_batch \<Rightarrow> ('b, py_error) res"
  pa_table :: "'b list \<Rightarrow> ('t, py_error) res"

text \<open>The batches by tag; a \<open>BTreeMap\<close> whose lists are appended to.\<close>

fun group_batches ::
  "batch_item list \<Rightarrow> (type_tag \<rightharpoonup> record_batch list) \<Rightarrow>
   (type_tag \<rightharpoonup> record_batch list, thread_error) res" where
  "group_batches [] per_type = Ok per_type"
| "group_batches (result # rest) per_type =
     and_then (map_err T_Arrow result) (\<lambda>tb.
       group_batches rest (per_type(tb_tag tb \<mapsto> or_insert [] (per_type (tb_tag tb)) @ [tb_batch tb])))"

fun py_batches :: "('b, 't) pyarrow \<Rightarrow> record_batch list \<Rightarrow> ('b list, py_error) res" where
  "py_batches pa [] = Ok []"
| "py_batches pa (b # bs) =
     and_then (pa_batch pa b) (\<lambda>x. and_then (py_batches pa bs) (\<lambda>xs. Ok (x # xs)))"

fun py_dict ::
  "('b, 't) pyarrow \<Rightarrow> (type_tag \<times> record_batch list) list \<Rightarrow> ((string \<times> 't) list, py_error) res" where
  "py_dict pa [] = Ok []"
| "py_dict pa ((tag, batches) # rest) =
     and_then (py_batches pa batches) (\<lambda>bs.
     and_then (pa_table pa bs) (\<lambda>table.
     and_then (py_dict pa rest) (\<lambda>d. Ok ((tag_as_str tag, table) # d))))"

definition py_read ::
  "'x input_env_scheme \<Rightarrow> try_new \<Rightarrow> ('b, 't) pyarrow \<Rightarrow> bytes \<Rightarrow> py_options \<Rightarrow>
   ((string \<times> 't) list, py_error) res option" where
  "py_read env tn pa path o' =
     (case options_config o' of
        Err e \<Rightarrow> Some (Err e)
      | Panic \<Rightarrow> Some Panic
      | Ok config \<Rightarrow>
     (case py_open env path (po_no_chunking o') of
        Err e \<Rightarrow> Some (Err (py_of_thread e))
      | Panic \<Rightarrow> Some Panic
      | Ok rd \<Rightarrow>
          map_option (\<lambda>(items, _).
              and_then (map_err py_of_thread (group_batches items Map.empty)) (\<lambda>per_type.
              and_then (pa_import pa) (\<lambda>_.
              py_dict pa (in_order per_type))))
            (batch_collect tn reader_next (batcher_process (batcher_new config) rd))))"

section \<open>read_batches\<close>

definition read_batches ::
  "'x input_env_scheme \<Rightarrow> bytes \<Rightarrow> py_options \<Rightarrow> (rdb_reader batch_iterator, py_error) res" where
  "read_batches env path o' =
     and_then (options_config o') (\<lambda>config.
     and_then (map_err py_of_thread (py_open env path (po_no_chunking o'))) (\<lambda>rd.
     Ok (batcher_process (batcher_new config) rd)))"

text \<open>\<open>__next__\<close>; \<open>None\<close> when the inner call would not return.\<close>

definition batch_reader_next ::
  "try_new \<Rightarrow> ('b, 't) pyarrow \<Rightarrow> rdb_reader batch_iterator \<Rightarrow>
   (((string \<times> 'b) option, py_error) res \<times> rdb_reader batch_iterator) option" where
  "batch_reader_next tn pa it =
     map_option (\<lambda>(result, it). (case result of
         Some (Ok tb) \<Rightarrow>
           and_then (pa_batch pa (tb_batch tb)) (\<lambda>b. Ok (Some (tag_as_str (tb_tag tb), b)))
       | Some (Err e) \<Rightarrow> Err (arrow_to_py_err e)
       | Some Panic \<Rightarrow> Panic
       | None \<Rightarrow> Ok None, it))
       (batch_next tn reader_next it)"

section \<open>to_parquet\<close>

definition py_factory ::
  "('w, 'raw, 'wr) cli_env \<Rightarrow> bytes \<Rightarrow> type_tag \<Rightarrow> ('w, 'raw, convert_error) st" where
  "py_factory env out_dir tag =
     into_open Convert_Io
       (env_create env (path_join out_dir (str_bytes (tag_as_str tag) @ str_bytes ''.parquet'')))"

definition to_parquet ::
  "('w, 'raw, 'wr) cli_env \<Rightarrow> bytes \<Rightarrow> bytes \<Rightarrow> bytes \<Rightarrow> usize \<Rightarrow> py_options \<Rightarrow> 'w \<Rightarrow>
   ((unit, py_error) res \<times> 'w) option" where
  "to_parquet env path out_dir compression_arg row_group_size o' w =
     (case and_then (options_config o') (\<lambda>config.
           and_then (if row_group_size = 0 then Err (PyValueError, ''row_group_size must be > 0'')
             else Ok ()) (\<lambda>_.
           and_then (map_err value_error (parse_compression compression_arg)) (\<lambda>c.
           and_then (map_err py_of_thread (py_open env path (po_no_chunking o'))) (\<lambda>rd.
           Ok (config, c, rd))))) of
        Err e \<Rightarrow> Some (Err e, w)
      | Panic \<Rightarrow> Some (Panic, w)
      | Ok (config, c, rd) \<Rightarrow>
     (let meta = metadata_from_rdb (metadata rd) (heuristics config) in
      case env_create_dir env out_dir w of
        (Err e, w) \<Rightarrow> Some (Err (py_of_thread (T_Io e)), w)
      | (Panic, w) \<Rightarrow> Some (Panic, w)
      | (Ok _, w) \<Rightarrow>
          map_option (\<lambda>(items, _).
              case write_parquet (env_parquet env)
                  \<lparr>compression = c, max_row_group_size = row_group_size, file_metadata = meta\<rparr>
                  (py_factory env out_dir) items w of
                (r, w) \<Rightarrow> (map_err (\<lambda>e. py_of_thread (T_Arrow e)) r, w))
            (batch_collect (env_try_new env) reader_next
              (batcher_process (batcher_new config) rd))))"

section \<open>inspect\<close>

datatype py_value = PyNone | PyInt int | PyStr bytes | PyList "py_value list" | PyDict "(string \<times> py_value) list"

definition per_db_value :: "counters \<Rightarrow> u32 \<Rightarrow> py_value" where
  "per_db_value c db =
     PyDict
       [(''db'', PyInt (uint db)),
        (''keys'', PyInt (uint (or_insert 0 (per_db_keys c db)))),
        (''types'', PyDict (List.map (\<lambda>(tag, n). (tag_as_str tag, PyInt (uint n)))
          (in_order (or_insert Map.empty (per_db c db)))))]"

definition inspect_value :: "entry_summary \<Rightarrow> py_value" where
  "inspect_value s =
     (let c = es_counters s in
      PyDict
        [(''magic'', PyStr (str_bytes (magic_name (magic (es_header s))))),
         (''rdb_version'', PyInt (uint (version (es_header s)))),
         (''server_version'', case server_version (es_metadata s) of Some v \<Rightarrow> PyStr v | None \<Rightarrow> PyNone),
         (''total_keys'', PyInt (uint (total_keys c))),
         (''dbs'', PyList (List.map (per_db_value c) (sorted_list_of_set (dom (per_db c)))))])"

definition py_inspect ::
  "'x input_env_scheme \<Rightarrow> bytes \<Rightarrow> bytes \<Rightarrow> (py_value, py_error) res option" where
  "py_inspect env path heuristic =
     (case py_parse_heuristics heuristic of
        Err e \<Rightarrow> Some (Err e)
      | Panic \<Rightarrow> Some Panic
      | Ok hs \<Rightarrow>
     (case py_open env path False of
        Err e \<Rightarrow> Some (Err (py_of_thread e))
      | Panic \<Rightarrow> Some Panic
      | Ok rd \<Rightarrow>
          map_option (\<lambda>(res, _). and_then (map_err (\<lambda>e. py_of_thread (T_Rdb e)) res) (\<lambda>s. Ok (inspect_value s)))
            (summarize_entries rd hs)))"

end
