(* ===== verification/Python_Props.thy ===== *)
theory Python_Props
  imports Python_Binding Cli_Props Validate_Props
begin

text \<open>
  The properties of the Python binding: \<open>read\<close> returns the rows of the file by type, and
  \<open>to_parquet\<close> does what the command line does.
\<close>

section \<open>Grouping\<close>

lemma group_batches_spec:
  assumes "Panic \<notin> set items"
  shows "group_batches items m =
    (case errs items of
       [] \<Rightarrow> Ok (\<lambda>t. if tag_batches t (oks items) = [] then m t
                else Some (or_insert [] (m t) @ tag_batches t (oks items)))
     | e # _ \<Rightarrow> Err (T_Arrow e))"
  using assms
proof (induction items arbitrary: m)
  case (Cons x items)
  show ?case
  proof (cases x)
    case (Ok tb)
    have "Panic \<notin> set items" using Cons.prems by simp
    then show ?thesis
      unfolding Ok group_batches.simps map_err_simps and_then_simps Cons.IH [OF \<open>Panic \<notin> set items\<close>]
      by (auto simp: or_insert_def fun_eq_iff split: list.split)
  qed (use Cons.prems in simp_all)
qed simp

lemma py_batches_ok: "(\<And>b. pa_batch pa b = Ok (f b)) \<Longrightarrow> py_batches pa bs = Ok (List.map f bs)"
  by (induction bs) simp_all

lemma py_dict_ok:
  assumes "\<And>b. pa_batch pa b = Ok (f b)" "\<And>bs. pa_table pa bs = Ok (g bs)"
  shows "py_dict pa ps = Ok (List.map (\<lambda>(t, bs). (tag_as_str t, g (List.map f bs))) ps)"
proof (induction ps)
  case (Cons p ps)
  then show ?case by (cases p) (simp add: py_batches_ok [OF assms(1)] assms(2))
qed simp

lemma in_order_of:
  "in_order (\<lambda>t. if T t = [] then None else Some (T t)) =
   List.map (\<lambda>t. (t, T t)) (filter (\<lambda>t. T t \<noteq> []) tag_all)"
proof -
  have "List.concat (List.map (\<lambda>t. case (if T t = [] then None else Some (T t)) of
      Some wr \<Rightarrow> [(t, wr)] | None \<Rightarrow> []) ts) = List.map (\<lambda>t. (t, T t)) (filter (\<lambda>t. T t \<noteq> []) ts)" for ts
    by (induction ts) auto
  then show ?thesis by (simp add: in_order_def)
qed

lemma or_insert_none: "or_insert d None = d"
  by (simp add: or_insert_def)

section \<open>Opening\<close>

lemma py_open_collects:
  assumes "py_open env path nc = Ok r"
  obtains items r' where "collect r = Some (items, r')" "Panic \<notin> set items"
proof -
  obtain input ending q where q: "reader_new input ending = Ok q"
    "r = (if nc then without_chunking q else q)"
    using assms by (auto simp: py_open_def and_then_Ok_iff map_err_Ok_iff split: prod.splits)
  have "reachable input ending r"
    using q reachable.start [OF q(1)] reachable.unchunked by simp
  then show thesis using that collect_terminates by blast
qed

section \<open>A concrete environment\<close>

text \<open>The input of the examples at every path, and a \<open>pyarrow\<close> that keeps what it is given.\<close>

definition py_env :: "(unit, unit, unit) cli_env" where
  "py_env = sample_env\<lparr>env_open := (\<lambda>_. Ok (file_bytes Redis 11 export_items, UnexpectedEof))\<rparr>"

definition plain_pyarrow :: "(record_batch, record_batch list) pyarrow" where
  "plain_pyarrow = \<lparr>pa_import = Ok (), pa_batch = Ok, pa_table = Ok\<rparr>"

lemma plain_pyarrow_simps:
  "pa_import plain_pyarrow = Ok ()" "pa_batch plain_pyarrow b = Ok b" "pa_table plain_pyarrow bs = Ok bs"
  by (simp_all add: plain_pyarrow_def)

definition sample_py_config :: batcher_config where
  "sample_py_config = batcher_config_default\<lparr>batch_size := 65536, max_entry_bytes := None, heuristics := {HGeo}\<rparr>"

lemma sample_py_config: "options_config py_options_default = Ok sample_py_config"
proof -
  have "heuristic_parse_set (str_bytes ''all'') = Ok {HGeo}"
    by (simp add: heuristic_parse_set_def eq_ignore_ascii_case_def heuristic_all_def str_bytes_def ascii_lower_def)
  then show ?thesis
    by (simp add: options_config_def py_options_default_def make_batcher_config_def
        py_parse_heuristics_def sample_py_config_def)
qed

lemma sample_py_open:
  obtains r r' where "py_open py_env path (po_no_chunking py_options_default) = Ok r"
    "collect r = Some (entries (Some DEFAULT_MAX_KEY_ELEMENTS) ctx0 export_items, r')"
  by (rule sample_opens) (rule that, simp_all add: py_open_def py_env_def py_options_default_def)

section \<open>Properties\<close>

text \<open>
  Claim C28. Python's \<open>read\<close> returns the file by type: a dictionary with an entry for exactly the
  types that have rows, in the order of the types, each a table whose batches hold the rows
  of the entries of the type, in order; or the exception for the first error of the reader
  that is not an unsupported type.
\<close>

theorem python_read_by_type:
  assumes "options_config opts = Ok cfg" "py_open env path (po_no_chunking opts) = Ok r"
    "collect r = Some (items, r')" "try_new_accepts tn" "pa_import pa = Ok ()"
    and "\<And>b. pa_batch pa b = Ok (f b)" "\<And>bs. pa_table pa bs = Ok (g bs)"
  shows "\<exists>T. (\<forall>t. List.concat (List.map batch_rows (T t)) =
        List.concat (List.map (routed_rows cfg t) (oks items))) \<and>
    py_read env tn pa path opts =
      Some (case filter (\<lambda>e. \<not> unsupported e) (errs items) of
          [] \<Rightarrow> Ok (List.map (\<lambda>t. (tag_as_str t, g (List.map f (T t)))) (filter (\<lambda>t. T t \<noteq> []) tag_all))
        | e # _ \<Rightarrow> Err (rdb_to_py_err e))"
proof -
  have np: "Panic \<notin> set items"
    using py_open_collects [OF assms(2)] assms(3) by (metis option.inject prod.inject)
  obtain os it where c: "batch_collect tn reader_next (batcher_process (batcher_new cfg) r) = Some (os, it)"
    and ok: "run_ok cfg (\<lambda>_. []) 0 items os (bi_batcher it)"
    using batch_collect_new [OF collect_supplies [OF assms(3)] np assms(4), of cfg] by blast
  let ?T = "\<lambda>t. tag_batches t (oks os)"
  have e: "errs os = List.map Parser (filter (\<lambda>e. \<not> unsupported e) (errs items))" "Panic \<notin> set os"
    using ok by (simp_all add: run_ok_def)
  have r: "List.concat (List.map batch_rows (?T t)) = List.concat (List.map (routed_rows cfg t) (oks items))" for t
    using ok by (simp add: run_ok_def rows_of_batches)
  have g: "group_batches os Map.empty = (case filter (\<lambda>e. \<not> unsupported e) (errs items) of
       [] \<Rightarrow> Ok (\<lambda>t. if ?T t = [] then None else Some (?T t))
     | e # _ \<Rightarrow> Err (T_Arrow (Parser e)))"
    unfolding group_batches_spec [OF e(2)] e(1)
    by (simp add: or_insert_none cong: if_cong split: list.split)
  have "py_read env tn pa path opts =
      Some (case filter (\<lambda>e. \<not> unsupported e) (errs items) of
          [] \<Rightarrow> Ok (List.map (\<lambda>t. (tag_as_str t, g (List.map f (?T t)))) (filter (\<lambda>t. ?T t \<noteq> []) tag_all))
        | e # _ \<Rightarrow> Err (rdb_to_py_err e))"
    by (simp add: py_read_def assms(1,2,5) c g py_dict_ok [OF assms(6,7)] in_order_of comp_def
        py_of_thread_def arrow_to_py_err_def split: list.split)
  then show ?thesis using r by (intro exI [of _ ?T]) simp
qed

theorem python_read_by_type_witness:
  "\<exists>T. py_read py_env strict_try_new plain_pyarrow (str_bytes ''dump.rdb'') py_options_default =
      Some (Ok (List.map (\<lambda>t. (tag_as_str t, T t)) (filter (\<lambda>t. T t \<noteq> []) tag_all)))"
proof -
  obtain r r' where r: "py_open py_env (str_bytes ''dump.rdb'') (po_no_chunking py_options_default) = Ok r"
    "collect r = Some (entries (Some DEFAULT_MAX_KEY_ELEMENTS) ctx0 export_items, r')"
    by (rule sample_py_open)
  have "filter (\<lambda>e. \<not> unsupported e) (errs (entries (Some DEFAULT_MAX_KEY_ELEMENTS) ctx0 export_items)) = []"
    by (rule file_items(1) [OF export_items_ok])
  then show ?thesis
    using python_read_by_type [OF sample_py_config r strict_try_new_accepts plain_pyarrow_simps]
    by auto
qed

text \<open>The command line for the same request.\<close>

definition cli_of_py :: "bytes \<Rightarrow> bytes \<Rightarrow> compression_arg \<Rightarrow> usize \<Rightarrow> py_options \<Rightarrow> export_args" where
  "cli_of_py path dir c rows opts =
     \<lparr>xa_file = path, xa_output = Some dir, xa_format = FParquet, xa_compression = c,
      xa_db = None, xa_type_names = None, xa_key_pattern = None,
      xa_batch_size = po_batch_size opts, xa_row_group_size = rows, xa_shard_id = None,
      xa_max_key_elements = None, xa_no_chunking = po_no_chunking opts,
      xa_batch_bytes = po_batch_bytes opts, xa_max_entry_bytes = po_max_entry_bytes opts,
      xa_heuristic = po_heuristic opts\<rparr>"

lemma cli_of_py_simps [simp]:
  "xa_file (cli_of_py path dir c rows opts) = path"
  "output_dir (cli_of_py path dir c rows opts) = dir"
  "xa_no_chunking (cli_of_py path dir c rows opts) = po_no_chunking opts"
  "xa_max_key_elements (cli_of_py path dir c rows opts) = None"
  by (simp_all add: cli_of_py_def output_dir_def)

lemma options_config_ok:
  assumes "options_config opts = Ok cfg"
  obtains hs where "heuristic_parse_set (po_heuristic opts) = Ok hs" "heuristics cfg = hs"
    "export_config (cli_of_py path dir c rows opts) hs = cfg"
proof -
  obtain hs where hs: "heuristic_parse_set (po_heuristic opts) = Ok hs"
    using assms by (auto simp: options_config_def make_batcher_config_def py_parse_heuristics_def
        and_then_Ok_iff map_err_Ok_iff split: if_splits)
  have "export_config (cli_of_py path dir c rows opts) hs = cfg" "heuristics cfg = hs"
    using assms hs by (auto simp: options_config_def make_batcher_config_def py_parse_heuristics_def
        export_config_def cli_of_py_def Let_def split: if_splits)
  then show thesis using hs that by blast
qed

lemma unfiltered_items:
  assumes "supplies reader_next r items r'"
    and "batch_collect (env_try_new env) reader_next (batcher_process (batcher_new (export_config args hs)) r) = Some (os, it)"
    and "xa_db args = None" "xa_key_pattern args = None"
  shows "export_items_of env args None hs r = Some os"
proof -
  let ?cfg = "export_config args hs" and ?f = "export_filter args None hs"
  have "matches (env_glob env) ?f = (\<lambda>e. True)"
    by (simp add: fun_eq_iff matches_def export_filter_def assms(3,4))
  then have "passes (env_glob env) ?f = (\<lambda>x. True)"
    by (simp add: fun_eq_iff passes_def split: res.split)
  then have s: "supplies (filtered_source (env_glob env) ?f reader_next) r items r'"
    using filtered_supplies [OF assms(1), of "env_glob env" ?f] by simp
  let ?it = "batcher_process (batcher_new ?cfg) r"
  have it: "bi_iter ?it = r" "\<not> bi_finished ?it" "bi_pending ?it = []" "bi_batcher ?it = batcher_new ?cfg"
    by (simp_all add: batcher_process_def)
  have "fst (outputs (env_try_new env) (batcher_new ?cfg) items) = os"
    using batch_collect_outputs [of reader_next ?it items r' "env_try_new env"] assms(1,2) it
    by (auto split: prod.splits)
  then show ?thesis
    using batch_collect_outputs [of "filtered_source (env_glob env) ?f reader_next" ?it items r' "env_try_new env"] s it
    by (auto simp: export_items_of_def selected_def split: prod.splits)
qed

lemma factories_agree:
  assumes "\<And>p w. \<exists>x w'. env_create env p w = (Ok x, w')"
  shows "writer_factory env (cli_of_py path dir c rows opts) = py_factory env dir"
proof (intro ext)
  fix t w
  let ?p = "path_join dir (str_bytes (tag_as_str t) @ str_bytes ''.parquet'')"
  obtain x w' where "env_create env ?p w = (Ok x, w')" using assms by blast
  moreover have "output_name t None ''parquet'' = str_bytes (tag_as_str t) @ str_bytes ''.parquet''"
    by (simp add: output_name_def shard_suffix_def str_bytes_def)
  moreover have "xa_shard_id (cli_of_py path dir c rows opts) = None"
    "xa_format (cli_of_py path dir c rows opts) = FParquet"
    by (simp_all add: cli_of_py_def)
  ultimately show "writer_factory env (cli_of_py path dir c rows opts) t w = py_factory env dir t w"
    by (simp add: writer_factory_def py_factory_def into_open_def format_ext_def Let_def)
qed

lemma compression_agrees:
  obtains pc where "parse_compression (str_bytes (compression_name c)) = Ok pc"
    "(to_parquet_compression c :: (compression, convert_error) res) = Ok pc"
proof -
  have "(to_parquet_compression c :: (compression, convert_error) res) \<noteq> Panic"
    "(to_parquet_compression c :: (compression, convert_error) res) \<noteq> Err e" for e
    by (simp_all split: compression_arg.splits)
  then show thesis
    by (auto simp: to_parquet_compression_def that simp del: to_parquet_compression_ok split: res.splits)
qed

text \<open>
  Claim C27. Python's \<open>to_parquet\<close> is the export of the command line: with the same options, when
  files can be created and the input opens, both end with the same outcome, up to how each
  reports an error, and leave the same files.
\<close>

theorem python_export_is_cli_export:
  assumes "options_config opts = Ok cfg" "0 < rows"
    and "py_open env path (po_no_chunking opts) = Ok r" "path \<noteq> str_bytes ''-''"
    and "try_new_accepts (env_try_new env)"
    and "\<And>p w. \<exists>x w'. env_create env p w = (Ok x, w')" "env_create_dir env dir w = (Ok (), w1)"
  shows "\<exists>res out w'.
    export_run env (cli_of_py path dir c rows opts) w = Some (map_err cli_of_convert res, out, w') \<and>
    to_parquet env path dir (str_bytes (compression_name c)) rows opts w =
      Some (map_err arrow_to_py_err res, w')"
proof -
  let ?args = "cli_of_py path dir c rows opts"
  obtain hs where hs: "heuristic_parse_set (po_heuristic opts) = Ok hs" "heuristics cfg = hs"
    "export_config ?args hs = cfg"
    by (rule options_config_ok [OF assms(1)])
  have check: "check_args ?args = Ok (None, hs)"
    by (simp add: check_args_def cli_of_py_def hs(1))
  have "open_reader env ?args = Ok r"
  proof -
    obtain input ending q where q: "env_open env path = Ok (input, ending)" "reader_new input ending = Ok q"
      "r = (if po_no_chunking opts then without_chunking q else q)"
      using assms(3) by (auto simp: py_open_def and_then_Ok_iff map_err_Ok_iff split: prod.splits)
    then show ?thesis
      using assms(4) by (simp add: open_reader_def build_rdb_reader_def open_rdb_input_def open_file_def)
  qed
  note op = this
  obtain items r' where col: "collect r = Some (items, r')" "Panic \<notin> set items"
    by (rule py_open_collects [OF assms(3)])
  obtain os it where bc: "batch_collect (env_try_new env) reader_next (batcher_process (batcher_new cfg) r) = Some (os, it)"
    using batch_collect_new [OF collect_supplies [OF col(1)] col(2) assms(5), of cfg] by blast
  have items: "export_items_of env ?args None hs r = Some os"
    by (rule unfiltered_items [OF collect_supplies [OF col(1)]])
      (simp_all add: hs(3) bc, simp_all add: cli_of_py_def)
  obtain pc where pc: "parse_compression (str_bytes (compression_name c)) = Ok pc"
    "(to_parquet_compression c :: (compression, convert_error) res) = Ok pc"
    by (rule compression_agrees)
  obtain res w2 where wp: "write_parquet (env_parquet env)
      \<lparr>compression = pc, max_row_group_size = rows, file_metadata = metadata_from_rdb (metadata r) hs\<rparr>
      (py_factory env dir) os w1 = (res, w2)"
    by (metis prod.exhaust)
  have "write_output env ?args (metadata_from_rdb (metadata r) hs) os w1 = (res, w2)"
    unfolding write_output_def factories_agree [OF assms(6)]
    by (simp add: cli_of_py_def pc(2) wp del: to_parquet_compression_ok)
  then have cli: "\<exists>out. export_run env ?args w = Some (map_err cli_of_convert res, out, w2)"
    using export_run_ok [OF check op _ items, of w w1] assms(7)
    by (cases res) (auto simp: map_err_def)
  have "to_parquet env path dir (str_bytes (compression_name c)) rows opts w =
      Some (map_err arrow_to_py_err res, w2)"
    using assms(2) by (simp add: to_parquet_def assms(1,3,7) pc(1) Let_def hs(2) bc wp py_of_thread_def)
  then show ?thesis using cli by blast
qed

theorem python_export_is_cli_export_witness:
  "\<exists>res out w'.
    export_run py_env (cli_of_py (str_bytes ''dump.rdb'') (str_bytes ''out'') CGzip 1000 py_options_default) () =
      Some (map_err cli_of_convert res, out, w') \<and>
    to_parquet py_env (str_bytes ''dump.rdb'') (str_bytes ''out'') (str_bytes (compression_name CGzip)) 1000
        py_options_default () = Some (map_err arrow_to_py_err res, w')"
proof -
  obtain r r' where r: "py_open py_env (str_bytes ''dump.rdb'') (po_no_chunking py_options_default) = Ok r"
    by (rule sample_py_open)
  show ?thesis
    by (rule python_export_is_cli_export [OF sample_py_config _ r])
      (simp_all add: py_env_def sample_env_def strict_try_new_accepts st_ret_def str_bytes_def)
qed

end
