(* ===== verification/Cli_Main.thy ===== *)
theory Cli_Main
  imports Error_Text Cli_Schema Cli_Validate
begin

text \<open>
  \<open>crates/cli/src/main.rs\<close>: the subcommands, and how the process ends.  Parsing the command
  line is clap's; the model starts at its result.
\<close>

datatype command =
    Export_Cmd export_args
  | Schema_Cmd schema_args
  | Validate_Cmd bytes bytes

text \<open>What a command leaves: its lines on stdout and on stderr, its result and the world.\<close>

definition run_command ::
  "('w, 'raw, 'wr) cli_env \<Rightarrow> 'f validate_env \<Rightarrow> render \<Rightarrow> command \<Rightarrow> 'w \<Rightarrow>
   ((unit, cli_error) res \<times> bytes list \<times> bytes list \<times> 'w) option" where
  "run_command env venv rd cmd w =
     (case cmd of
        Export_Cmd a \<Rightarrow> map_option (\<lambda>(res, err, w). (res, [], err, w)) (export_run env a w)
      | Schema_Cmd a \<Rightarrow>
          Some (case schema_run rd a of
              Ok out \<Rightarrow> (Ok (), out, [], w) | Err e \<Rightarrow> (Err e, [], [], w) | Panic \<Rightarrow> (Panic, [], [], w))
      | Validate_Cmd file out \<Rightarrow>
          map_option (\<lambda>(res, err). (res, [], err, w)) (validate_run venv file out))"

text \<open>The lines for the result and the exit status; \<open>None\<close> is the abort of a panic.\<close>

definition main_end :: "lib_causes \<Rightarrow> (unit, cli_error) res \<Rightarrow> (string list \<times> int) option" where
  "main_end lib result =
     (case result of
        Ok _ \<Rightarrow> Some ([], 0)
      | Err e \<Rightarrow> Some ((''error: '' @ cli_error_text e) #
          List.map (\<lambda>c. ''  caused by: '' @ c) (cli_causes lib e), exit_code e)
      | Panic \<Rightarrow> None)"

lemma main_end_status:
  "main_end lib result = Some (ls, 0) \<longleftrightarrow> result = Ok () \<and> ls = []"
proof (cases result)
  case (Err e)
  then show ?thesis using exit_codes_distinct(1) [of e] by (simp add: main_end_def)
qed (auto simp: main_end_def)

end
