(* ===== verification/Float_Laws.thy ===== *)
theory Float_Laws
  imports Complex_Main Float64
begin

text \<open>
  The arithmetic of Float64 against the real numbers: the value of a finite \<open>f64\<close>, how far
  a rounded result is from the exact one, and when it is exact.
\<close>

section \<open>Values\<close>

definition f64_val :: "f64 \<Rightarrow> real" where
  "f64_val x = real_of_int (f64_num x) / real (f64_den x)"

definition mag_val :: "f64 \<Rightarrow> real" where
  "mag_val x = real (fst (f64_mag x)) / real (f64_den x)"

lemma f64_val_mag: "f64_val x = (if f64_neg x then - mag_val x else mag_val x)"
  by (simp add: f64_val_def mag_val_def f64_num_def)

lemma f64_den_pos: "0 < f64_den x"
  by (simp add: f64_den_def f64_mag_def Let_def)

lemma mag_val_nonneg [simp]: "0 \<le> mag_val x"
  by (simp add: mag_val_def)

lemma powi_minus: "(2::real) powi (- int n) = 1 / 2 ^ n"
  by (simp add: power_int_minus divide_inverse)

lemma powi_Suc: "(2::real) powi (a + 1) = 2 * 2 powi a"
  by (simp add: power_int_add)

lemma powi_add: "(2::real) powi (a + b) = 2 powi a * 2 powi b"
  by (simp add: power_int_add)

lemma mag_val_fields:
  "mag_val x = real (if f64_exp x = 0 then f64_frac x else 2 ^ 52 + f64_frac x) *
     2 powi (int (max 1 (f64_exp x)) - 1075)"
proof (cases "1075 \<le> max 1 (f64_exp x)")
  case True
  then have "int (max 1 (f64_exp x)) - 1075 = int (max 1 (f64_exp x) - 1075)" by simp
  then have "(2::real) powi (int (max 1 (f64_exp x)) - 1075) = 2 ^ (max 1 (f64_exp x) - 1075)"
    by (metis power_int_of_nat)
  moreover have "1075 \<le> f64_exp x" using True by (simp add: max_def split: if_splits)
  ultimately show ?thesis
    by (simp add: mag_val_def f64_den_def f64_mag_def Let_def)
next
  case False
  then have "int (max 1 (f64_exp x)) - 1075 = - int (1075 - max 1 (f64_exp x))" by simp
  then have "(2::real) powi (int (max 1 (f64_exp x)) - 1075) = 1 / 2 ^ (1075 - max 1 (f64_exp x))"
    by (metis powi_minus)
  then show ?thesis
    using False by (simp add: mag_val_def f64_den_def f64_mag_def Let_def)
qed

text \<open>The fields of an assembled float.\<close>

lemma of_mag_fields:
  assumes "E < 2 ^ 11" "f < 2 ^ 52"
  shows "f64_neg (f64_of_mag neg (E * 2 ^ 52 + f)) = neg"
    "f64_exp (f64_of_mag neg (E * 2 ^ 52 + f)) = E"
    "f64_frac (f64_of_mag neg (E * 2 ^ 52 + f)) = f"
proof -
  let ?m = "E * 2 ^ 52 + f" and ?s = "if neg then 2 ^ 63 else (0::nat)"
  have "E * 2 ^ 52 \<le> (2 ^ 11 - 1) * 2 ^ 52" using assms(1) by (intro mult_le_mono1) simp
  then have m: "?m < 2 ^ 63" using assms(2) by simp
  have u: "unat (f64_of_mag neg ?m) = ?s + ?m"
    using m by (simp add: f64_of_mag_def unsigned_of_nat take_bit_nat_eq_self_iff del: of_nat_add)
  have top: "((if neg then p else 0) + y) div p = (if neg then 1 else 0)" if "y < p" for p y :: nat
    using that by simp
  have "(?s + ?m) div 2 ^ 63 = (if neg then 1 else 0)"
    by (rule top [OF m])
  then have "bit (?s + ?m) 63 = neg"
    unfolding bit_iff_odd by (cases neg) simp_all
  then have "bit (unat (f64_of_mag neg ?m)) 63 = neg" unfolding u .
  then show "f64_neg (f64_of_mag neg ?m) = neg"
    by (simp add: f64_neg_def bit_unsigned_iff)
  have low: "(a * p + (E * p + y)) div p = a + E" "(a * p + (E * p + y)) mod p = y"
    if "y < p" for a p y :: nat
  proof -
    have e: "a * p + (E * p + y) = y + (a + E) * p" by (simp add: distrib_right)
    show "(a * p + (E * p + y)) div p = a + E" unfolding e using that by (subst div_mult_self1) auto
    show "(a * p + (E * p + y)) mod p = y" unfolding e using that by (subst mod_mult_self1) auto
  qed
  have s: "?s = (if neg then 2 ^ 11 else 0) * 2 ^ 52" by simp
  show "f64_exp (f64_of_mag neg ?m) = E"
    unfolding f64_exp_def u s low(1) [OF assms(2)] using assms(1) by simp
  show "f64_frac (f64_of_mag neg ?m) = f"
    unfolding f64_frac_def u s by (rule low(2) [OF assms(2)])
qed

lemma val_from_fields:
  assumes "f64_neg w = neg" "f64_exp w = x" "f64_frac w = y" "x < 2047"
    "real (if x = 0 then y else 2 ^ 52 + y) * 2 powi (int (max 1 x) - 1075) = v"
  shows "f64_val w = (if neg then - 1 else 1) * v" "f64_is_finite w"
proof -
  have "mag_val w = v" unfolding mag_val_fields assms(2,3) by (rule assms(5))
  then show "f64_val w = (if neg then - 1 else 1) * v" by (simp add: f64_val_mag assms(1))
  show "f64_is_finite w" by (simp add: f64_is_finite_def assms(2,4))
qed

lemma of_mag_val:
  assumes "q \<le> 2 ^ 53" "0 < E \<Longrightarrow> 2 ^ 52 \<le> q" "E < 2045"
  shows "f64_val (f64_of_mag neg (E * 2 ^ 52 + q)) =
      (if neg then - 1 else 1) * (real q * 2 powi (int E - 1074)) \<and>
    f64_is_finite (f64_of_mag neg (E * 2 ^ 52 + q))"
proof (cases "q < 2 ^ 52")
  case True
  then have E: "E = 0" using assms(2) by fastforce
  show ?thesis
    using val_from_fields [OF of_mag_fields [of 0 q neg], of "real q * 2 powi (- 1074)"] True
    unfolding E by simp
next
  case q52: False
  show ?thesis
  proof (cases "q < 2 ^ 53")
    case True
    have e: "E * 2 ^ 52 + q = Suc E * 2 ^ 52 + (q - 2 ^ 52)" using q52 by simp
    have b: "Suc E < 2 ^ 11" "q - 2 ^ 52 < 2 ^ 52" using assms(3) True by simp_all
    have "real (2 ^ 52 + (q - 2 ^ 52)) = real q" using q52 by simp
    then show ?thesis
      unfolding e using val_from_fields [OF of_mag_fields [OF b, of neg]] assms(3) by simp
  next
    case False
    have q: "q = 2 ^ 53" using False assms(1) by simp
    have e: "E * 2 ^ 52 + q = (E + 2) * 2 ^ 52 + 0" by (simp add: q)
    have b: "E + 2 < 2 ^ 11" "0 < (2::nat) ^ 52" using assms(3) by simp_all
    have "int (E + 2) - 1075 = (int E - 1074) + 1" by simp
    then have "(2::real) powi (int (E + 2) - 1075) = 2 * 2 powi (int E - 1074)"
      by (metis powi_Suc)
    then have "real (2 ^ 52 + 0) * 2 powi (int (E + 2) - 1075) = real q * 2 powi (int E - 1074)"
      by (simp add: q)
    then show ?thesis
      unfolding e using val_from_fields [OF of_mag_fields [OF b, of neg]] assms(3) by simp
  qed
qed

section \<open>Rounding\<close>

lemma bit_len_upper: "n < 2 ^ bit_len n"
  by (induction n rule: bit_len.induct) (subst bit_len.simps, auto)

lemma bit_len_lower: "0 < n \<Longrightarrow> 2 ^ bit_len n \<le> 2 * n"
proof (induction n rule: bit_len.induct)
  case (1 n)
  show ?case
  proof (cases "n = 1")
    case False
    then have "2 ^ bit_len (n div 2) \<le> 2 * (n div 2)" using 1 by auto
    then show ?thesis using 1(2) by (subst bit_len.simps) simp
  qed (simp add: bit_len.simps)
qed

lemma scaled_real:
  assumes "scaled n d e = (a, b)" "0 < d"
  shows "0 < b" "real a / real b = real n / real d * 2 powi (- e)"
proof -
  have ab: "a = n * 2 ^ nat (- e)" "b = d * 2 ^ nat e" using assms(1) by (simp_all add: scaled_def)
  show "0 < b" using assms(2) by (simp add: ab)
  show "real a / real b = real n / real d * 2 powi (- e)"
  proof (cases "0 \<le> e")
    case True
    then have "(2::real) powi (- e) = 1 / 2 ^ nat e" using powi_minus [of "nat e"] by simp
    then show ?thesis using True by (simp add: ab)
  next
    case False
    then have "(2::real) powi (- e) = 2 ^ nat (- e)" by (simp add: power_int_def)
    then show ?thesis using False by (simp add: ab)
  qed
qed

lemma powi_less_iff: "(2::real) powi a < 2 powi b \<longleftrightarrow> a < b"
  by (meson linorder_not_less one_less_numeral_iff order_less_imp_le power_int_increasing
      power_int_strict_increasing semiring_norm(76))

lemma powi_cancel: "x * 2 powi (- e) < y \<longleftrightarrow> x < y * 2 powi e" "y \<le> x * 2 powi (- e) \<longleftrightarrow> y * 2 powi e \<le> x"
  for x y :: real
  by (simp_all add: power_int_minus field_simps)

lemma quotient_bounds:
  assumes "0 < n" "0 < d"
  defines "k \<equiv> int (bit_len n) - int (bit_len d)"
  shows "real n / real d < 2 powi (k + 1)" "2 powi (k - 1) < real n / real d"
proof -
  have p: "(2::real) powi k = 2 ^ bit_len n / 2 ^ bit_len d"
    by (simp add: k_def power_int_diff)
  have n: "real n < 2 ^ bit_len n" "2 ^ bit_len n \<le> 2 * real n"
    using bit_len_upper [of n] bit_len_lower [OF assms(1)]
    by (metis of_nat_less_iff of_nat_numeral of_nat_power)
      (metis bit_len_lower [OF assms(1)] of_nat_le_iff of_nat_mult of_nat_numeral of_nat_power)
  have d: "real d < 2 ^ bit_len d" "2 ^ bit_len d \<le> 2 * real d"
    using bit_len_upper [of d] bit_len_lower [OF assms(2)]
    by (metis of_nat_less_iff of_nat_numeral of_nat_power)
      (metis bit_len_lower [OF assms(2)] of_nat_le_iff of_nat_mult of_nat_numeral of_nat_power)
  have "real n * 2 ^ bit_len d < 2 ^ bit_len n * 2 ^ bit_len d" using n(1) by simp
  also have "\<dots> \<le> 2 ^ bit_len n * (2 * real d)" using d(2) by simp
  finally show "real n / real d < 2 powi (k + 1)"
    unfolding powi_Suc p using assms(2) by (simp add: field_simps)
  have "2 ^ bit_len n * real d < 2 ^ bit_len n * 2 ^ bit_len d" using d(1) by simp
  also have "\<dots> \<le> 2 * real n * 2 ^ bit_len d" using n(2) by simp
  finally have "2 powi k < 2 * (real n / real d)"
    using assms(2) by (simp add: p field_simps)
  then show "2 powi (k - 1) < real n / real d"
    using powi_Suc [of "k - 1"] by simp
qed

lemma div_less_real:
  fixes a b :: nat
  assumes "0 < b"
  shows "a div b < c \<longleftrightarrow> real a / real b < real c"
proof -
  have "a div b < c \<longleftrightarrow> a < c * b" using assms by (rule div_less_iff_less_mult)
  also have "\<dots> \<longleftrightarrow> real a < real c * real b" by (metis of_nat_less_iff of_nat_mult)
  also have "\<dots> \<longleftrightarrow> real a / real b < real c" using assms by (simp add: field_simps)
  finally show ?thesis .
qed

text \<open>The exponent: the significand has 53 bits, or the exponent is the smallest one.\<close>

lemma round_exp_spec:
  assumes "0 < n" "0 < d" and v: "v = real n / real d"
  shows "- 1074 \<le> round_exp n d" "v < 2 powi (53 + round_exp n d)"
    "- 1074 < round_exp n d \<Longrightarrow> 2 powi (52 + round_exp n d) \<le> v"
proof -
  define k where "k = int (bit_len n) - int (bit_len d)"
  define e where "e = max (- 1074) (k - 53)"
  obtain a b where ab: "scaled n d e = (a, b)" by (cases "scaled n d e")
  note sc = scaled_real [OF ab assms(2)]
  have "(a div b < 2 ^ 53) \<longleftrightarrow> v * 2 powi (- e) < 2 ^ 53"
    unfolding div_less_real [OF sc(1)] sc(2) v by simp
  also have "\<dots> \<longleftrightarrow> v < 2 powi (53 + e)"
    by (simp add: powi_cancel power_int_add)
  finally have r: "round_exp n d = (if v < 2 powi (53 + e) then e else e + 1)"
    unfolding round_exp_def Let_def k_def [symmetric] e_def [symmetric] ab by simp
  have up: "v < 2 powi (54 + e)"
  proof -
    have "v < 2 powi (k + 1)" using quotient_bounds(1) [OF assms(1,2)] by (simp add: v k_def)
    also have "\<dots> \<le> 2 powi (54 + e)" by (rule power_int_increasing) (auto simp: e_def)
    finally show ?thesis .
  qed
  have lo: "- 1074 < e \<Longrightarrow> 2 powi (52 + e) \<le> v"
    using quotient_bounds(2) [OF assms(1,2)] by (simp add: e_def v k_def max_def split: if_splits)
  show "- 1074 \<le> round_exp n d" by (auto simp: r e_def max_def)
  show "v < 2 powi (53 + round_exp n d)" using up by (simp add: r algebra_simps)
  show "2 powi (52 + round_exp n d) \<le> v" if "- 1074 < round_exp n d"
    using that lo by (auto simp: r algebra_simps split: if_splits)
qed

lemma round_exp_le:
  assumes "0 < n" "0 < d" "real n / real d < 2 powi (53 + e)" "- 1074 \<le> e"
  shows "round_exp n d \<le> e"
proof (rule ccontr)
  assume c: "\<not> round_exp n d \<le> e"
  then have "2 powi (52 + round_exp n d) < (2::real) powi (53 + e)"
    using round_exp_spec(3) [OF assms(1,2) refl] assms(3,4) by linarith
  then show False using c by (simp add: powi_less_iff)
qed

lemma round_div_near:
  assumes "0 < b"
  shows "\<bar>real (round_div (a, b)) - real a / real b\<bar> \<le> 1 / 2"
    and "real a / real b = real m \<Longrightarrow> round_div (a, b) = m"
proof -
  define q r where "q = a div b" and "r = a mod b"
  have a: "real a = real q * real b + real r"
    unfolding q_def r_def by (metis div_mult_mod_eq of_nat_add of_nat_mult)
  have r: "r < b" using assms by (simp add: r_def)
  have v: "real a / real b = real q + real r / real b"
    using assms by (simp add: a field_simps)
  have rd: "round_div (a, b) = (if b < 2 * r \<or> 2 * r = b \<and> odd q then q + 1 else q)"
    by (simp add: round_div_def q_def r_def Let_def)
  have key: "\<bar>real (if c then q + 1 else q) - (real q + f)\<bar> \<le> 1 / 2"
    if "0 \<le> f" "c \<Longrightarrow> 1 / 2 \<le> f \<and> f \<le> 1" "\<not> c \<Longrightarrow> f \<le> 1 / 2" for c f
    using that by (cases c) auto
  show "\<bar>real (round_div (a, b)) - real a / real b\<bar> \<le> 1 / 2"
    unfolding v rd
    by (rule key) (use assms r in \<open>auto simp: field_simps\<close>)
  assume "real a / real b = real m"
  then have "real a = real (m * b)" using assms by (simp add: field_simps)
  then have "a = m * b" by (metis of_nat_eq_iff)
  then have "q = m" "r = 0" using assms by (simp_all add: q_def r_def)
  then show "round_div (a, b) = m" using assms by (simp add: rd)
qed

text \<open>
  A quotient below \<open>2 ^ 900\<close> is rounded to a multiple \<open>q\<close> of a power of two, at most half of
  it away; exactly, if it is such a multiple itself.
\<close>

lemma round_f64_cases:
  assumes "0 < n" "0 < d" "real n / real d < 2 powi 900"
  obtains q where
    "f64_val (round_f64 neg n d) = (if neg then - 1 else 1) * (real q * 2 powi round_exp n d)"
    "\<bar>real q - real n / real d * 2 powi (- round_exp n d)\<bar> \<le> 1 / 2"
    "\<And>m. real n / real d * 2 powi (- round_exp n d) = real m \<Longrightarrow> q = m"
    "f64_is_finite (round_f64 neg n d)"
proof -
  define e where "e = round_exp n d"
  define v where "v = real n / real d"
  obtain a b where ab: "scaled n d e = (a, b)" by (cases "scaled n d e")
  note sc = scaled_real [OF ab assms(2), folded v_def]
  define q where "q = round_div (a, b)"
  note sp = round_exp_spec [OF assms(1,2) v_def, folded e_def]
  have near: "\<bar>real q - v * 2 powi (- e)\<bar> \<le> 1 / 2"
    using round_div_near(1) [OF sc(1), of a] unfolding sc(2) q_def .
  have "v * 2 powi (- e) < 2 ^ 53"
    using sp(2) by (simp add: powi_cancel power_int_add)
  then have "real q < 2 ^ 53 + 1" using near by linarith
  then have "real q < real (2 ^ 53 + 1)" by simp
  then have "q < 2 ^ 53 + 1" by (simp only: of_nat_less_iff)
  then have q53: "q \<le> 2 ^ 53" by simp
  have q52: "2 ^ 52 \<le> q" if "0 < nat (e + 1074)"
  proof -
    have "2 ^ 52 \<le> v * 2 powi (- e)"
      using sp(3) that by (simp add: powi_cancel power_int_add)
    then have "2 ^ 52 < real q + 1" using near by linarith
    then have "real (2 ^ 52) < real (q + 1)" by simp
    then have "2 ^ 52 < q + 1" by (simp only: of_nat_less_iff)
    then show ?thesis by simp
  qed
  have "e \<le> 847"
    unfolding e_def using round_exp_le [OF assms(1,2), of 847] assms(3) by simp
  then have E: "nat (e + 1074) < 2045" by simp
  have "nat (e + 1074) * 2 ^ 52 \<le> 2044 * 2 ^ 52" using E by (intro mult_le_mono1) simp
  then have "round_mag n d = nat (e + 1074) * 2 ^ 52 + q"
    using assms(1) q53 by (simp add: round_mag_def Let_def ab q_def flip: e_def)
  then have r: "round_f64 neg n d = f64_of_mag neg (nat (e + 1074) * 2 ^ 52 + q)"
    by (simp add: round_f64_def)
  have "int (nat (e + 1074)) - 1074 = e" using sp(1) by simp
  then have "f64_val (round_f64 neg n d) = (if neg then - 1 else 1) * (real q * 2 powi e)"
    "f64_is_finite (round_f64 neg n d)"
    using of_mag_val [OF q53 q52 E, of neg] unfolding r by simp_all
  moreover have "q = m" if "v * 2 powi (- e) = real m" for m
    using round_div_near(2) [OF sc(1), of a m] that unfolding sc(2) q_def by blast
  ultimately show ?thesis
    using that near unfolding e_def v_def by blast
qed

abbreviation signed :: "bool \<Rightarrow> real \<Rightarrow> real" where
  "signed neg v \<equiv> (if neg then - 1 else 1) * v"

lemma round_f64_zero: "f64_val (round_f64 neg 0 d) = 0"
  using of_mag_val [of 0 0 neg] by (simp add: round_f64_def round_mag_def)

lemma round_exact:
  assumes "0 < d" "real n / real d * 2 ^ k = real m" "m < 2 ^ 53" "k \<le> 1074"
  shows "f64_val (round_f64 neg n d) = signed neg (real n / real d)"
proof (cases "n = 0")
  case True
  then show ?thesis by (simp add: round_f64_zero)
next
  case False
  define e where "e = round_exp n d"
  define v where "v = real n / real d"
  have pos: "0 < n" using False by simp
  have v: "v = real m * 2 powi (- int k)"
    using assms(2) by (simp add: v_def powi_minus field_simps)
  have "real m < 2 powi 53" using assms(3) by (metis of_nat_less_iff of_nat_numeral of_nat_power power_int_numeral)
  then have "v < 2 powi 53 * 2 powi (- int k)" unfolding v by simp
  then have up: "v < 2 powi (53 + (- int k))" by (simp only: powi_add)
  also have "(2::real) powi (53 + (- int k)) \<le> 2 powi 900" by (rule power_int_increasing) auto
  finally have big: "v < 2 powi 900" .
  have e: "e \<le> - int k"
    unfolding e_def by (rule round_exp_le) (use False assms(1,4) up in \<open>simp_all add: v_def\<close>)
  have "v * 2 powi (- e) = real m * 2 powi (- int k + - e)"
    by (simp only: v powi_add mult.assoc)
  also have "- int k + - e = int (nat (- int k - e))" using e by simp
  finally have "v * 2 powi (- e) = real m * 2 powi int (nat (- int k - e))" .
  also have "\<dots> = real (m * 2 ^ nat (- int k - e))" by (simp del: int_nat_eq)
  finally have q: "v * 2 powi (- e) = real (m * 2 ^ nat (- int k - e))" .
  obtain p where r: "f64_val (round_f64 neg n d) = signed neg (real p * 2 powi e)"
    "\<And>m. v * 2 powi (- e) = real m \<Longrightarrow> p = m"
    by (rule round_f64_cases [of n d neg, folded v_def e_def, OF pos assms(1) big]) (rule that)
  have "real p * 2 powi e = v"
    unfolding r(2) [OF q] q [symmetric] by (simp add: power_int_minus)
  then show ?thesis using r(1) by (simp add: v_def)
qed

lemma round_error:
  assumes "0 < d" "real n / real d < 2 powi j" "- 1021 \<le> j" "j \<le> 900"
  shows "\<bar>f64_val (round_f64 neg n d) - signed neg (real n / real d)\<bar> \<le> 2 powi (j - 54)"
proof (cases "n = 0")
  case True
  then show ?thesis by (simp add: round_f64_zero)
next
  case False
  define e where "e = round_exp n d"
  define v where "v = real n / real d"
  have pos: "0 < n" using False by simp
  have "(2::real) powi j \<le> 2 powi 900" using assms(4) by (rule power_int_increasing) simp
  then have big: "v < 2 powi 900" using assms(2) by (simp add: v_def)
  obtain q where r: "f64_val (round_f64 neg n d) = signed neg (real q * 2 powi e)"
    "\<bar>real q - v * 2 powi (- e)\<bar> \<le> 1 / 2"
    by (rule round_f64_cases [of n d neg, folded v_def e_def, OF pos assms(1) big]) (rule that)
  have e: "e \<le> j - 53"
    unfolding e_def by (rule round_exp_le) (use False assms in simp_all)
  have "real q * 2 powi e - v = (real q - v * 2 powi (- e)) * 2 powi e"
    by (simp add: power_int_minus field_simps)
  then have "\<bar>real q * 2 powi e - v\<bar> = \<bar>real q - v * 2 powi (- e)\<bar> * 2 powi e"
    by (simp add: abs_mult)
  also have "\<dots> \<le> 1 / 2 * 2 powi e" using r(2) by (intro mult_right_mono) simp_all
  also have "\<dots> = 2 powi (e - 1)" using powi_Suc [of "e - 1"] by simp
  also have "\<dots> \<le> 2 powi (j - 54)" by (rule power_int_increasing) (use e in auto)
  finally show ?thesis unfolding r(1) v_def [symmetric] by (auto simp: abs_minus_commute)
qed

section \<open>Operations\<close>

lemma signed_int: "signed (n < 0) (real (nat \<bar>n\<bar>) / y) = real_of_int n / y"
  by simp

lemma add_quotient:
  "real_of_int (f64_num x * int (f64_den y) + f64_num y * int (f64_den x)) /
     real (f64_den x * f64_den y) = f64_val x + f64_val y"
  using f64_den_pos [of x] f64_den_pos [of y] by (simp add: f64_val_def field_simps)

lemma mul_quotient:
  "signed (f64_neg x \<noteq> f64_neg y)
     (real (fst (f64_mag x) * fst (f64_mag y)) / real (f64_den x * f64_den y)) =
   f64_val x * f64_val y"
  by (simp add: f64_val_mag mag_val_def)

lemma div_quotient:
  "signed (f64_neg x \<noteq> f64_neg y)
     (real (fst (f64_mag x) * f64_den y) / real (f64_den x * fst (f64_mag y))) =
   f64_val x / f64_val y"
  by (simp add: f64_val_mag mag_val_def)

lemma val_nonzero_mag: "f64_val x \<noteq> 0 \<Longrightarrow> 0 < fst (f64_mag x)"
  by (auto simp: f64_val_mag mag_val_def split: if_splits)

text \<open>
  The exact result, when it is a multiple of \<open>2 ^ - k\<close> with at most 53 bits; otherwise a
  result below \<open>2 ^ j\<close> is off by at most \<open>2 ^ (j - 54)\<close>.
\<close>

definition short :: "real \<Rightarrow> bool" where
  "short v \<longleftrightarrow> (\<exists>k m. k \<le> 1074 \<and> \<bar>m\<bar> < 2 ^ 53 \<and> v * 2 ^ k = real_of_int m)"

lemma shortI: "v * 2 ^ k = real_of_int m \<Longrightarrow> k \<le> 1074 \<Longrightarrow> \<bar>m\<bar> < 2 ^ 53 \<Longrightarrow> short v"
  unfolding short_def by blast

lemma round_short:
  assumes "0 < d" "signed neg (real n / real d) = v" "short v"
  shows "f64_val (round_f64 neg n d) = v"
proof -
  obtain k m where m: "k \<le> 1074" "\<bar>m\<bar> < 2 ^ 53" "v * 2 ^ k = real_of_int m"
    using assms(3) by (auto simp: short_def)
  have "real n / real d = \<bar>v\<bar>" unfolding assms(2) [symmetric] by simp
  then have "real n / real d * 2 ^ k = \<bar>v * 2 ^ k\<bar>" by (simp add: abs_mult)
  also have "\<dots> = real (nat \<bar>m\<bar>)" unfolding m(3) by simp
  finally show ?thesis
    using round_exact [OF assms(1), of n k "nat \<bar>m\<bar>" neg] m(1,2) assms(2) by simp
qed

lemma round_near:
  assumes "0 < d" "signed neg (real n / real d) = v" "\<bar>v\<bar> < 2 powi j" "- 1021 \<le> j" "j \<le> 900"
  shows "\<bar>f64_val (round_f64 neg n d) - v\<bar> \<le> 2 powi (j - 54)"
proof -
  have "real n / real d = \<bar>v\<bar>" unfolding assms(2) [symmetric] by simp
  then show ?thesis using round_error [OF assms(1) _ assms(4,5), of n neg] assms(2,3) by simp
qed

lemma add_zero:
  "f64_num x * int (f64_den y) + f64_num y * int (f64_den x) = 0 \<Longrightarrow>
   f64_val (f64_add x y) = 0 \<and> f64_val x + f64_val y = 0"
  using add_quotient [of x y] of_mag_val [of 0 0]
  by (simp add: f64_add_def)

lemma add_exact:
  assumes "short (f64_val x + f64_val y)"
  shows "f64_val (f64_add x y) = f64_val x + f64_val y"
proof (cases "f64_num x * int (f64_den y) + f64_num y * int (f64_den x) = 0")
  case False
  show ?thesis
    unfolding f64_add_def Let_def using False
    by (simp only: if_False) (rule round_short [OF _ _ assms],
      simp add: f64_den_pos, simp only: signed_int add_quotient)
qed (use add_zero in auto)

lemma add_near:
  assumes "\<bar>f64_val x + f64_val y\<bar> < 2 powi j" "- 1021 \<le> j" "j \<le> 900"
  shows "\<bar>f64_val (f64_add x y) - (f64_val x + f64_val y)\<bar> \<le> 2 powi (j - 54)"
proof (cases "f64_num x * int (f64_den y) + f64_num y * int (f64_den x) = 0")
  case False
  show ?thesis
    unfolding f64_add_def Let_def using False
    by (simp only: if_False) (rule round_near [OF _ _ assms],
      simp add: f64_den_pos, simp only: signed_int add_quotient)
qed (use add_zero in auto)

lemma mul_exact:
  "short (f64_val x * f64_val y) \<Longrightarrow> f64_val (f64_mul x y) = f64_val x * f64_val y"
  unfolding f64_mul_def by (rule round_short) (simp_all only: mul_quotient, simp add: f64_den_pos)

lemma mul_near:
  assumes "\<bar>f64_val x * f64_val y\<bar> < 2 powi j" "- 1021 \<le> j" "j \<le> 900"
  shows "\<bar>f64_val (f64_mul x y) - f64_val x * f64_val y\<bar> \<le> 2 powi (j - 54)"
  unfolding f64_mul_def by (rule round_near [OF _ mul_quotient assms]) (simp add: f64_den_pos)

lemma div_exact:
  assumes "short (f64_val x / f64_val y)" "f64_val y \<noteq> 0"
  shows "f64_val (f64_div x y) = f64_val x / f64_val y"
  unfolding f64_div_def
  by (rule round_short [OF _ div_quotient assms(1)])
    (simp add: f64_den_pos val_nonzero_mag [OF assms(2)])

lemma div_near:
  assumes "\<bar>f64_val x / f64_val y\<bar> < 2 powi j" "- 1021 \<le> j" "j \<le> 900" "f64_val y \<noteq> 0"
  shows "\<bar>f64_val (f64_div x y) - f64_val x / f64_val y\<bar> \<le> 2 powi (j - 54)"
  unfolding f64_div_def
  by (rule round_near [OF _ div_quotient assms(1-3)])
    (simp add: f64_den_pos val_nonzero_mag [OF assms(4)])

lemma int_as_f64_exact:
  assumes "\<bar>n\<bar> < 2 ^ 53"
  shows "f64_val (int_as_f64 n) = real_of_int n"
  unfolding int_as_f64_def
  by (rule round_short [OF _ _ shortI [of _ 0 n]]) (use assms in simp_all)

lemma flip_val: "f64_val (f64_flip x) = - f64_val x"
proof -
  have b: "bit (f64_flip x) n = (if n = 63 then \<not> bit x 63 else bit x n)" for n
    unfolding f64_flip_def bit_xor_iff bit_exp_iff
    by (cases "n = 63") (auto simp: possible_bit_word)
  have "take_bit 63 (f64_flip x) = take_bit 63 x"
    by (rule bit_eqI) (auto simp: bit_take_bit_iff b)
  then have low: "unat (f64_flip x) mod 2 ^ 63 = unat x mod 2 ^ 63"
    by (metis take_bit_eq_mod unsigned_take_bit_eq)
  have "unat (f64_flip x) mod 2 ^ 52 = unat x mod 2 ^ 52"
    using arg_cong [OF low, of "\<lambda>n. n mod 2 ^ 52"] by (simp add: mod_mod_cancel)
  moreover have "unat w div 2 ^ 52 mod 2 ^ 11 = unat w mod 2 ^ 63 div 2 ^ 52" for w :: f64
    using mod_mult2_eq [of "unat w" "2 ^ 52" "2 ^ 11"] by simp
  ultimately have "f64_exp (f64_flip x) = f64_exp x" "f64_frac (f64_flip x) = f64_frac x"
    using low by (simp_all only: f64_exp_def f64_frac_def)
  moreover have "f64_neg (f64_flip x) = (\<not> f64_neg x)" by (simp add: f64_neg_def b)
  ultimately show ?thesis by (simp add: f64_val_mag mag_val_fields)
qed

lemma sub_exact:
  "short (f64_val x - f64_val y) \<Longrightarrow> f64_val (f64_sub x y) = f64_val x - f64_val y"
  using add_exact [of x "f64_flip y"] by (simp add: f64_sub_def flip_val)

lemma sub_near:
  assumes "\<bar>f64_val x - f64_val y\<bar> < 2 powi j" "- 1021 \<le> j" "j \<le> 900"
  shows "\<bar>f64_val (f64_sub x y) - (f64_val x - f64_val y)\<bar> \<le> 2 powi (j - 54)"
  using add_near [of x "f64_flip y" j] assms by (simp add: f64_sub_def flip_val)

end
