(* ===== verification/Geohash.thy ===== *)
theory Geohash
  imports Float_Laws Detect
begin

text \<open>
  What \<open>geohash_decode\<close> of \<open>detect.rs\<close> computes, over the real numbers: the centre of the
  cell the score names.  The longitude is exact; the latitude is off by less than
  \<open>2 ^ - 43\<close> degrees, which is what its rounded operations can add up to.
\<close>

section \<open>The cell of a score\<close>

text \<open>The odd bits of the score number the longitude cell, the even bits the latitude cell.\<close>

fun even_bits :: "nat \<Rightarrow> nat" where
  "even_bits n = (if n = 0 then 0 else n mod 2 + 2 * even_bits (n div 4))"

definition odd_bits :: "nat \<Rightarrow> nat" where
  "odd_bits n = even_bits (n div 2)"

declare even_bits.simps [simp del]

lemma bit_even_bits: "bit (even_bits n) k \<longleftrightarrow> bit n (2 * k)"
proof (induction n arbitrary: k rule: even_bits.induct)
  case (1 n)
  show ?case
  proof (cases "n = 0")
    case False
    have "bit (n mod 2 + 2 * even_bits (n div 4)) k \<longleftrightarrow> bit n (2 * k)"
    proof (cases k)
      case 0
      then show ?thesis by (simp add: bit_0)
    next
      case (Suc j)
      have "bit (n mod 2 + 2 * even_bits (n div 4)) (Suc j) \<longleftrightarrow> bit (even_bits (n div 4)) j"
        by (simp add: bit_Suc)
      also have "\<dots> \<longleftrightarrow> bit (n div 4) (2 * j)" using 1 False by simp
      also have "\<dots> \<longleftrightarrow> bit n (2 * Suc j)"
        by (simp add: bit_Suc div_mult2_eq [symmetric])
      finally show ?thesis by (simp add: Suc)
    qed
    then show ?thesis using False by (subst even_bits.simps) simp
  qed (simp add: even_bits.simps)
qed

lemma bit_odd_bits: "bit (odd_bits n) k \<longleftrightarrow> bit n (2 * k + 1)"
  by (simp add: odd_bits_def bit_even_bits bit_Suc)

lemma bounded_bits: "(\<And>k. m \<le> k \<Longrightarrow> \<not> bit n k) \<Longrightarrow> n < 2 ^ m" for n :: nat
  by (metis bit_take_bit_iff bit_eqI linorder_not_less take_bit_nat_less_exp)

lemma bits_small: "n < 2 ^ m \<Longrightarrow> m \<le> k \<Longrightarrow> \<not> bit n k" for n :: nat
  by (metis bit_take_bit_iff linorder_not_less take_bit_nat_eq_self)

lemma even_bits_less: "n < 2 ^ 52 \<Longrightarrow> even_bits n < 2 ^ 26"
  by (rule bounded_bits) (simp only: bit_even_bits, rule bits_small [of n 52], simp_all)

lemma odd_bits_less: "n < 2 ^ 52 \<Longrightarrow> odd_bits n < 2 ^ 26"
  by (rule bounded_bits) (simp only: bit_odd_bits, rule bits_small [of n 52], simp_all)

lemma cell_numbers:
  assumes "n < 2 ^ 52"
  shows "unat (ucast (deinterleave64 (word_of_nat n)) :: u32) = even_bits n"
    "unat (ucast (drop_bit 32 (deinterleave64 (word_of_nat n))) :: u32) = odd_bits n"
proof -
  have w: "bit (word_of_nat n :: u64) j = bit n j" for j
    using bits_small [OF assms, of j] by (cases "52 \<le> j") (auto simp: bit_of_nat_iff possible_bit_word)
  have u: "bit (unat (v :: u32)) j \<longleftrightarrow> j < 32 \<and> bit v j" for v j
    by (auto simp: bit_unsigned_iff dest: bit_imp_le_length)
  have lt: "\<not> bit n j" if "52 \<le> j" for j using bits_small [OF assms that] .
  show "unat (ucast (deinterleave64 (word_of_nat n)) :: u32) = even_bits n"
  proof (rule bit_eqI)
    show "bit (unat (ucast (deinterleave64 (word_of_nat n)) :: u32)) j \<longleftrightarrow> bit (even_bits n) j" for j
      using lt [of "2 * j"] by (cases "j < 32") (simp_all add: u bit_ilato w bit_even_bits)
  qed
  show "unat (ucast (drop_bit 32 (deinterleave64 (word_of_nat n))) :: u32) = odd_bits n"
  proof (rule bit_eqI)
    show "bit (unat (ucast (drop_bit 32 (deinterleave64 (word_of_nat n))) :: u32)) j \<longleftrightarrow>
        bit (odd_bits n) j" for j
      using lt [of "2 * j + 1"] by (cases "j < 32") (simp_all add: u bit_ilono w bit_odd_bits)
  qed
qed

section \<open>The decoded coordinates\<close>

lemma val_2_26: "f64_val (int_as_f64 (2 ^ STEP)) = 2 ^ 26"
  by (subst int_as_f64_exact) (simp_all add: STEP_def)

lemma val_int: "\<bar>n\<bar> < 2 ^ 53 \<Longrightarrow> f64_val (int_as_f64 n) = real_of_int n"
  by (rule int_as_f64_exact)

text \<open>The two edges of cell \<open>i\<close>, as fractions of the scale: both are exact.\<close>

lemma edge_exact:
  "f64_val (f64_div (int_as_f64 (uint i)) (int_as_f64 (2 ^ STEP))) = real (unat i) / 2 ^ 26"
  "f64_val (f64_div (f64_add (int_as_f64 (uint i)) (int_as_f64 1)) (int_as_f64 (2 ^ STEP))) =
     (real (unat i) + 1) / 2 ^ 26" for i :: u32
proof -
  have i: "uint i < 2 ^ 32" "0 \<le> uint i" "real_of_int (uint i) = real (unat i)"
    using uint_bounded [of i] by simp_all
  then have v: "f64_val (int_as_f64 (uint i)) = real (unat i)"
    by (subst val_int) simp_all
  have one: "f64_val (int_as_f64 1) = 1" by (subst val_int) simp_all
  show "f64_val (f64_div (int_as_f64 (uint i)) (int_as_f64 (2 ^ STEP))) = real (unat i) / 2 ^ 26"
    using div_exact [OF shortI [of _ 26 "uint i"], of "int_as_f64 (uint i)" "int_as_f64 (2 ^ STEP)"] i
    by (simp add: v val_2_26)
  have s: "f64_val (f64_add (int_as_f64 (uint i)) (int_as_f64 1)) = real (unat i) + 1"
    using add_exact [OF shortI [of _ 0 "uint i + 1"], of "int_as_f64 (uint i)" "int_as_f64 1"] i
    by (simp add: v one)
  show "f64_val (f64_div (f64_add (int_as_f64 (uint i)) (int_as_f64 1)) (int_as_f64 (2 ^ STEP))) =
     (real (unat i) + 1) / 2 ^ 26"
    using div_exact [OF shortI [of _ 26 "uint i + 1"],
        of "f64_add (int_as_f64 (uint i)) (int_as_f64 1)" "int_as_f64 (2 ^ STEP)"] i
    by (simp add: s val_2_26)
qed

lemma val_LONG: "f64_val LONG_MIN = - 180" "f64_val (f64_sub LONG_MAX LONG_MIN) = 360"
proof -
  have v: "f64_val LONG_MIN = - 180" "f64_val LONG_MAX = 180"
    unfolding LONG_MIN_def LONG_MAX_def by (subst val_int; simp)+
  show "f64_val LONG_MIN = - 180" by (rule v)
  show "f64_val (f64_sub LONG_MAX LONG_MIN) = 360"
    using sub_exact [OF shortI [of _ 0 360], of LONG_MAX LONG_MIN] by (simp add: v)
qed

lemma long_edge:
  assumes "f64_val t = real k / 2 ^ 26" "k \<le> 2 ^ 26"
  shows "f64_val (f64_add LONG_MIN (f64_mul t (f64_sub LONG_MAX LONG_MIN))) =
    - 180 + 360 * real k / 2 ^ 26"
proof -
  have m: "f64_val (f64_mul t (f64_sub LONG_MAX LONG_MIN)) = 360 * real k / 2 ^ 26"
    using mul_exact [OF shortI [of _ 26 "360 * int k"], of t "f64_sub LONG_MAX LONG_MIN"] assms
    by (simp add: val_LONG)
  have "\<bar>360 * int k - 180 * 2 ^ 26\<bar> < 2 ^ 53" using assms(2) by simp
  then show ?thesis
    using add_exact [OF shortI [of _ 26 "360 * int k - 180 * 2 ^ 26"],
        of LONG_MIN "f64_mul t (f64_sub LONG_MAX LONG_MIN)"]
    by (simp add: m val_LONG field_simps)
qed

lemma centre_exact:
  assumes "f64_val a = real k / 2 ^ 26" "f64_val b = (real k + 1) / 2 ^ 26" "k < 2 ^ 26"
  defines "lo \<equiv> f64_add LONG_MIN (f64_mul a (f64_sub LONG_MAX LONG_MIN))"
    and "hi \<equiv> f64_add LONG_MIN (f64_mul b (f64_sub LONG_MAX LONG_MIN))"
  shows "f64_val (f64_div (f64_add lo hi) (int_as_f64 2)) = - 180 + 360 * (real k + 1 / 2) / 2 ^ 26"
proof -
  let ?m = "720 * int k + 360 - 360 * 2 ^ 26"
  have l: "f64_val lo = - 180 + 360 * real k / 2 ^ 26"
    unfolding lo_def using assms(3) by (intro long_edge [OF assms(1)]) simp
  have h: "f64_val hi = - 180 + 360 * (real k + 1) / 2 ^ 26"
    unfolding hi_def using long_edge [of b "k + 1"] assms(2,3) by simp
  have "\<bar>?m\<bar> < 2 ^ 53" using assms(3) by simp
  then have s: "f64_val (f64_add lo hi) = real_of_int ?m / 2 ^ 26"
    using add_exact [OF shortI [of _ 26 ?m], of lo hi] by (simp add: l h field_simps)
  have two: "f64_val (int_as_f64 2) = 2" by (subst val_int) simp_all
  have "f64_val (f64_div (f64_add lo hi) (int_as_f64 2)) = real_of_int ?m / 2 ^ 26 / 2"
    using div_exact [OF shortI [of _ 27 ?m], of "f64_add lo hi" "int_as_f64 2"]
      \<open>\<bar>?m\<bar> < 2 ^ 53\<close>
    by (simp add: s two)
  then show ?thesis by (simp add: field_simps)
qed

text \<open>The latitudes: each operation adds at most \<open>2 ^ - 46\<close>.\<close>

definition MAX_LATITUDE :: real where
  "MAX_LATITUDE = 8505112878 / 10 ^ 8"

definition tick :: real where
  "tick = 1 / 2 ^ 46"

lemma near_8:
  "\<bar>f64_val x + f64_val y\<bar> < 256 \<Longrightarrow> \<bar>f64_val (f64_add x y) - (f64_val x + f64_val y)\<bar> \<le> tick"
  "\<bar>f64_val x - f64_val y\<bar> < 256 \<Longrightarrow> \<bar>f64_val (f64_sub x y) - (f64_val x - f64_val y)\<bar> \<le> tick"
  "\<bar>f64_val x * f64_val y\<bar> < 256 \<Longrightarrow> \<bar>f64_val (f64_mul x y) - f64_val x * f64_val y\<bar> \<le> tick"
  "\<bar>f64_val x / f64_val y\<bar> < 256 \<Longrightarrow> f64_val y \<noteq> 0 \<Longrightarrow>
     \<bar>f64_val (f64_div x y) - f64_val x / f64_val y\<bar> \<le> tick"
  using add_near [of x y 8] sub_near [of x y 8] mul_near [of x y 8] div_near [of x y 8]
  by (simp_all add: tick_def powi_minus [of 46, simplified])

lemma val_LAT:
  "\<bar>f64_val LAT_MAX - MAX_LATITUDE\<bar> \<le> tick" "\<bar>f64_val LAT_MIN + MAX_LATITUDE\<bar> \<le> tick"
  using round_near [of "10 ^ 8" False 8505112878 "MAX_LATITUDE" 8]
    round_near [of "10 ^ 8" True 8505112878 "- MAX_LATITUDE" 8]
  by (simp_all add: LAT_MAX_def LAT_MIN_def decimal_f64_def MAX_LATITUDE_def tick_def
      powi_minus [of 46, simplified])

lemma val_lat_scale: "\<bar>f64_val (f64_sub LAT_MAX LAT_MIN) - 2 * MAX_LATITUDE\<bar> \<le> 3 * tick"
proof -
  have "tick < 1" "MAX_LATITUDE < 86" "0 < MAX_LATITUDE" by (simp_all add: tick_def MAX_LATITUDE_def)
  then show ?thesis
    using val_LAT near_8(2) [of LAT_MAX LAT_MIN] by linarith
qed

lemma lat_edge:
  assumes "0 \<le> f64_val t" "f64_val t \<le> 1"
  shows "\<bar>f64_val (f64_add LAT_MIN (f64_mul t (f64_sub LAT_MAX LAT_MIN))) -
    (- MAX_LATITUDE + 2 * MAX_LATITUDE * f64_val t)\<bar> \<le> 6 * tick"
proof -
  define x where "x = f64_val t"
  define s where "s = f64_val (f64_sub LAT_MAX LAT_MIN)"
  have b: "tick < 1 / 100" "MAX_LATITUDE < 86" "0 < MAX_LATITUDE"
    by (simp_all add: tick_def MAX_LATITUDE_def)
  have s: "\<bar>s - 2 * MAX_LATITUDE\<bar> \<le> 3 * tick" using val_lat_scale by (simp add: s_def)
  have "\<bar>x * s - x * (2 * MAX_LATITUDE)\<bar> = x * \<bar>s - 2 * MAX_LATITUDE\<bar>"
    using assms(1) by (simp add: x_def abs_mult flip: right_diff_distrib)
  also have "\<dots> \<le> 1 * (3 * tick)"
    using assms s by (intro mult_mono) (simp_all add: x_def)
  finally have xs: "\<bar>x * s - x * (2 * MAX_LATITUDE)\<bar> \<le> 3 * tick" by simp
  have x2: "0 \<le> x * (2 * MAX_LATITUDE)" "x * (2 * MAX_LATITUDE) \<le> 1 * (2 * MAX_LATITUDE)"
    using assms b(3) by (auto simp: x_def intro!: mult_right_mono)
  define p where "p = f64_val (f64_mul t (f64_sub LAT_MAX LAT_MIN))"
  have p: "\<bar>p - x * s\<bar> \<le> tick"
    unfolding p_def x_def s_def by (rule near_8(3)) (use xs x2 b in \<open>fold x_def s_def, linarith\<close>)
  have "\<bar>f64_val (f64_add LAT_MIN (f64_mul t (f64_sub LAT_MAX LAT_MIN))) - (f64_val LAT_MIN + p)\<bar> \<le> tick"
    unfolding p_def by (rule near_8(1)) (use p xs x2 b val_LAT in \<open>fold p_def, linarith\<close>)
  then show ?thesis
    using p xs val_LAT(2) by (simp add: x_def mult.commute)
qed

lemma centre_near:
  assumes "f64_val a = real k / 2 ^ 26" "f64_val b = (real k + 1) / 2 ^ 26" "k < 2 ^ 26"
  defines "lo \<equiv> f64_add LAT_MIN (f64_mul a (f64_sub LAT_MAX LAT_MIN))"
    and "hi \<equiv> f64_add LAT_MIN (f64_mul b (f64_sub LAT_MAX LAT_MIN))"
  shows "\<bar>f64_val (f64_div (f64_add lo hi) (int_as_f64 2)) -
    (- MAX_LATITUDE + 2 * MAX_LATITUDE * ((real k + 1 / 2) / 2 ^ 26))\<bar> < 1 / 2 ^ 43"
proof -
  have k: "real k + 1 \<le> 2 ^ 26"
    using assms(3) by (metis Suc_leI add.commute of_nat_Suc of_nat_le_iff of_nat_numeral of_nat_power)
  have ab: "0 \<le> f64_val a" "f64_val a \<le> 1" "0 \<le> f64_val b" "f64_val b \<le> 1"
    using k by (simp_all add: assms(1,2))
  define A where "A = 2 * MAX_LATITUDE * f64_val a"
  define B where "B = 2 * MAX_LATITUDE * f64_val b"
  have b: "tick < 1 / 100" "MAX_LATITUDE < 86" "0 < MAX_LATITUDE"
    by (simp_all add: tick_def MAX_LATITUDE_def)
  have AB: "0 \<le> A" "A \<le> 2 * MAX_LATITUDE" "0 \<le> B" "B \<le> 2 * MAX_LATITUDE"
    using ab b(3) by (simp_all add: A_def B_def)
  have l: "\<bar>f64_val lo - (- MAX_LATITUDE + A)\<bar> \<le> 6 * tick"
    and h: "\<bar>f64_val hi - (- MAX_LATITUDE + B)\<bar> \<le> 6 * tick"
    unfolding lo_def hi_def A_def B_def using lat_edge ab by blast+
  define S where "S = f64_val (f64_add lo hi)"
  have S: "\<bar>S - (f64_val lo + f64_val hi)\<bar> \<le> tick"
    unfolding S_def by (rule near_8(1)) (use l h AB b in linarith)
  have two: "f64_val (int_as_f64 2) = 2" by (subst val_int) simp_all
  have "\<bar>S / 2\<bar> < 256" using S l h AB b by linarith
  then have d: "\<bar>f64_val (f64_div (f64_add lo hi) (int_as_f64 2)) - S / 2\<bar> \<le> tick"
    using near_8(4) [of "f64_add lo hi" "int_as_f64 2"] by (simp add: two S_def)
  have e: "- MAX_LATITUDE + 2 * MAX_LATITUDE * ((real k + 1 / 2) / 2 ^ 26) = - MAX_LATITUDE + (A + B) / 2"
    by (simp add: A_def B_def assms(1,2) field_simps)
  have t: "1 / 2 ^ 43 = 8 * tick" "0 < tick" by (simp_all add: tick_def)
  have "\<bar>f64_val (f64_div (f64_add lo hi) (int_as_f64 2)) - (- MAX_LATITUDE + (A + B) / 2)\<bar> < 8 * tick"
    using d S l h t(2) unfolding abs_le_iff abs_less_iff by (intro conjI) argo+
  then show ?thesis by (simp only: e t(1))
qed

lemma decode_value:
  assumes "f64_is_finite s" "f64_val s = real n" "n < 2 ^ 52"
  shows "geohash_decode s \<noteq> None" "f64_as_u64 s = word_of_nat n"
proof -
  have den: "0 < real (f64_den s)" using f64_den_pos by simp
  have "real_of_int (f64_num s) = real_of_int (int n * int (f64_den s))"
    using assms(2) den by (simp add: f64_val_def field_simps)
  then have num: "f64_num s = int n * int (f64_den s)" by (simp only: of_int_eq_iff)
  then have "is_geohash s" using assms(1,3) unfolding is_geohash_def by blast
  then show "geohash_decode s \<noteq> None" by (simp only: geohash_decode_iff)
  have mag: "fst (f64_mag s) = n * f64_den s" if "\<not> f64_neg s"
    using num that by (simp add: f64_num_def flip: of_nat_mult)
  have zero: "n = 0" if "f64_neg s"
  proof -
    have "int n * int (f64_den s) \<le> 0" using num that by (simp add: f64_num_def)
    then show ?thesis using den by (simp add: mult_le_0_iff)
  qed
  have "fst (f64_mag s) div snd (f64_mag s) = n" if "\<not> f64_neg s"
    using mag [OF that] den by (simp add: f64_den_def)
  moreover have "\<not> f64_is_nan s" using assms(1) by (simp add: f64_is_finite_def f64_is_nan_def)
  ultimately show "f64_as_u64 s = word_of_nat n"
    using assms(1,3) zero by (auto simp: f64_as_u64_def min_def)
qed

lemma decode_some:
  assumes "geohash_decode s \<noteq> None"
  defines "i \<equiv> (ucast (deinterleave64 (f64_as_u64 s)) :: u32)"
    and "j \<equiv> (ucast (drop_bit 32 (deinterleave64 (f64_as_u64 s))) :: u32)"
    and "lat \<equiv> f64_sub LAT_MAX LAT_MIN" and "long \<equiv> f64_sub LONG_MAX LONG_MIN"
  shows "geohash_decode s = Some
    (f64_div (f64_add (cell_low LONG_MIN long j) (cell_high LONG_MIN long j)) (int_as_f64 2),
     f64_div (f64_add (cell_low LAT_MIN lat i) (cell_high LAT_MIN lat i)) (int_as_f64 2))"
  using assms(1) unfolding geohash_decode_def Let_def i_def j_def lat_def long_def
  by (simp split: if_splits)

lemma decode_coordinates:
  assumes "f64_is_finite s" "f64_val s = real n" "n < 2 ^ 52"
  shows "\<exists>lon lat. geohash_decode s = Some (lon, lat) \<and>
    f64_val lon = - 180 + 360 * (real (odd_bits n) + 1 / 2) / 2 ^ 26 \<and>
    \<bar>f64_val lat - (- MAX_LATITUDE + 2 * MAX_LATITUDE * ((real (even_bits n) + 1 / 2) / 2 ^ 26))\<bar>
      < 1 / 2 ^ 43"
proof -
  note d = decode_value [OF assms]
  note c = cell_numbers [OF assms(3)]
  note e = edge_exact [where i = "ucast (deinterleave64 (word_of_nat n))", unfolded c]
  note o' = edge_exact [where i = "ucast (drop_bit 32 (deinterleave64 (word_of_nat n)))", unfolded c]
  show ?thesis
    using decode_some [OF d(1)] centre_exact [OF o' odd_bits_less [OF assms(3)]]
      centre_near [OF e even_bits_less [OF assms(3)]]
    unfolding d(2) cell_low_def cell_high_def by blast
qed

lemma geohash_has_value: "is_geohash s \<Longrightarrow> \<exists>n < 2 ^ 52. f64_is_finite s \<and> f64_val s = real n"
proof -
  assume "is_geohash s"
  then obtain n where n: "n < 2 ^ 52" "f64_is_finite s" "f64_num s = int n * int (f64_den s)"
    unfolding is_geohash_def by blast
  then have "f64_val s = real n" using f64_den_pos [of s] by (simp add: f64_val_def)
  then show ?thesis using n by blast
qed

text \<open>
  Claim C19. Geohashes: a score is rejected exactly when it is no integer below \<open>2 ^ 52\<close>, and an
  integer \<open>n\<close> decodes to the centre of its cell: the longitude is exactly that of the cell the
  odd bits of \<open>n\<close> number among \<open>2 ^ 26\<close>, and the latitude is within \<open>2 ^ - 43\<close> degrees of that
  of the cell its even bits number.  A sorted set is a geo set exactly when it has members and
  all their scores are geohashes.
\<close>

theorem geohash_coordinates:
  "(case geohash_decode s of
      None \<Rightarrow> \<not> is_geohash s
    | Some (lon, lat) \<Rightarrow> \<exists>n. n < 2 ^ 52 \<and> f64_is_finite s \<and> f64_val s = real n \<and>
        f64_val lon = - 180 + 360 * (real (odd_bits n) + 1 / 2) / 2 ^ 26 \<and>
        \<bar>f64_val lat - (- MAX_LATITUDE + 2 * MAX_LATITUDE * ((real (even_bits n) + 1 / 2) / 2 ^ 26))\<bar>
          < 1 / 2 ^ 43) \<and>
   (is_geo ms \<longleftrightarrow> ms \<noteq> [] \<and> filter (\<lambda>p. \<not> is_geohash (snd p)) ms = [])"
proof
  show "case geohash_decode s of
      None \<Rightarrow> \<not> is_geohash s
    | Some (lon, lat) \<Rightarrow> \<exists>n. n < 2 ^ 52 \<and> f64_is_finite s \<and> f64_val s = real n \<and>
        f64_val lon = - 180 + 360 * (real (odd_bits n) + 1 / 2) / 2 ^ 26 \<and>
        \<bar>f64_val lat - (- MAX_LATITUDE + 2 * MAX_LATITUDE * ((real (even_bits n) + 1 / 2) / 2 ^ 26))\<bar>
          < 1 / 2 ^ 43"
  proof (cases "is_geohash s")
    case True
    then obtain n where n: "n < 2 ^ 52" "f64_is_finite s" "f64_val s = real n"
      using geohash_has_value by blast
    then show ?thesis using decode_coordinates [OF n(2,3,1)] by fastforce
  next
    case False
    then have "geohash_decode s = None" using geohash_decode_iff by blast
    then show ?thesis using False by simp
  qed
  show "is_geo ms \<longleftrightarrow> ms \<noteq> [] \<and> filter (\<lambda>p. \<not> is_geohash (snd p)) ms = []"
    by (auto simp: is_geo_iff filter_empty_conv)
qed

theorem geohash_coordinates_witness:
  "\<exists>lon lat. geohash_decode 0x4328B8722A0EF454 = Some (lon, lat) \<and>
    f64_val lon = - 180 + 360 * (36045175 + 1 / 2) / 2 ^ 26 \<and>
    \<bar>f64_val lat - (- MAX_LATITUDE + 2 * MAX_LATITUDE * ((48591808 + 1 / 2) / 2 ^ 26))\<bar> < 1 / 2 ^ 43"
proof -
  let ?s = "0x4328B8722A0EF454 :: f64"
  have fin: "f64_is_finite ?s" and num: "f64_num ?s = 3479099956230698 * int (f64_den ?s)"
    by (simp_all add: f64_is_finite_def f64_num_def f64_den_def f64_mag_def f64_neg_def
      f64_exp_def f64_frac_def)
  have val: "f64_val ?s = real n \<longleftrightarrow> n = 3479099956230698" for n
    using num f64_den_pos [of ?s] by (auto simp: f64_val_def field_simps simp flip: of_int_eq_iff)
  have bits: "odd_bits 3479099956230698 = 36045175" "even_bits 3479099956230698 = 48591808"
    by (simp_all add: odd_bits_def even_bits.simps)
  have "is_geohash ?s"
    unfolding is_geohash_def using fin num by (intro conjI exI [of _ 3479099956230698]) simp_all
  then show ?thesis
    using conjunct1 [OF geohash_coordinates [of ?s "[]"]] by (auto simp: val bits split: option.splits)
qed

end
