(* ===== verification/Spec2Isabelle.thy ===== *)
theory Spec2Isabelle
  imports Reader_Props Arrow_Props Cli_Props Validate_Props Format_Props Byte_Sizes Python_Props Cli_Main
    Geohash
begin

text \<open>
  A model of valkey-rdb-tools, a Rust program that reads the RDB files of Valkey and Redis
  and writes their entries as Parquet, Arrow, CSV or JSON files.

  The program.  An RDB file is a header, a sequence of opcode records and keyed values, an
  EOF opcode and a CRC-64.  The crate \<open>rdb-parser\<close> reads it as an iterator of entries and
  splits large collections into chunks.  The crate \<open>rdb-to-arrow\<close> routes each entry to the
  builder of its type, which turns it into rows, and emits a record batch when a builder is
  full; geo-like sorted sets are also emitted as geo rows.  A writer pipeline opens one
  writer per type and closes them all.  The crate \<open>cli\<close> has the commands \<open>export\<close>,
  \<open>validate\<close> and \<open>schema\<close>, the crate \<open>python\<close> the functions \<open>read\<close>, \<open>read_batches\<close>,
  \<open>to_parquet\<close> and \<open>inspect\<close>.

  Conventions (Rdb_Prelude, Byte_Ints, Utf8, Text, Float64).  A function of the source is a
  definition of the same name.  A fallible one returns \<open>('a, 'e) res\<close>, which is \<open>Ok\<close>, \<open>Err\<close>
  or \<open>Panic\<close>; indexing, slicing, \<open>unreachable!\<close> and arithmetic that would overflow are
  explicit panics, so that their absence is proved.  Code with a \<open>&mut\<close> state is a state
  transformer.  A machine integer is a word of its width, \<open>usize\<close> is \<open>nat\<close> with the 64-bit
  bound written out where the code checks it, \<open>f64\<close> is its bit pattern, and a \<open>String\<close> is
  its UTF-8 bytes.

  Parser (\<open>crates/rdb-parser/src\<close>).
  Opcodes is \<open>opcodes.rs\<close>, Rdb_Types \<open>types.rs\<close>, Crc64 \<open>crc64.rs\<close>, Lzf \<open>lzf.rs\<close>,
  Compact \<open>compact.rs\<close>, Intset \<open>intset.rs\<close>, Listpack \<open>listpack.rs\<close>, Ziplist
  \<open>ziplist.rs\<close>, Stream_Lp \<open>stream.rs\<close>.  Each decoder is characterised: it accepts exactly
  its format and returns what the format says.  Listpack and ziplist are interpretations of
  the locale \<open>compact_codec\<close> (Codec), which derives the walk over the entries from the laws
  of one step.  The reader of \<open>reader.rs\<close> is Reader_Prims (bytes, lengths, strings and the
  CRC), Reader_Values (values, modules, streams) and Reader_Iter (the record \<open>rdb_reader\<close>,
  chunking and the iterator).  Reader_Run defines the states a caller can reach as an
  inductive relation, with the invariants of the reader by rule induction and \<open>collect\<close>,
  which iterates to the end.  Rdb_Format is a grammar of the files a server writes, and the
  entries they mean, without the reader; Reader_File shows that the reader reads them back.
  The grammar has the opcodes but those of modules, slot imports and early functions, and the strings and collections in
  their plain, listpack, ziplist and intset encodings; it leaves out quicklists, streams,
  modules and the sorted sets with textual scores of old versions, whose readers are
  modelled and covered by the properties for any input.
  Reader_Props has the properties.

  Conversion (\<open>crates/rdb-to-arrow/src\<close>).
  Detect is \<open>detect.rs\<close>, Arrow_Schema \<open>schema.rs\<close>, Arrow_Types \<open>error.rs\<close> with what is
  exchanged with the \<open>arrow\<close> crate, Builders_Common and Builders \<open>builders.rs\<close>, Batcher
  \<open>batcher.rs\<close>, Writer \<open>writer.rs\<close>, Summarize \<open>summarize.rs\<close>.  The trait \<open>BatchBuilder\<close> is
  the locale \<open>batch_builder\<close> (Builder_Laws): the builder depicts the rows pushed so far and
  counts them and their bytes; Builder_Impl interprets it nine times.  Batcher_Laws is the
  abstract batcher, a list of waiting rows per type, with the simulation by the code's; and
  Batch_Iter the specification of the iterator over any source of entries.  Row_Payload and
  Row_Facts count rows and bytes.  Export puts reader and batcher together.  Arrow_Props has
  the properties; Geohash shows over the reals, with the laws of Float_Laws for the rounded
  arithmetic of Float64, which coordinates a geohash decodes to.

  Command line (\<open>crates/cli/src\<close>).
  Cli_Args is \<open>args.rs\<close>, \<open>cli_error.rs\<close> and the pure parts of \<open>io.rs\<close>, Cli_Filter
  \<open>filter.rs\<close>, Cli_Export \<open>export.rs\<close>, Cli_Validate \<open>validate.rs\<close>, Cli_Schema
  \<open>schema.rs\<close>, Error_Text the texts and causes of all errors, Cli_Main \<open>main.rs\<close>.
  Export_Laws and Cli_Props show what an export does on any input and what it has written
  when it succeeds; Validate_Props what it means that \<open>validate\<close> passes; Format_Props the
  writers, metadata and names; Byte_Sizes the grammar of the size options.

  Python (\<open>crates/python/src/lib.rs\<close>).
  Python_Binding is the four functions; Python_Props relates \<open>read\<close> to the entries and
  \<open>to_parquet\<close> to the command line.

  Termination.  The loops over a buffer or a stream of bytes are functions with a measure.
  The loops that pull an iterator (\<open>collect\<close>, \<open>batch_next\<close>, \<open>batch_collect\<close>,
  \<open>filtered_next\<close>, \<open>count_loop\<close>) are partial functions with \<open>None\<close> for not returning; for
  every reader they are shown to return, since each item of the reader takes at least one
  byte.  There is no fuel.

  Parameters.  The file system, the writers of the crates \<open>arrow\<close> and \<open>parquet\<close>,
  \<open>glob_match\<close>, \<open>pyarrow\<close> and the rendering of Arrow types are records of functions
  (\<open>cli_env\<close>, \<open>validate_env\<close>, \<open>render\<close>, \<open>pyarrow\<close>).  \<open>RecordBatch::try_new\<close> is a parameter
  with the documented hypothesis \<open>try_new_accepts\<close>: it accepts columns of equal length that
  conform to the schema.  The \<open>world\<close> the writers act on is a type variable.  An input is
  the bytes it delivers and the error at its end.

  Not modelled.  Option parsing, which clap derives from attributes; the module registration
  of \<open>pyo3\<close>; the release of the interpreter lock; re-exports; the test helpers.  Of the
  behaviour of the modelled code: allocation failure, capacity hints beyond their value, the
  content of the format arguments of \<open>CorruptData\<close> messages, and the limit of 2 GB of an
  Arrow column, at which \<open>append_value\<close> panics (for the binary columns, the bound on the
  memory of a batch gives the configurations that never reach it).  Counters of type \<open>u64\<close>
  wrap where the code uses \<open>+=\<close>, as in a release build.
\<close>

end
